(* ===== verification/Prelude.thy ===== *)
theory Prelude
  imports Main "HOL-Library.Word" "HOL-Library.AList" "HOL-Library.Multiset"
begin

text \<open>
  Shared vocabulary of the development: the machine types of the Rust sources, Rust slices
  (\<open>get\<close>, \<open>copy_from_slice\<close>) on lists, hash maps as association lists without repeated
  keys, hash sets as lists without repeated elements, and the generic facts the components
  share. Two collections carry the automation: \<open>slice_simps\<close> for the byte-buffer
  calculations and \<open>hash_simps\<close> for the tables.
\<close>

named_theorems slice_simps "byte buffers: slices, in-place writes, lengths"
named_theorems hash_simps "hash maps and hash sets: lookup after update"

section \<open>Machine types\<close>

type_synonym byte = "8 word"
type_synonym u16 = "16 word"
type_synonym u32 = "32 word"
type_synonym u64 = "64 word"

text \<open>An \<open>i32\<close> is the same 32 bits read by \<^const>\<open>sint\<close>; Rust's \<open>as i32\<close> and
  \<open>as u32\<close> keep the bits.\<close>

type_synonym i32 = "32 word"

text \<open>An owned file descriptor, by number.\<close>

type_synonym fd = nat

text \<open>A Rust string is its UTF-8 bytes; HOL's \<^typ>\<open>char\<close> is exactly a byte.\<close>

definition bytes_of :: "string \<Rightarrow> byte list" where
  "bytes_of s = map (\<lambda>c. word_of_nat (of_char c)) s"

definition string_of :: "byte list \<Rightarrow> string" where
  "string_of bs = map (\<lambda>b. char_of (unat b)) bs"

lemma length_bytes_of [simp]: "length (bytes_of s) = length s"
  by (simp add: bytes_of_def)

lemma length_string_of [simp]: "length (string_of bs) = length bs"
  by (simp add: string_of_def)

lemma unat_of_char_byte: "unat (word_of_nat (of_char c) :: byte) = of_char c"
  by (simp add: unat_of_nat)

lemma string_of_bytes_of [simp]: "string_of (bytes_of s) = s"
  by (simp add: string_of_def bytes_of_def comp_def unat_of_char_byte)

lemma bytes_of_string_of [simp]: "bytes_of (string_of bs) = bs"
proof -
  have "(unat b mod 256) = unat b" for b :: byte
    using unsigned_less [of b, where ?'a = nat] by simp
  then show ?thesis by (simp add: string_of_def bytes_of_def comp_def)
qed

section \<open>Slices\<close>

text \<open>\<open>buf.get(a..b)\<close>: \<^const>\<open>None\<close> when the range is not inside the slice.\<close>

definition get_range :: "'a list \<Rightarrow> nat \<Rightarrow> nat \<Rightarrow> 'a list option" where
  "get_range xs a b = (if a \<le> b \<and> b \<le> length xs then Some (take (b - a) (drop a xs)) else None)"

text \<open>\<open>buf[a..a + n].copy_from_slice(new)\<close> with \<open>n\<close> the length of \<open>new\<close>; callers stay in
  range, where it keeps the length.\<close>

definition overwrite :: "'a list \<Rightarrow> nat \<Rightarrow> 'a list \<Rightarrow> 'a list" where
  "overwrite xs a new = take a xs @ new @ drop (a + length new) xs"

lemma get_range_Some_iff:
  "get_range xs a b = Some ys \<longleftrightarrow> a \<le> b \<and> b \<le> length xs \<and> ys = take (b - a) (drop a xs)"
  by (auto simp: get_range_def)

lemma get_range_SomeD [dest]: "get_range xs a b = Some ys \<Longrightarrow> length ys = b - a"
  by (auto simp: get_range_def split: if_splits)

lemma get_range_append [slice_simps]:
  "b \<le> length xs \<Longrightarrow> get_range (xs @ zs) a b = get_range xs a b"
  by (simp add: get_range_def)

lemma get_range_append2 [slice_simps]:
  "a = length xs \<Longrightarrow> b = length xs + length ys \<Longrightarrow> get_range (xs @ ys @ zs) a b = Some ys"
  by (simp add: get_range_def)

lemma length_overwrite [simp]:
  "a + length new \<le> length xs \<Longrightarrow> length (overwrite xs a new) = length xs"
  by (simp add: overwrite_def)

lemma overwrite_nth:
  assumes "a + length new \<le> length xs" "i < length xs"
  shows "overwrite xs a new ! i =
    (if a \<le> i \<and> i < a + length new then new ! (i - a) else xs ! i)"
  using assms by (auto simp: overwrite_def nth_append min_def)

lemma overwrite_same_range [slice_simps]:
  "a + length new \<le> length xs \<Longrightarrow> get_range (overwrite xs a new) a (a + length new) = Some new"
  by (simp add: get_range_def overwrite_def)

text \<open>Reading a range that an in-place write does not touch.\<close>

lemma overwrite_other_range [slice_simps]:
  assumes "a + length new \<le> length xs" and "c + n \<le> a \<or> a + length new \<le> c"
  shows "get_range (overwrite xs a new) c (c + n) = get_range xs c (c + n)"
proof (cases "c + n \<le> length xs")
  case True
  have "take n (drop c (overwrite xs a new)) = take n (drop c xs)"
    using assms True by (intro nth_equalityI) (auto simp: overwrite_nth)
  then show ?thesis using assms True by (simp add: get_range_def)
next
  case False
  then show ?thesis using assms by (simp add: get_range_def)
qed

lemma overwrite_drop:
  "a + length new \<le> length xs \<Longrightarrow> n \<le> a \<Longrightarrow>
   drop n (overwrite xs a new) = overwrite (drop n xs) (a - n) new"
  by (simp add: overwrite_def drop_take add.commute)

lemma overwrite_take_before:
  "n \<le> a \<Longrightarrow> a \<le> length xs \<Longrightarrow> take n (overwrite xs a new) = take n xs"
  by (simp add: overwrite_def min_def)

section \<open>Hash maps and hash sets\<close>

text \<open>
  A \<open>HashMap\<close> is an association list (\<^const>\<open>AList.update\<close>, \<^const>\<open>AList.delete\<close>,
  \<^const>\<open>map_of\<close>), a \<open>HashSet\<close> a list (\<^const>\<open>List.insert\<close>, \<^const>\<open>removeAll\<close>). The
  order of the list is not the iteration order of the Rust table, which is unspecified:
  every definition that iterates takes the order as a function applied to the keys.
\<close>

type_synonym ('k, 'v) hash_map = "('k \<times> 'v) list"
type_synonym 'k hash_set = "'k list"

definition hm_get :: "('k, 'v) hash_map \<Rightarrow> 'k \<Rightarrow> 'v option" where
  "hm_get m k = map_of m k"

definition hm_insert :: "'k \<Rightarrow> 'v \<Rightarrow> ('k, 'v) hash_map \<Rightarrow> ('k, 'v) hash_map" where
  "hm_insert k v m = AList.update k v m"

definition hm_remove :: "'k \<Rightarrow> ('k, 'v) hash_map \<Rightarrow> ('k, 'v) hash_map" where
  "hm_remove k m = AList.delete k m"

definition hm_keys :: "('k, 'v) hash_map \<Rightarrow> 'k list" where
  "hm_keys m = remdups (map fst m)"

lemma hm_get_empty [hash_simps, simp]: "hm_get [] k = None"
  by (simp add: hm_get_def)

lemma hm_get_insert [hash_simps, simp]:
  "hm_get (hm_insert k v m) k' = (if k' = k then Some v else hm_get m k')"
  by (simp add: hm_get_def hm_insert_def update_conv')

lemma hm_get_remove [hash_simps, simp]:
  "hm_get (hm_remove k m) k' = (if k' = k then None else hm_get m k')"
  by (simp add: hm_get_def hm_remove_def delete_conv')

lemma set_hm_keys [hash_simps]: "k \<in> set (hm_keys m) \<longleftrightarrow> hm_get m k \<noteq> None"
  by (auto simp: hm_keys_def hm_get_def map_of_eq_None_iff)

lemma distinct_hm_keys [simp]: "distinct (hm_keys m)"
  by (simp add: hm_keys_def)

text \<open>An iteration order only permutes.\<close>

definition permutes_keys :: "('k list \<Rightarrow> 'k list) \<Rightarrow> bool" where
  "permutes_keys ord = (\<forall>ks. mset (ord ks) = mset ks)"

lemma permutes_keys_set: "permutes_keys ord \<Longrightarrow> set (ord ks) = set ks"
  by (metis permutes_keys_def mset_eq_setD)

lemma permutes_keys_distinct: "permutes_keys ord \<Longrightarrow> distinct (ord ks) = distinct ks"
  by (metis permutes_keys_def mset_eq_imp_distinct_iff)

lemma permutes_keys_Nil: "permutes_keys ord \<Longrightarrow> (ord ks = []) = (ks = [])"
  by (metis permutes_keys_def mset_zero_iff)

lemma permutes_keys_id [simp]: "permutes_keys (\<lambda>ks. ks)"
  by (simp add: permutes_keys_def)

section \<open>Lists\<close>

lemma in_set_map_filter: "x \<in> set (List.map_filter f xs) \<longleftrightarrow> (\<exists>y \<in> set xs. f y = Some x)"
  by (induction xs) (auto simp: map_filter_simps split: option.splits)

lemma append_eq_snocD: "xs @ ys = zs @ [z] \<Longrightarrow> ys \<noteq> [] \<Longrightarrow> \<exists>us. ys = us @ [z] \<and> zs = xs @ us"
  by (cases ys rule: rev_cases) auto

end
