(* ===== verification/Phases.thy ===== *)
theory Phases
  imports Prelude
begin

text \<open>
  Sequential code with early exits. A handler of the source is a block of statements over
  mutable state in which \<open>continue\<close> may abandon the rest; here it is a phase, a function from a
  state to an outcome and the state at that point, where \<^const>\<open>Inl\<close> is the early exit with its
  reason and \<^const>\<open>Inr\<close> goes on with a value. The locale \<open>framing\<close> collects what a relation
  between the states before and after needs in order to be carried through any composition of
  phases: to be reflexive and transitive. Every frame fact of the relay is an instance.
\<close>

type_synonym ('d, 's, 'a) phase = "'s \<Rightarrow> ('d + 'a) \<times> 's"

definition go :: "'a \<Rightarrow> ('d, 's, 'a) phase" where
  "go a = (\<lambda>s. (Inr a, s))"

definition halt :: "'d \<Rightarrow> ('d, 's, 'a) phase" where
  "halt d = (\<lambda>s. (Inl d, s))"

definition modify :: "('s \<Rightarrow> 's) \<Rightarrow> ('d, 's, unit) phase" where
  "modify f = (\<lambda>s. (Inr (), f s))"

definition and_then :: "('d, 's, 'a) phase \<Rightarrow> ('a \<Rightarrow> ('d, 's, 'c) phase) \<Rightarrow> ('d, 's, 'c) phase" where
  "and_then m f = (\<lambda>s. case m s of (Inl d, s') \<Rightarrow> (Inl d, s') | (Inr a, s') \<Rightarrow> f a s')"

lemma and_then_eq:
  "m s = (Inl d, s') \<Longrightarrow> and_then m f s = (Inl d, s')"
  "m s = (Inr a, s') \<Longrightarrow> and_then m f s = f a s'"
  by (simp_all add: and_then_def)

lemma and_then_InrE:
  assumes "and_then m f s = (Inr b, s')"
  obtains a s1 where "m s = (Inr a, s1)" "f a s1 = (Inr b, s')"
  using assms by (auto simp: and_then_def split: prod.splits sum.splits)

lemma and_then_InlE:
  assumes "and_then m f s = (Inl d, s')"
  obtains "m s = (Inl d, s')" | a s1 where "m s = (Inr a, s1)" "f a s1 = (Inl d, s')"
  using assms by (auto simp: and_then_def split: prod.splits sum.splits)

lemma and_then_go [simp]: "and_then (go a) f = f a"
  by (simp add: and_then_def go_def)

lemma and_then_assoc: "and_then (and_then m f) g = and_then m (\<lambda>a. and_then (f a) g)"
  by (auto simp: and_then_def fun_eq_iff split: prod.splits sum.splits)

section \<open>Frames\<close>

definition keeps :: "('s \<Rightarrow> 's \<Rightarrow> bool) \<Rightarrow> ('d, 's, 'a) phase \<Rightarrow> bool" where
  "keeps R m \<longleftrightarrow> (\<forall>s. R s (snd (m s)))"

lemma keepsD: "keeps R m \<Longrightarrow> m s = (r, s') \<Longrightarrow> R s s'"
  by (auto simp: keeps_def dest: spec [of _ s])

lemma keepsI: "(\<And>s r s'. m s = (r, s') \<Longrightarrow> R s s') \<Longrightarrow> keeps R m"
  by (simp add: keeps_def prod_eq_iff)

named_theorems frame_intros "phases that respect a frame"

locale framing =
  fixes R :: "'s \<Rightarrow> 's \<Rightarrow> bool"
  assumes stay: "R s s"
    and trans: "R s1 s2 \<Longrightarrow> R s2 s3 \<Longrightarrow> R s1 s3"
begin

lemma keeps_go: "keeps R (go a)" and keeps_halt: "keeps R (halt d)"
  by (simp_all add: keeps_def go_def halt_def stay)

lemma keeps_modify: "(\<And>s. R s (f s)) \<Longrightarrow> keeps R (modify f)"
  by (simp add: keeps_def modify_def)

lemma keeps_and_then:
  assumes "keeps R m" "\<And>a. keeps R (f a)"
  shows "keeps R (and_then m f)"
proof (rule keepsI)
  fix s r s' assume e: "and_then m f s = (r, s')"
  obtain x s1 where m: "m s = (x, s1)" by (cases "m s")
  from m have "R s s1" by (rule keepsD [OF assms(1)])
  moreover have "R s1 s'"
  proof (cases x)
    case (Inl d)
    then show ?thesis using e m by (simp add: and_then_eq stay)
  next
    case (Inr a)
    then have "f a s1 = (r, s')" using e m by (simp add: and_then_eq)
    then show ?thesis by (rule keepsD [OF assms(2)])
  qed
  ultimately show "R s s'" by (rule trans)
qed

lemma keeps_if: "(b \<Longrightarrow> keeps R m) \<Longrightarrow> (\<not> b \<Longrightarrow> keeps R n) \<Longrightarrow> keeps R (if b then m else n)"
  by simp

lemmas keeps_rules = keeps_go keeps_halt keeps_modify keeps_and_then keeps_if

end

text \<open>What a state keeps for good: an observation that no phase changes, and a property that
  every phase preserves, are both frames.\<close>

lemma framing_observe: "framing (\<lambda>s s'. obs s' = obs s)"
  by unfold_locales simp_all

lemma framing_preserve: "framing (\<lambda>s s'. P s \<longrightarrow> P s')"
  by unfold_locales simp_all

lemma framing_both: "framing R \<Longrightarrow> framing Q \<Longrightarrow> framing (\<lambda>s s'. R s s' \<and> Q s s')"
  unfolding framing_def by blast

end
