(* ===== verification/Bimap.thy ===== *)
theory Bimap
  imports Prelude
begin

text \<open>
  The bidirectional map of the \<open>bimap\<close> crate, which the shadow table is built on. The crate
  is not part of the repository, so its operations are a parameter, a record of functions on
  an abstract type, and the locale \<open>bimap\<close> states the documented behaviour the code relies
  on: the two directions always agree, and inserting a pair first discards every pair that
  shares its left or its right value. The term model at the end, which interprets the locale,
  answers lookups by replaying the operations that built the map; it exists so that concrete
  runs can be evaluated.
\<close>

record 'b bimap_ops =
  bm_new :: 'b
  bm_insert :: "'b \<Rightarrow> u32 \<Rightarrow> u32 \<Rightarrow> 'b"
  bm_get_by_left :: "'b \<Rightarrow> u32 \<Rightarrow> u32 option"
  bm_get_by_right :: "'b \<Rightarrow> u32 \<Rightarrow> u32 option"
  bm_remove_by_left :: "'b \<Rightarrow> u32 \<Rightarrow> 'b"

locale bimap =
  fixes B :: "'b bimap_ops"
  assumes left_new: "bm_get_by_left B (bm_new B) l = None"
    and left_insert: "bm_get_by_left B (bm_insert B m l r) l' =
      (if l' = l then Some r
       else if bm_get_by_left B m l' = Some r then None else bm_get_by_left B m l')"
    and left_remove: "bm_get_by_left B (bm_remove_by_left B m l) l' =
      (if l' = l then None else bm_get_by_left B m l')"
    and right_left: "bm_get_by_right B m r = Some l \<longleftrightarrow> bm_get_by_left B m l = Some r"
begin

lemma left_inj: "bm_get_by_left B m l = Some r \<Longrightarrow> bm_get_by_left B m l' = Some r \<Longrightarrow> l = l'"
  using right_left by (metis option.inject)

lemma right_new: "bm_get_by_right B (bm_new B) r = None"
  using right_left left_new by (metis option.distinct(1) option.exhaust)

lemma right_insert: "bm_get_by_right B (bm_insert B m l r) r' =
    (if r' = r then Some l
     else if bm_get_by_right B m r' = Some l then None else bm_get_by_right B m r')"
proof -
  have "bm_get_by_right B (bm_insert B m l r) r' = Some k \<longleftrightarrow>
    (if r' = r then Some l
     else if bm_get_by_right B m r' = Some l then None else bm_get_by_right B m r') = Some k" for k
    by (auto simp: right_left left_insert dest: left_inj)
  then show ?thesis by (metis not_None_eq)
qed

lemma right_remove: "bm_get_by_right B (bm_remove_by_left B m l) r' =
    (if bm_get_by_right B m r' = Some l then None else bm_get_by_right B m r')"
proof -
  have "bm_get_by_right B (bm_remove_by_left B m l) r' = Some k \<longleftrightarrow>
    (if bm_get_by_right B m r' = Some l then None else bm_get_by_right B m r') = Some k" for k
    by (auto simp: right_left left_remove dest: left_inj)
  then show ?thesis by (metis not_None_eq)
qed

lemmas bimap_simps = left_new left_insert left_remove right_new right_insert right_remove

end

section \<open>The term model\<close>

datatype bimap_op = BInsert u32 u32 | BRemove u32

fun term_left :: "bimap_op list \<Rightarrow> u32 \<Rightarrow> u32 option" where
  "term_left [] l' = None"
| "term_left (BInsert l r # m) l' =
    (if l' = l then Some r else if term_left m l' = Some r then None else term_left m l')"
| "term_left (BRemove l # m) l' = (if l' = l then None else term_left m l')"

fun term_right :: "bimap_op list \<Rightarrow> u32 \<Rightarrow> u32 option" where
  "term_right [] r' = None"
| "term_right (BInsert l r # m) r' =
    (if r' = r then Some l else if term_right m r' = Some l then None else term_right m r')"
| "term_right (BRemove l # m) r' = (if term_right m r' = Some l then None else term_right m r')"

definition term_bimap :: "bimap_op list bimap_ops" where
  "term_bimap = \<lparr>bm_new = [], bm_insert = (\<lambda>m l r. BInsert l r # m), bm_get_by_left = term_left,
     bm_get_by_right = term_right, bm_remove_by_left = (\<lambda>m l. BRemove l # m)\<rparr>"

lemma term_right_left: "term_right m r = Some l \<longleftrightarrow> term_left m l = Some r"
  by (induction m r arbitrary: l rule: term_right.induct)
    (auto split: if_splits, (metis option.inject)+)

lemma term_bimap_simps [simp]:
  "bm_new term_bimap = []" "bm_insert term_bimap m l r = BInsert l r # m"
  "bm_get_by_left term_bimap = term_left" "bm_get_by_right term_bimap = term_right"
  "bm_remove_by_left term_bimap m l = BRemove l # m"
  by (simp_all add: term_bimap_def)

interpretation term_bimap: bimap term_bimap
  by unfold_locales (auto simp: term_right_left)

end
