(* ===== verification/Protocol.thy ===== *)
theory Protocol
  imports Prelude
begin

text \<open>
  The shapes the relay reads protocol descriptions through, as the sources use and construct
  them: \<open>ArgumentType\<close>, \<open>MessageDesc\<close> and \<open>Interface\<close>. The tables themselves are generated
  by other crates and stay a parameter (see \<open>Interfaces\<close>). A description refers to the
  interface of the object a message creates, and such references may in principle be
  circular, so the descriptions are a codatatype: every pointer graph of static tables is an
  element of it. The opcode lookups of \<open>lib.rs\<close> are here too, because they depend on the
  descriptions alone.
\<close>

datatype allow_null = AllowNullYes | AllowNullNo

datatype argument_type =
    ATInt
  | ATUint
  | ATFixed
  | ATStr allow_null
  | ATObject allow_null
  | ATNewId
  | ATArray
  | ATFd

codatatype interface =
    Interface (if_name: string) (if_version: u32)
      (requests: "message_desc list") (events: "message_desc list")
and message_desc =
    MessageDesc (md_name: string) (is_destructor: bool) (signature: "argument_type list")
      (child_interface: "interface option")

section \<open>Opcode lookup\<close>

text \<open>\<open>iter().position(|d| d.name == name)\<close>: the index of the first description of that name.\<close>

fun position :: "string \<Rightarrow> message_desc list \<Rightarrow> nat option" where
  "position name [] = None"
| "position name (d # ds) =
    (if md_name d = name then Some 0 else map_option Suc (position name ds))"

definition request_opcode :: "interface \<Rightarrow> string \<Rightarrow> u16 option" where
  "request_opcode iface name = map_option word_of_nat (position name (requests iface))"

definition event_opcode :: "interface \<Rightarrow> string \<Rightarrow> u16 option" where
  "event_opcode iface name = map_option word_of_nat (position name (events iface))"

text \<open>\<open>table.get(opcode as usize)\<close>.\<close>

definition desc_at :: "message_desc list \<Rightarrow> u16 \<Rightarrow> message_desc option" where
  "desc_at table opc = (if unat opc < length table then Some (table ! unat opc) else None)"

lemma position_SomeD:
  "position name ds = Some i \<Longrightarrow> i < length ds \<and> md_name (ds ! i) = name \<and> (\<forall>j<i. md_name (ds ! j) \<noteq> name)"
proof (induction ds arbitrary: i)
  case (Cons d ds)
  then show ?case
    by (auto split: if_splits simp: nth_Cons less_Suc_eq_0_disj split: nat.splits)
qed simp

lemma position_None_iff: "position name ds = None \<longleftrightarrow> name \<notin> md_name ` set ds"
  by (induction ds) auto

lemma position_bound: "position name ds = Some i \<Longrightarrow> i < length ds"
  by (simp add: position_SomeD)

text \<open>Opcodes are 16 bits wide on the wire: a table that fits has its opcodes read back.\<close>

lemma request_opcode_desc:
  assumes "request_opcode iface name = Some opc" "length (requests iface) \<le> 65536"
  shows "\<exists>d. desc_at (requests iface) opc = Some d \<and> md_name d = name"
proof -
  from assms(1) obtain i where i: "position name (requests iface) = Some i" and opc: "opc = word_of_nat i"
    by (auto simp: request_opcode_def)
  from position_SomeD [OF i] have "i < length (requests iface)" "md_name (requests iface ! i) = name"
    by auto
  then show ?thesis using opc assms(2) by (simp add: desc_at_def unat_of_nat)
qed

lemma event_opcode_desc:
  assumes "event_opcode iface name = Some opc" "length (events iface) \<le> 65536"
  shows "\<exists>d. desc_at (events iface) opc = Some d \<and> md_name d = name"
proof -
  from assms(1) obtain i where i: "position name (events iface) = Some i" and opc: "opc = word_of_nat i"
    by (auto simp: event_opcode_def)
  from position_SomeD [OF i] have "i < length (events iface)" "md_name (events iface ! i) = name"
    by auto
  then show ?thesis using opc assms(2) by (simp add: desc_at_def unat_of_nat)
qed

end
