(* ===== verification/Interfaces.thy ===== *)
theory Interfaces
  imports Protocol
begin

text \<open>
  \<open>src/interfaces.rs\<close>: the table from an interface name on the wire to its generated
  description. The descriptions are statics of other crates; here they are the parameter
  \<open>statics\<close>, which takes the path of the static as the source writes it
  (\<open>core::WL_DISPLAY_INTERFACE\<close>). The match itself, name by name and in the order of the
  source, is the six lists below; a name that no arm lists resolves to nothing.
\<close>

type_synonym static_table = "string \<Rightarrow> interface"

definition core_interfaces :: "(string \<times> string) list" where
  "core_interfaces = [
    (''wl_display'', ''core::WL_DISPLAY_INTERFACE''),
    (''wl_registry'', ''core::WL_REGISTRY_INTERFACE''),
    (''wl_callback'', ''core::WL_CALLBACK_INTERFACE''),
    (''wl_compositor'', ''core::WL_COMPOSITOR_INTERFACE''),
    (''wl_shm_pool'', ''core::WL_SHM_POOL_INTERFACE''),
    (''wl_shm'', ''core::WL_SHM_INTERFACE''),
    (''wl_buffer'', ''core::WL_BUFFER_INTERFACE''),
    (''wl_data_offer'', ''core::WL_DATA_OFFER_INTERFACE''),
    (''wl_data_source'', ''core::WL_DATA_SOURCE_INTERFACE''),
    (''wl_data_device'', ''core::WL_DATA_DEVICE_INTERFACE''),
    (''wl_data_device_manager'', ''core::WL_DATA_DEVICE_MANAGER_INTERFACE''),
    (''wl_shell'', ''core::WL_SHELL_INTERFACE''),
    (''wl_shell_surface'', ''core::WL_SHELL_SURFACE_INTERFACE''),
    (''wl_surface'', ''core::WL_SURFACE_INTERFACE''),
    (''wl_seat'', ''core::WL_SEAT_INTERFACE''),
    (''wl_pointer'', ''core::WL_POINTER_INTERFACE''),
    (''wl_keyboard'', ''core::WL_KEYBOARD_INTERFACE''),
    (''wl_touch'', ''core::WL_TOUCH_INTERFACE''),
    (''wl_output'', ''core::WL_OUTPUT_INTERFACE''),
    (''wl_region'', ''core::WL_REGION_INTERFACE''),
    (''wl_subcompositor'', ''core::WL_SUBCOMPOSITOR_INTERFACE''),
    (''wl_subsurface'', ''core::WL_SUBSURFACE_INTERFACE''),
    (''wl_fixes'', ''core::WL_FIXES_INTERFACE'')]"

definition xdg_shell_interfaces :: "(string \<times> string) list" where
  "xdg_shell_interfaces = [
    (''xdg_wm_base'', ''xdg_shell::XDG_WM_BASE_INTERFACE''),
    (''xdg_positioner'', ''xdg_shell::XDG_POSITIONER_INTERFACE''),
    (''xdg_surface'', ''xdg_shell::XDG_SURFACE_INTERFACE''),
    (''xdg_toplevel'', ''xdg_shell::XDG_TOPLEVEL_INTERFACE''),
    (''xdg_popup'', ''xdg_shell::XDG_POPUP_INTERFACE'')]"

definition freedesktop_interfaces :: "(string \<times> string) list" where
  "freedesktop_interfaces = [
    (''zwp_linux_dmabuf_v1'', ''linux_dmabuf::ZWP_LINUX_DMABUF_V1_INTERFACE''),
    (''wp_presentation'', ''presentation_time::WP_PRESENTATION_INTERFACE''),
    (''wp_viewporter'', ''viewporter::WP_VIEWPORTER_INTERFACE''),
    (''wp_tearing_control_manager_v1'', ''tearing_control::WP_TEARING_CONTROL_MANAGER_V1_INTERFACE''),
    (''wp_fractional_scale_manager_v1'', ''fractional_scale::WP_FRACTIONAL_SCALE_MANAGER_V1_INTERFACE''),
    (''zwp_pointer_constraints_v1'', ''pointer_constraints::ZWP_POINTER_CONSTRAINTS_V1_INTERFACE''),
    (''zwp_pointer_gestures_v1'', ''pointer_gestures::ZWP_POINTER_GESTURES_V1_INTERFACE''),
    (''zwp_primary_selection_device_manager_v1'', ''primary_selection::ZWP_PRIMARY_SELECTION_DEVICE_MANAGER_V1_INTERFACE''),
    (''zwp_relative_pointer_manager_v1'', ''relative_pointer::ZWP_RELATIVE_POINTER_MANAGER_V1_INTERFACE''),
    (''zwp_idle_inhibit_manager_v1'', ''idle_inhibit::ZWP_IDLE_INHIBIT_MANAGER_V1_INTERFACE''),
    (''zwp_keyboard_shortcuts_inhibit_manager_v1'', ''keyboard_shortcuts_inhibit::ZWP_KEYBOARD_SHORTCUTS_INHIBIT_MANAGER_V1_INTERFACE''),
    (''wp_single_pixel_buffer_manager_v1'', ''single_pixel_buffer::WP_SINGLE_PIXEL_BUFFER_MANAGER_V1_INTERFACE''),
    (''wp_cursor_shape_manager_v1'', ''cursor_shape::WP_CURSOR_SHAPE_MANAGER_V1_INTERFACE''),
    (''zwp_tablet_manager_v1'', ''tablet_v1::ZWP_TABLET_MANAGER_V1_INTERFACE''),
    (''zwp_tablet_manager_v2'', ''tablet_v2::ZWP_TABLET_MANAGER_V2_INTERFACE''),
    (''zwp_text_input_manager_v1'', ''text_input_v1::ZWP_TEXT_INPUT_MANAGER_V1_INTERFACE''),
    (''zwp_text_input_manager_v3'', ''text_input_v3::ZWP_TEXT_INPUT_MANAGER_V3_INTERFACE''),
    (''wp_security_context_manager_v1'', ''security_context::WP_SECURITY_CONTEXT_MANAGER_V1_INTERFACE''),
    (''wp_alpha_modifier_v1'', ''alpha_modifier::WP_ALPHA_MODIFIER_V1_INTERFACE''),
    (''wp_linux_drm_syncobj_manager_v1'', ''linux_drm_syncobj::WP_LINUX_DRM_SYNCOBJ_MANAGER_V1_INTERFACE''),
    (''zxdg_output_manager_v1'', ''xdg_output::ZXDG_OUTPUT_MANAGER_V1_INTERFACE''),
    (''zxdg_decoration_manager_v1'', ''xdg_decoration::ZXDG_DECORATION_MANAGER_V1_INTERFACE''),
    (''xdg_activation_v1'', ''xdg_activation::XDG_ACTIVATION_V1_INTERFACE''),
    (''xdg_toplevel_icon_manager_v1'', ''toplevel_icon::XDG_TOPLEVEL_ICON_MANAGER_V1_INTERFACE''),
    (''zxdg_exporter_v1'', ''xdg_foreign_v1::ZXDG_EXPORTER_V1_INTERFACE''),
    (''zxdg_importer_v1'', ''xdg_foreign_v1::ZXDG_IMPORTER_V1_INTERFACE''),
    (''zxdg_exporter_v2'', ''xdg_foreign_v2::ZXDG_EXPORTER_V2_INTERFACE''),
    (''zxdg_importer_v2'', ''xdg_foreign_v2::ZXDG_IMPORTER_V2_INTERFACE''),
    (''ext_idle_notifier_v1'', ''idle_notify::EXT_IDLE_NOTIFIER_V1_INTERFACE''),
    (''ext_session_lock_manager_v1'', ''session_lock::EXT_SESSION_LOCK_MANAGER_V1_INTERFACE''),
    (''ext_foreign_toplevel_list_v1'', ''foreign_toplevel_list::EXT_FOREIGN_TOPLEVEL_LIST_V1_INTERFACE''),
    (''ext_output_image_capture_source_manager_v1'', ''image_capture_source::EXT_OUTPUT_IMAGE_CAPTURE_SOURCE_MANAGER_V1_INTERFACE''),
    (''ext_foreign_toplevel_image_capture_source_manager_v1'', ''image_capture_source::EXT_FOREIGN_TOPLEVEL_IMAGE_CAPTURE_SOURCE_MANAGER_V1_INTERFACE''),
    (''ext_image_copy_capture_manager_v1'', ''image_copy_capture::EXT_IMAGE_COPY_CAPTURE_MANAGER_V1_INTERFACE''),
    (''ext_data_control_manager_v1'', ''ext_data_control::EXT_DATA_CONTROL_MANAGER_V1_INTERFACE''),
    (''ext_workspace_manager_v1'', ''ext_workspace::EXT_WORKSPACE_MANAGER_V1_INTERFACE'')]"

definition staging_interfaces :: "(string \<times> string) list" where
  "staging_interfaces = [
    (''xdg_wm_dialog_v1'', ''xdg_dialog::XDG_WM_DIALOG_V1_INTERFACE''),
    (''xdg_system_bell_v1'', ''xdg_system_bell::XDG_SYSTEM_BELL_V1_INTERFACE''),
    (''wp_color_manager_v1'', ''color_management::WP_COLOR_MANAGER_V1_INTERFACE''),
    (''wp_color_representation_manager_v1'', ''color_representation::WP_COLOR_REPRESENTATION_MANAGER_V1_INTERFACE''),
    (''wp_fifo_manager_v1'', ''fifo::WP_FIFO_MANAGER_V1_INTERFACE''),
    (''wp_commit_timing_manager_v1'', ''commit_timing::WP_COMMIT_TIMING_MANAGER_V1_INTERFACE'')]"

definition wlr_interfaces :: "(string \<times> string) list" where
  "wlr_interfaces = [
    (''zwlr_data_control_manager_v1'', ''wlr_data_control::ZWLR_DATA_CONTROL_MANAGER_V1_INTERFACE''),
    (''zwlr_export_dmabuf_manager_v1'', ''export_dmabuf::ZWLR_EXPORT_DMABUF_MANAGER_V1_INTERFACE''),
    (''zwlr_foreign_toplevel_manager_v1'', ''wlr_foreign_toplevel::ZWLR_FOREIGN_TOPLEVEL_MANAGER_V1_INTERFACE''),
    (''zwlr_gamma_control_manager_v1'', ''gamma_control::ZWLR_GAMMA_CONTROL_MANAGER_V1_INTERFACE''),
    (''zwlr_layer_shell_v1'', ''layer_shell::ZWLR_LAYER_SHELL_V1_INTERFACE''),
    (''zwlr_output_manager_v1'', ''wlr_output_management::ZWLR_OUTPUT_MANAGER_V1_INTERFACE''),
    (''zwlr_output_power_manager_v1'', ''output_power_management::ZWLR_OUTPUT_POWER_MANAGER_V1_INTERFACE''),
    (''zwlr_screencopy_manager_v1'', ''screencopy::ZWLR_SCREENCOPY_MANAGER_V1_INTERFACE''),
    (''zwlr_virtual_pointer_manager_v1'', ''virtual_pointer::ZWLR_VIRTUAL_POINTER_MANAGER_V1_INTERFACE'')]"

definition kde_interfaces :: "(string \<times> string) list" where
  "kde_interfaces = [
    (''org_kde_kwin_server_decoration_manager'', ''kde_server_decoration::ORG_KDE_KWIN_SERVER_DECORATION_MANAGER_INTERFACE''),
    (''zwp_input_method_manager_v2'', ''input_method_v2::ZWP_INPUT_METHOD_MANAGER_V2_INTERFACE''),
    (''zwp_virtual_keyboard_manager_v1'', ''virtual_keyboard::ZWP_VIRTUAL_KEYBOARD_MANAGER_V1_INTERFACE''),
    (''org_kde_kwin_appmenu_manager'', ''appmenu::ORG_KDE_KWIN_APPMENU_MANAGER_INTERFACE''),
    (''xdg_toplevel_drag_manager_v1'', ''toplevel_drag::XDG_TOPLEVEL_DRAG_MANAGER_V1_INTERFACE''),
    (''wp_pointer_warp_v1'', ''pointer_warp::WP_POINTER_WARP_V1_INTERFACE'')]"

definition interface_table :: "(string \<times> string) list" where
  "interface_table = core_interfaces @ xdg_shell_interfaces @ freedesktop_interfaces @
     staging_interfaces @ wlr_interfaces @ kde_interfaces"

definition lookup_interface :: "static_table \<Rightarrow> string \<Rightarrow> interface option" where
  "lookup_interface statics name = map_option statics (map_of interface_table name)"

lemmas interface_table_defs = interface_table_def core_interfaces_def xdg_shell_interfaces_def
  freedesktop_interfaces_def staging_interfaces_def wlr_interfaces_def kde_interfaces_def

text \<open>The documented naming of the generated statics: each describes the interface it is listed under.\<close>

definition statics_named :: "static_table \<Rightarrow> bool" where
  "statics_named statics \<longleftrightarrow> (\<forall>(name, path) \<in> set interface_table. if_name (statics path) = name)"

lemma lookup_interface_name:
  "statics_named statics \<Longrightarrow> lookup_interface statics name = Some iface \<Longrightarrow> if_name iface = name"
  by (auto simp: lookup_interface_def statics_named_def dest: map_of_SomeD)

section \<open>The globals real compositors advertise\<close>

text \<open>The regression lists of the source's own tests.\<close>

definition observed_globals :: "string list" where
  "observed_globals = [
    ''wl_shm'',
    ''zwp_linux_dmabuf_v1'',
    ''wp_linux_drm_syncobj_manager_v1'',
    ''ext_workspace_manager_v1'',
    ''zwlr_gamma_control_manager_v1'',
    ''zxdg_output_manager_v1'',
    ''zwlr_output_manager_v1'',
    ''wl_compositor'',
    ''wl_subcompositor'',
    ''wl_data_device_manager'',
    ''zwp_primary_selection_device_manager_v1'',
    ''zwp_input_method_manager_v2'',
    ''zwp_text_input_manager_v3'',
    ''wl_seat'',
    ''zwlr_virtual_pointer_manager_v1'',
    ''zwp_virtual_keyboard_manager_v1'',
    ''zwp_pointer_gestures_v1'',
    ''wp_cursor_shape_manager_v1'',
    ''xdg_wm_base'',
    ''xdg_activation_v1'',
    ''xdg_toplevel_icon_manager_v1'',
    ''org_kde_kwin_server_decoration_manager'',
    ''zxdg_decoration_manager_v1'',
    ''wp_presentation'',
    ''zwlr_export_dmabuf_manager_v1'',
    ''zwlr_screencopy_manager_v1'',
    ''ext_image_copy_capture_manager_v1'',
    ''ext_output_image_capture_source_manager_v1'',
    ''zwlr_data_control_manager_v1'',
    ''ext_data_control_manager_v1'',
    ''wp_security_context_manager_v1'',
    ''wp_viewporter'',
    ''wp_single_pixel_buffer_manager_v1'',
    ''wp_fractional_scale_manager_v1'',
    ''ext_idle_notifier_v1'',
    ''zwp_idle_inhibit_manager_v1'',
    ''zwp_relative_pointer_manager_v1'',
    ''zwp_pointer_constraints_v1'',
    ''zwlr_foreign_toplevel_manager_v1'',
    ''ext_foreign_toplevel_list_v1'',
    ''wp_alpha_modifier_v1'',
    ''ext_session_lock_manager_v1'',
    ''zwlr_output_power_manager_v1'',
    ''wp_tearing_control_manager_v1'',
    ''zwp_tablet_manager_v2'',
    ''zwlr_layer_shell_v1'',
    ''zxdg_exporter_v1'',
    ''zxdg_importer_v1'',
    ''zxdg_exporter_v2'',
    ''zxdg_importer_v2'',
    ''wl_output'']"

definition kwin_observed_globals :: "string list" where
  "kwin_observed_globals = [
    ''xdg_wm_dialog_v1'',
    ''xdg_system_bell_v1'',
    ''wp_color_manager_v1'',
    ''wp_color_representation_manager_v1'',
    ''wp_fifo_manager_v1'',
    ''org_kde_kwin_appmenu_manager'',
    ''xdg_toplevel_drag_manager_v1'',
    ''wp_pointer_warp_v1'']"

definition mutter_observed_globals :: "string list" where
  "mutter_observed_globals = [
    ''wp_commit_timing_manager_v1'']"

lemma table_names_distinct: "distinct (map fst interface_table)"
  by code_simp

lemma observed_in_table:
  "list_all (\<lambda>n. List.member (map fst interface_table) n)
     (observed_globals @ kwin_observed_globals @ mutter_observed_globals)"
  by code_simp

text \<open>Every global that the authors observed real compositors to advertise resolves, to the interface of
  that name.\<close>

lemma observed_globals_resolve:
  assumes "statics_named st" "name \<in> set (observed_globals @ kwin_observed_globals @ mutter_observed_globals)"
  shows "\<exists>i. lookup_interface st name = Some i \<and> if_name i = name"
proof -
  have "name \<in> set (map fst interface_table)"
    using observed_in_table assms(2) by (auto simp: list_all_iff)
  then obtain p where "map_of interface_table name = Some p" by (auto simp: map_of_eq_None_iff dest!: map_of_is_SomeI [OF table_names_distinct])
  then have "lookup_interface st name = Some (st p)" by (simp add: lookup_interface_def)
  with lookup_interface_name [OF assms(1) this] show ?thesis by simp
qed

end
