(* ===== verification/ShadowTable.thy ===== *)
theory ShadowTable
  imports Bimap Interfaces
begin

text \<open>
  \<open>src/shadow_table.rs\<close>: translation between the client's object ids (guest) and the
  compositor's (host). Every operation of the source is here, over the operations of the
  bidirectional map. The facts are proved once in the locale \<open>bimap\<close>; they show that a
  translation is a partial bijection restricted to the current generation, that
  \<open>bump_generation\<close> invalidates everything but \<open>wl_display\<close>, and that giving back the most
  recent host id restores the allocator.
\<close>

record 'b shadow_table =
  guest_to_host :: 'b
  interfaces :: "(u32, interface) hash_map"
  next_host_id :: u32
  next_guest_server_id :: u32
  generation :: u64
  mapped_in_generation :: "(u32, u64) hash_map"
  unresolvable_interfaces :: "(u32, string) hash_map"

definition wl_display_interface :: "static_table \<Rightarrow> interface" where
  "wl_display_interface statics = statics ''core::WL_DISPLAY_INTERFACE''"

definition st_map :: "'b bimap_ops \<Rightarrow> u32 \<Rightarrow> u32 \<Rightarrow> interface \<Rightarrow> 'b shadow_table \<Rightarrow> 'b shadow_table" where
  "st_map B guest host iface t = t\<lparr>
     guest_to_host := bm_insert B (guest_to_host t) guest host,
     interfaces := hm_insert guest iface (interfaces t),
     mapped_in_generation := hm_insert guest (generation t) (mapped_in_generation t)\<rparr>"

definition st_new :: "'b bimap_ops \<Rightarrow> static_table \<Rightarrow> 'b shadow_table" where
  "st_new B statics = st_map B 1 1 (wl_display_interface statics)
     \<lparr>guest_to_host = bm_new B, interfaces = [], next_host_id = 2, next_guest_server_id = 0xff000000,
      generation = 0, mapped_in_generation = [], unresolvable_interfaces = []\<rparr>"

definition bump_generation :: "'b bimap_ops \<Rightarrow> static_table \<Rightarrow> 'b shadow_table \<Rightarrow> 'b shadow_table" where
  "bump_generation B statics t =
    (let t = t\<lparr>generation := generation t + 1\<rparr>;
         t = t\<lparr>next_host_id := 2\<rparr>;
         t = st_map B 1 1 (wl_display_interface statics) t
     in t\<lparr>unresolvable_interfaces := []\<rparr>)"

definition is_current_generation :: "'b shadow_table \<Rightarrow> u32 \<Rightarrow> bool" where
  "is_current_generation t guest \<longleftrightarrow> hm_get (mapped_in_generation t) guest = Some (generation t)"

definition allocate_host_id :: "'b shadow_table \<Rightarrow> u32 \<times> 'b shadow_table" where
  "allocate_host_id t = (next_host_id t, t\<lparr>next_host_id := next_host_id t + 1\<rparr>)"

definition unallocate_host_id :: "u32 \<Rightarrow> 'b shadow_table \<Rightarrow> 'b shadow_table" where
  "unallocate_host_id i t =
    (if i = next_host_id t - 1 then t\<lparr>next_host_id := next_host_id t - 1\<rparr> else t)"

definition allocate_guest_server_id :: "'b shadow_table \<Rightarrow> u32 \<times> 'b shadow_table" where
  "allocate_guest_server_id t =
    (next_guest_server_id t, t\<lparr>next_guest_server_id := next_guest_server_id t + 1\<rparr>)"

definition host_id :: "'b bimap_ops \<Rightarrow> 'b shadow_table \<Rightarrow> u32 \<Rightarrow> u32 option" where
  "host_id B t guest =
    (if guest = 0 then Some 0
     else if \<not> is_current_generation t guest then None
     else bm_get_by_left B (guest_to_host t) guest)"

definition guest_id :: "'b bimap_ops \<Rightarrow> 'b shadow_table \<Rightarrow> u32 \<Rightarrow> u32 option" where
  "guest_id B t host =
    (if host = 0 then Some 0
     else case bm_get_by_right B (guest_to_host t) host of
       None \<Rightarrow> None
     | Some guest \<Rightarrow> if \<not> is_current_generation t guest then None else Some guest)"

definition st_interface :: "'b shadow_table \<Rightarrow> u32 \<Rightarrow> interface option" where
  "st_interface t guest = hm_get (interfaces t) guest"

definition remember_unresolvable_interface :: "u32 \<Rightarrow> string \<Rightarrow> 'b shadow_table \<Rightarrow> 'b shadow_table" where
  "remember_unresolvable_interface guest name t =
     t\<lparr>unresolvable_interfaces := hm_insert guest name (unresolvable_interfaces t)\<rparr>"

definition unresolvable_interface_name :: "'b shadow_table \<Rightarrow> u32 \<Rightarrow> string option" where
  "unresolvable_interface_name t guest = hm_get (unresolvable_interfaces t) guest"

text \<open>\<open>interfaces.iter().find(..)\<close>: the first match in the table's iteration order \<open>ord\<close>.\<close>

definition find_guest_id_by_interface_name ::
    "(u32 list \<Rightarrow> u32 list) \<Rightarrow> 'b shadow_table \<Rightarrow> string \<Rightarrow> u32 option" where
  "find_guest_id_by_interface_name ord t name =
     List.find (\<lambda>g. map_option if_name (hm_get (interfaces t) g) = Some name) (ord (hm_keys (interfaces t)))"

definition remove_guest :: "'b bimap_ops \<Rightarrow> u32 \<Rightarrow> 'b shadow_table \<Rightarrow> 'b shadow_table" where
  "remove_guest B guest t = t\<lparr>
     guest_to_host := bm_remove_by_left B (guest_to_host t) guest,
     interfaces := hm_remove guest (interfaces t),
     mapped_in_generation := hm_remove guest (mapped_in_generation t),
     unresolvable_interfaces := hm_remove guest (unresolvable_interfaces t)\<rparr>"

section \<open>Frame facts\<close>

named_theorems shadow_simps "fields of the shadow table after each operation"

lemma st_map_fields [shadow_simps, simp]:
  "interfaces (st_map B g h i t) = hm_insert g i (interfaces t)"
  "next_host_id (st_map B g h i t) = next_host_id t"
  "next_guest_server_id (st_map B g h i t) = next_guest_server_id t"
  "generation (st_map B g h i t) = generation t"
  "unresolvable_interfaces (st_map B g h i t) = unresolvable_interfaces t"
  by (simp_all add: st_map_def)

lemma remove_guest_fields [shadow_simps, simp]:
  "interfaces (remove_guest B g t) = hm_remove g (interfaces t)"
  "next_host_id (remove_guest B g t) = next_host_id t"
  "next_guest_server_id (remove_guest B g t) = next_guest_server_id t"
  "generation (remove_guest B g t) = generation t"
  by (simp_all add: remove_guest_def)

lemma remember_fields [shadow_simps, simp]:
  "guest_to_host (remember_unresolvable_interface g n t) = guest_to_host t"
  "interfaces (remember_unresolvable_interface g n t) = interfaces t"
  "next_host_id (remember_unresolvable_interface g n t) = next_host_id t"
  "generation (remember_unresolvable_interface g n t) = generation t"
  "mapped_in_generation (remember_unresolvable_interface g n t) = mapped_in_generation t"
  by (simp_all add: remember_unresolvable_interface_def)

lemma bump_generation_fields [shadow_simps, simp]:
  "next_host_id (bump_generation B statics t) = 2"
  "next_guest_server_id (bump_generation B statics t) = next_guest_server_id t"
  "generation (bump_generation B statics t) = generation t + 1"
  "unresolvable_interfaces (bump_generation B statics t) = []"
  "interfaces (bump_generation B statics t) = hm_insert 1 (wl_display_interface statics) (interfaces t)"
  by (simp_all add: bump_generation_def Let_def)

lemma is_current_st_map [shadow_simps, simp]:
  "is_current_generation (st_map B g h i t) g' \<longleftrightarrow> g' = g \<or> is_current_generation t g'"
  by (simp add: is_current_generation_def st_map_def)

lemma is_current_remove [shadow_simps, simp]:
  "is_current_generation (remove_guest B g t) g' \<longleftrightarrow> g' \<noteq> g \<and> is_current_generation t g'"
  by (simp add: is_current_generation_def remove_guest_def)

lemma st_interface_st_map [shadow_simps, simp]:
  "st_interface (st_map B g h i t) g' = (if g' = g then Some i else st_interface t g')"
  by (simp add: st_interface_def)

lemma st_interface_remove [shadow_simps, simp]:
  "st_interface (remove_guest B g t) g' = (if g' = g then None else st_interface t g')"
  by (simp add: st_interface_def)

lemma host_id_zero [simp]: "host_id B t 0 = Some 0" and guest_id_zero [simp]: "guest_id B t 0 = Some 0"
  by (simp_all add: host_id_def guest_id_def)

lemma host_id_current: "host_id B t g = Some h \<Longrightarrow> g \<noteq> 0 \<Longrightarrow> is_current_generation t g"
  by (auto simp: host_id_def split: if_splits)

lemma guest_id_current: "guest_id B t h = Some g \<Longrightarrow> h \<noteq> 0 \<Longrightarrow> is_current_generation t g"
  by (auto simp: guest_id_def split: if_splits option.splits)

lemma find_guest_id_SomeD:
  "find_guest_id_by_interface_name ord t name = Some g \<Longrightarrow>
   \<exists>i. st_interface t g = Some i \<and> if_name i = name"
  by (auto simp: find_guest_id_by_interface_name_def st_interface_def find_Some_iff)

lemma unallocate_after_allocate:
  "allocate_host_id t = (h, t') \<Longrightarrow> unallocate_host_id h t' = t"
  by (auto simp: allocate_host_id_def unallocate_host_id_def)

section \<open>Translation as a contract\<close>

text \<open>
  What the relay needs from the table: both directions agree, null stays null, a new pair
  translates and a forgotten id does not.
\<close>

locale id_translation =
  fixes to_host :: "'t \<Rightarrow> u32 \<Rightarrow> u32 option"
    and to_guest :: "'t \<Rightarrow> u32 \<Rightarrow> u32 option"
    and add_pair :: "u32 \<Rightarrow> u32 \<Rightarrow> interface \<Rightarrow> 't \<Rightarrow> 't"
    and forget :: "u32 \<Rightarrow> 't \<Rightarrow> 't"
  assumes null_host: "to_host t 0 = Some 0"
    and null_guest: "to_guest t 0 = Some 0"
    and agree: "g \<noteq> 0 \<Longrightarrow> h \<noteq> 0 \<Longrightarrow> to_host t g = Some h \<longleftrightarrow> to_guest t h = Some g"
    and add_pair_host: "g \<noteq> 0 \<Longrightarrow> to_host (add_pair g h i t) g' =
      (if g' = 0 then Some 0 else if g' = g then Some h
       else if to_host t g' = Some h then None else to_host t g')"
    and forget_host: "g \<noteq> 0 \<Longrightarrow> to_host (forget g t) g' = (if g' = g then None else to_host t g')"
begin

lemma add_pair_guest:
  assumes "g \<noteq> 0" "h \<noteq> 0"
  shows "to_guest (add_pair g h i t) h = Some g"
  using assms add_pair_host [of g h i t g] agree [of g h "add_pair g h i t"] by simp

lemma forget_guest:
  assumes "g \<noteq> 0" "h \<noteq> 0" "to_guest t h = Some g"
  shows "to_guest (forget g t) h \<noteq> Some g"
  using assms forget_host [of g t g] agree [of g h "forget g t"] by simp

lemma to_host_inj:
  assumes "to_host t g = Some h" "to_host t g' = Some h" "g \<noteq> 0" "g' \<noteq> 0" "h \<noteq> 0"
  shows "g = g'"
  using assms agree [of g h t] agree [of g' h t] by simp

end

lemma is_current_cong [simp]:
  "is_current_generation (t\<lparr>next_host_id := n\<rparr>) = is_current_generation t"
  "is_current_generation (t\<lparr>next_guest_server_id := n\<rparr>) = is_current_generation t"
  "is_current_generation (remember_unresolvable_interface k nm t) = is_current_generation t"
  by (simp_all add: fun_eq_iff is_current_generation_def)

context bimap
begin

lemma host_id_st_map:
  "g \<noteq> 0 \<Longrightarrow> host_id B (st_map B g h i t) g' =
    (if g' = 0 then Some 0 else if g' = g then Some h
     else if host_id B t g' = Some h then None else host_id B t g')"
  by (auto simp: host_id_def st_map_def is_current_generation_def left_insert)

lemma host_id_iff:
  "g \<noteq> 0 \<Longrightarrow> host_id B t g = Some h \<longleftrightarrow> is_current_generation t g \<and> bm_get_by_left B (guest_to_host t) g = Some h"
  by (simp add: host_id_def)

lemma guest_id_iff:
  "h \<noteq> 0 \<Longrightarrow> guest_id B t h = Some g \<longleftrightarrow> is_current_generation t g \<and> bm_get_by_left B (guest_to_host t) g = Some h"
  by (auto simp: guest_id_def simp flip: right_left split: option.splits)

lemma guest_host_inverse:
  "g \<noteq> 0 \<Longrightarrow> h \<noteq> 0 \<Longrightarrow> host_id B t g = Some h \<longleftrightarrow> guest_id B t h = Some g"
  by (simp add: host_id_iff guest_id_iff)

lemma host_id_remove_guest:
  "g \<noteq> 0 \<Longrightarrow> host_id B (remove_guest B g t) g' = (if g' = g then None else host_id B t g')"
  by (auto simp: host_id_def remove_guest_def is_current_generation_def left_remove)

lemma host_id_cong [simp]:
  "host_id B (t\<lparr>next_host_id := n\<rparr>) = host_id B t"
  "guest_id B (t\<lparr>next_host_id := n\<rparr>) = guest_id B t"
  "host_id B (t\<lparr>next_guest_server_id := n\<rparr>) = host_id B t"
  "guest_id B (t\<lparr>next_guest_server_id := n\<rparr>) = guest_id B t"
  "host_id B (remember_unresolvable_interface k nm t) = host_id B t"
  by (simp_all add: fun_eq_iff host_id_def guest_id_def split: option.split)

end

sublocale bimap \<subseteq> ids: id_translation "host_id B" "guest_id B" "st_map B" "remove_guest B"
  by unfold_locales (simp_all add: guest_host_inverse host_id_st_map host_id_remove_guest)

section \<open>Generations\<close>

text \<open>The generation counter never lags behind a recorded generation, and does not overflow.\<close>

definition gens_ok :: "'b shadow_table \<Rightarrow> bool" where
  "gens_ok t \<longleftrightarrow> (\<forall>g n. hm_get (mapped_in_generation t) g = Some n \<longrightarrow> n \<le> generation t)"

lemma gens_ok_ops:
  "gens_ok t \<Longrightarrow> gens_ok (st_map B g h i t)"
  "gens_ok t \<Longrightarrow> gens_ok (remove_guest B g t)"
  "gens_ok t \<Longrightarrow> gens_ok (remember_unresolvable_interface g nm t)"
  "gens_ok t \<Longrightarrow> gens_ok (t\<lparr>next_host_id := n\<rparr>)"
  "gens_ok t \<Longrightarrow> gens_ok (t\<lparr>next_guest_server_id := n\<rparr>)"
  by (auto simp: gens_ok_def st_map_def remove_guest_def remember_unresolvable_interface_def)

lemma gens_ok_new: "gens_ok (st_new B statics)"
  by (simp add: gens_ok_def st_new_def st_map_def)

lemma word_le_lt_Suc: "n \<le> g \<Longrightarrow> g \<noteq> - 1 \<Longrightarrow> n < g + 1" for n g :: u64
proof -
  assume "n \<le> g" "g \<noteq> - 1"
  then have "g + 1 \<noteq> 0" by (simp add: add_eq_0_iff2)
  then have "unat (g + 1) = Suc (unat g)" by (simp add: unatSuc add.commute)
  with \<open>n \<le> g\<close> show "n < g + 1" by (simp add: word_less_nat_alt word_le_nat_alt)
qed

lemma gens_ok_bump: "gens_ok t \<Longrightarrow> generation t \<noteq> - 1 \<Longrightarrow> gens_ok (bump_generation B statics t)"
  using word_le_lt_Suc by (force simp: gens_ok_def bump_generation_def st_map_def Let_def)

lemma is_current_bump:
  assumes "gens_ok t" "generation t \<noteq> - 1"
  shows "is_current_generation (bump_generation B statics t) g \<longleftrightarrow> g = 1"
proof -
  have "hm_get (mapped_in_generation t) g \<noteq> Some (generation t + 1)"
    using assms word_le_lt_Suc by (force simp: gens_ok_def)
  then show ?thesis by (simp add: is_current_generation_def bump_generation_def st_map_def Let_def)
qed

context bimap
begin

lemma host_id_bump:
  assumes "gens_ok t" "generation t \<noteq> - 1"
  shows "host_id B (bump_generation B statics t) g =
    (if g = 0 then Some 0 else if g = 1 then Some 1 else None)"
  using is_current_bump [OF assms]
  by (auto simp: host_id_def bump_generation_def Let_def st_map_def left_insert is_current_generation_def)

lemma guest_id_bump:
  assumes "gens_ok t" "generation t \<noteq> - 1"
  shows "guest_id B (bump_generation B statics t) h =
    (if h = 0 then Some 0 else if h = 1 then Some 1 else None)"
proof -
  let ?t = "bump_generation B statics t"
  have z: "guest_id B ?t h \<noteq> Some 0" if "h \<noteq> 0"
  proof
    assume "guest_id B ?t h = Some 0"
    then have "is_current_generation ?t 0" using that by (rule guest_id_current)
    then show False using is_current_bump [OF assms] by simp
  qed
  have "guest_id B ?t h = Some g \<longleftrightarrow> g = 1 \<and> h = 1" if "h \<noteq> 0" for g
    using z [OF that] guest_host_inverse [of g h ?t] that host_id_bump [OF assms, of statics g]
    by (cases "g = 0") (auto split: if_splits)
  then show ?thesis by (cases "h = 0") (auto, metis not_None_eq)
qed

end

text \<open>Translation is a partial bijection: a client id translates to a host id exactly when that host id
  translates back, null apart.\<close>

lemma translation_bijective:
  assumes "bimap B" "g \<noteq> 0" "h \<noteq> 0"
  shows "host_id B t g = Some h \<longleftrightarrow> guest_id B t h = Some g"
  using assms by (rule bimap.guest_host_inverse)

text \<open>A new generation invalidates every id at once: after \<open>bump_generation\<close> only null and \<open>wl_display\<close>
  translate, in both directions.\<close>

lemma bump_invalidates:
  assumes "bimap B" "gens_ok t" "generation t \<noteq> - 1"
  shows "host_id B (bump_generation B sts t) g = (if g = 0 then Some 0 else if g = 1 then Some 1 else None) \<and>
    guest_id B (bump_generation B sts t) h = (if h = 0 then Some 0 else if h = 1 then Some 1 else None)"
  using bimap.host_id_bump [OF assms] bimap.guest_id_bump [OF assms] by blast

end
