(* ===== verification/Trackers.thy ===== *)
theory Trackers
  imports Prelude
begin

text \<open>
  The three observers of the relay: \<open>src/grab_state.rs\<close>, \<open>src/buffer_flow.rs\<close> and
  \<open>src/pending_frames.rs\<close>. The last two have the same shape, which the sources call an
  unanswered promise: something is asked, may be answered, and what is left is drained at a
  reconnect. That contract is the locale \<open>promise_tracker\<close>; both trackers interpret it, and
  its main lemma says that a drain returns exactly the promises asked and not answered since.
\<close>

definition hs_elems :: "'k hash_set \<Rightarrow> 'k list" where
  "hs_elems s = remdups s"

lemma set_hs_elems [simp]: "set (hs_elems s) = set s" and distinct_hs_elems [simp]: "distinct (hs_elems s)"
  by (simp_all add: hs_elems_def)

section \<open>Pointer and keyboard grabs\<close>

record pointer_state =
  entered_surface :: "u32 option"
  pressed_buttons :: "u32 list"

record keyboard_state =
  kb_entered_surface :: "u32 option"

record grab_tracker =
  pointers :: "(u32, pointer_state) hash_map"
  keyboards :: "(u32, keyboard_state) hash_map"

definition pointer_default :: pointer_state where
  "pointer_default = \<lparr>entered_surface = None, pressed_buttons = []\<rparr>"

definition keyboard_default :: keyboard_state where
  "keyboard_default = \<lparr>kb_entered_surface = None\<rparr>"

definition grabs_new :: grab_tracker where
  "grabs_new = \<lparr>pointers = [], keyboards = []\<rparr>"

definition BUTTON_STATE_PRESSED :: u32 where
  "BUTTON_STATE_PRESSED = 1"

text \<open>\<open>entry(id).or_default()\<close>.\<close>

definition or_default :: "'v \<Rightarrow> ('k, 'v) hash_map \<Rightarrow> 'k \<Rightarrow> 'v" where
  "or_default d m k = (case hm_get m k of Some v \<Rightarrow> v | None \<Rightarrow> d)"

definition on_pointer_enter :: "u32 \<Rightarrow> u32 \<Rightarrow> grab_tracker \<Rightarrow> grab_tracker" where
  "on_pointer_enter p surface t = t\<lparr>pointers :=
     hm_insert p ((or_default pointer_default (pointers t) p)\<lparr>entered_surface := Some surface\<rparr>) (pointers t)\<rparr>"

definition on_pointer_leave :: "u32 \<Rightarrow> grab_tracker \<Rightarrow> grab_tracker" where
  "on_pointer_leave p t =
    (case hm_get (pointers t) p of
       None \<Rightarrow> t
     | Some s \<Rightarrow> t\<lparr>pointers := hm_insert p (s\<lparr>entered_surface := None\<rparr>) (pointers t)\<rparr>)"

definition on_pointer_button :: "u32 \<Rightarrow> u32 \<Rightarrow> u32 \<Rightarrow> grab_tracker \<Rightarrow> grab_tracker" where
  "on_pointer_button p button state t =
    (let s = or_default pointer_default (pointers t) p;
         pressed = pressed_buttons s;
         pressed' = (if state = BUTTON_STATE_PRESSED then
                       (if button \<in> set pressed then pressed else pressed @ [button])
                     else filter (\<lambda>b. b \<noteq> button) pressed)
     in t\<lparr>pointers := hm_insert p (s\<lparr>pressed_buttons := pressed'\<rparr>) (pointers t)\<rparr>)"

definition on_keyboard_enter :: "u32 \<Rightarrow> u32 \<Rightarrow> grab_tracker \<Rightarrow> grab_tracker" where
  "on_keyboard_enter k surface t = t\<lparr>keyboards :=
     hm_insert k ((or_default keyboard_default (keyboards t) k)\<lparr>kb_entered_surface := Some surface\<rparr>) (keyboards t)\<rparr>"

definition on_keyboard_leave :: "u32 \<Rightarrow> grab_tracker \<Rightarrow> grab_tracker" where
  "on_keyboard_leave k t =
    (case hm_get (keyboards t) k of
       None \<Rightarrow> t
     | Some s \<Rightarrow> t\<lparr>keyboards := hm_insert k (s\<lparr>kb_entered_surface := None\<rparr>) (keyboards t)\<rparr>)"

definition active_pointer_grabs :: "(u32 list \<Rightarrow> u32 list) \<Rightarrow> grab_tracker \<Rightarrow> (u32 \<times> u32 option \<times> u32 list) list" where
  "active_pointer_grabs ord t =
    map (\<lambda>p. let s = or_default pointer_default (pointers t) p in (p, entered_surface s, pressed_buttons s))
      (filter (\<lambda>p. let s = or_default pointer_default (pointers t) p
                   in entered_surface s \<noteq> None \<or> pressed_buttons s \<noteq> []) (ord (hm_keys (pointers t))))"

definition active_keyboard_grabs :: "(u32 list \<Rightarrow> u32 list) \<Rightarrow> grab_tracker \<Rightarrow> (u32 \<times> u32) list" where
  "active_keyboard_grabs ord t =
    List.map_filter (\<lambda>k. map_option (Pair k) (kb_entered_surface (or_default keyboard_default (keyboards t) k)))
      (ord (hm_keys (keyboards t)))"

definition clear_grabs :: "grab_tracker \<Rightarrow> grab_tracker" where
  "clear_grabs t = t\<lparr>pointers := [], keyboards := []\<rparr>"

text \<open>What the tracker believes about one device.\<close>

definition pointer_focus :: "grab_tracker \<Rightarrow> u32 \<Rightarrow> u32 option" where
  "pointer_focus t p = entered_surface (or_default pointer_default (pointers t) p)"

definition held_buttons :: "grab_tracker \<Rightarrow> u32 \<Rightarrow> u32 list" where
  "held_buttons t p = pressed_buttons (or_default pointer_default (pointers t) p)"

definition keyboard_focus :: "grab_tracker \<Rightarrow> u32 \<Rightarrow> u32 option" where
  "keyboard_focus t k = kb_entered_surface (or_default keyboard_default (keyboards t) k)"

lemma grab_views_new [simp]:
  "pointer_focus grabs_new p = None" "held_buttons grabs_new p = []" "keyboard_focus grabs_new k = None"
  by (simp_all add: pointer_focus_def held_buttons_def keyboard_focus_def grabs_new_def or_default_def
      pointer_default_def keyboard_default_def)

lemmas grab_view_defs = pointer_focus_def held_buttons_def keyboard_focus_def or_default_def

lemma pointer_focus_steps [simp]:
  "pointer_focus (on_pointer_enter p s t) q = (if q = p then Some s else pointer_focus t q)"
  "pointer_focus (on_pointer_leave p t) q = (if q = p then None else pointer_focus t q)"
  "pointer_focus (on_pointer_button p b st t) q = pointer_focus t q"
  "pointer_focus (on_keyboard_enter k s t) q = pointer_focus t q"
  "pointer_focus (on_keyboard_leave k t) q = pointer_focus t q"
  by (auto simp: grab_view_defs on_pointer_enter_def on_pointer_leave_def on_pointer_button_def
      on_keyboard_enter_def on_keyboard_leave_def Let_def pointer_default_def split: option.splits)

lemma held_buttons_steps [simp]:
  "held_buttons (on_pointer_enter p s t) q = held_buttons t q"
  "held_buttons (on_pointer_leave p t) q = held_buttons t q"
  "held_buttons (on_pointer_button p b st t) q =
    (if q \<noteq> p then held_buttons t q
     else if st = BUTTON_STATE_PRESSED then
       (if b \<in> set (held_buttons t q) then held_buttons t q else held_buttons t q @ [b])
     else filter (\<lambda>c. c \<noteq> b) (held_buttons t q))"
  "held_buttons (on_keyboard_enter k s t) q = held_buttons t q"
  "held_buttons (on_keyboard_leave k t) q = held_buttons t q"
  by (auto simp: grab_view_defs on_pointer_enter_def on_pointer_leave_def on_pointer_button_def
      on_keyboard_enter_def on_keyboard_leave_def Let_def split: option.splits)

lemma held_buttons_distinct: "distinct (held_buttons t d) \<Longrightarrow> distinct (held_buttons (on_pointer_button p b st t) d)"
  by (cases "d = p") simp_all

lemma keyboard_focus_steps [simp]:
  "keyboard_focus (on_keyboard_enter k s t) q = (if q = k then Some s else keyboard_focus t q)"
  "keyboard_focus (on_keyboard_leave k t) q = (if q = k then None else keyboard_focus t q)"
  "keyboard_focus (on_pointer_enter p s t) q = keyboard_focus t q"
  "keyboard_focus (on_pointer_leave p t) q = keyboard_focus t q"
  "keyboard_focus (on_pointer_button p b st t) q = keyboard_focus t q"
  by (auto simp: grab_view_defs on_pointer_enter_def on_pointer_leave_def on_pointer_button_def
      on_keyboard_enter_def on_keyboard_leave_def Let_def keyboard_default_def split: option.splits)

lemma active_pointer_grabs_iff:
  assumes "permutes_keys ord"
  shows "(p, f, bs) \<in> set (active_pointer_grabs ord t) \<longleftrightarrow>
    f = pointer_focus t p \<and> bs = held_buttons t p \<and> (f \<noteq> None \<or> bs \<noteq> [])"
  using permutes_keys_set [OF assms]
  by (auto simp: active_pointer_grabs_def Let_def grab_view_defs set_hm_keys pointer_default_def
      split: option.splits)

lemma active_keyboard_grabs_iff:
  assumes "permutes_keys ord"
  shows "(k, s) \<in> set (active_keyboard_grabs ord t) \<longleftrightarrow> keyboard_focus t k = Some s"
  using permutes_keys_set [OF assms]
  by (auto simp: active_keyboard_grabs_def in_set_map_filter grab_view_defs set_hm_keys keyboard_default_def
      split: option.splits)

lemma clear_grabs_views [simp]:
  "pointer_focus (clear_grabs t) p = None" "held_buttons (clear_grabs t) p = []"
  "keyboard_focus (clear_grabs t) k = None"
  by (simp_all add: clear_grabs_def grab_view_defs pointer_default_def keyboard_default_def)

section \<open>Buffers in flight\<close>

record buffer_flow_tracker =
  pending_attach :: "(u32, u32) hash_map"
  in_flight :: "u32 hash_set"

definition buffer_flow_new :: buffer_flow_tracker where
  "buffer_flow_new = \<lparr>pending_attach = [], in_flight = []\<rparr>"

definition on_attach :: "u32 \<Rightarrow> u32 \<Rightarrow> buffer_flow_tracker \<Rightarrow> buffer_flow_tracker" where
  "on_attach surface buffer t = t\<lparr>pending_attach := hm_insert surface buffer (pending_attach t)\<rparr>"

definition on_commit :: "u32 \<Rightarrow> buffer_flow_tracker \<Rightarrow> buffer_flow_tracker" where
  "on_commit surface t =
    (case hm_get (pending_attach t) surface of
       None \<Rightarrow> t
     | Some buffer \<Rightarrow> if buffer \<noteq> 0 then t\<lparr>in_flight := List.insert buffer (in_flight t)\<rparr> else t)"

definition on_release :: "u32 \<Rightarrow> buffer_flow_tracker \<Rightarrow> buffer_flow_tracker" where
  "on_release buffer t = t\<lparr>in_flight := removeAll buffer (in_flight t)\<rparr>"

definition drain_in_flight :: "(u32 list \<Rightarrow> u32 list) \<Rightarrow> buffer_flow_tracker \<Rightarrow> u32 list \<times> buffer_flow_tracker" where
  "drain_in_flight ord t = (ord (hs_elems (in_flight t)), t\<lparr>in_flight := []\<rparr>)"

section \<open>Callbacks awaiting done\<close>

record pending_frame_tracker =
  awaiting_done :: "u32 hash_set"

definition pending_frames_new :: pending_frame_tracker where
  "pending_frames_new = \<lparr>awaiting_done = []\<rparr>"

definition on_frame_requested :: "u32 \<Rightarrow> pending_frame_tracker \<Rightarrow> pending_frame_tracker" where
  "on_frame_requested callback t = t\<lparr>awaiting_done := List.insert callback (awaiting_done t)\<rparr>"

definition on_sync_requested :: "u32 \<Rightarrow> pending_frame_tracker \<Rightarrow> pending_frame_tracker" where
  "on_sync_requested callback t = t\<lparr>awaiting_done := List.insert callback (awaiting_done t)\<rparr>"

definition on_done_received :: "u32 \<Rightarrow> pending_frame_tracker \<Rightarrow> pending_frame_tracker" where
  "on_done_received callback t = t\<lparr>awaiting_done := removeAll callback (awaiting_done t)\<rparr>"

definition drain_awaiting_done :: "(u32 list \<Rightarrow> u32 list) \<Rightarrow> pending_frame_tracker \<Rightarrow> u32 list \<times> pending_frame_tracker" where
  "drain_awaiting_done ord t = (ord (hs_elems (awaiting_done t)), t\<lparr>awaiting_done := []\<rparr>)"

section \<open>Unanswered promises\<close>

datatype promise_event = Asked u32 | Answered u32 | Drained "u32 list \<Rightarrow> u32 list"

text \<open>Where a list that grew by one element has an element \<open>x\<close>, or one of the form \<open>f k\<close>.\<close>

lemma ex_split_snoc:
  "(\<exists>pre post. xs @ [y] = pre @ x # post \<and> P pre post) \<longleftrightarrow>
    (y = x \<and> P xs []) \<or> (\<exists>pre post. xs = pre @ x # post \<and> P pre (post @ [y]))" (is "?L \<longleftrightarrow> ?R")
proof
  assume ?L
  then obtain pre post where "xs @ [y] = pre @ x # post" "P pre post" by blast
  then show ?R by (cases post rule: rev_cases) auto
next
  assume ?R
  then show ?L
  proof
    assume "y = x \<and> P xs []"
    then show ?L by blast
  next
    assume "\<exists>pre post. xs = pre @ x # post \<and> P pre (post @ [y])"
    then obtain pre post where "xs = pre @ x # post" "P pre (post @ [y])" by blast
    then show ?L by (intro exI [of _ pre] exI [of _ "post @ [y]"]) simp
  qed
qed

lemma ex_split_snoc_of:
  "(\<exists>pre k post. xs @ [y] = pre @ f k # post \<and> P k pre post) \<longleftrightarrow>
    (\<exists>k. y = f k \<and> P k xs []) \<or> (\<exists>pre k post. xs = pre @ f k # post \<and> P k pre (post @ [y]))"
proof -
  have "(\<exists>pre k post. xs @ [y] = pre @ f k # post \<and> P k pre post) \<longleftrightarrow>
    (\<exists>k pre post. xs @ [y] = pre @ f k # post \<and> P k pre post)" by blast
  then show ?thesis unfolding ex_split_snoc by blast
qed

locale promise_tracker =
  fixes open_promises :: "'s \<Rightarrow> u32 set"
    and ask :: "u32 \<Rightarrow> 's \<Rightarrow> 's"
    and answer :: "u32 \<Rightarrow> 's \<Rightarrow> 's"
    and drain :: "(u32 list \<Rightarrow> u32 list) \<Rightarrow> 's \<Rightarrow> u32 list \<times> 's"
    and real :: "u32 \<Rightarrow> bool"
  assumes open_ask: "real k \<Longrightarrow> open_promises (ask k s) = insert k (open_promises s)"
    and open_answer: "open_promises (answer k s) = open_promises s - {k}"
    and drain_reports: "permutes_keys ord \<Longrightarrow> set (fst (drain ord s)) = open_promises s"
    and drain_once: "permutes_keys ord \<Longrightarrow> distinct (fst (drain ord s))"
    and drain_clears: "open_promises (snd (drain ord s)) = {}"
begin

fun track :: "promise_event list \<Rightarrow> 's \<Rightarrow> 's" where
  "track [] s = s"
| "track (Asked k # evs) s = track evs (ask k s)"
| "track (Answered k # evs) s = track evs (answer k s)"
| "track (Drained ord # evs) s = track evs (snd (drain ord s))"

lemma track_append: "track (evs @ evs') s = track evs' (track evs s)"
  by (induction evs s rule: track.induct) auto

text \<open>A promise is open when it was asked for and neither answered nor drained since.\<close>

lemma open_track_iff:
  assumes "\<forall>k. Asked k \<in> set evs \<longrightarrow> real k"
  shows "k \<in> open_promises (track evs s) \<longleftrightarrow>
    (\<exists>pre post. evs = pre @ Asked k # post \<and> Answered k \<notin> set post \<and> (\<forall>r. Drained r \<notin> set post)) \<or>
    (k \<in> open_promises s \<and> Answered k \<notin> set evs \<and> (\<forall>r. Drained r \<notin> set evs))"
  using assms
proof (induction evs rule: rev_induct)
  case (snoc e evs)
  have nz: "\<forall>k. Asked k \<in> set evs \<longrightarrow> real k" using snoc.prems by simp
  show ?case
  proof (cases e)
    case (Asked j)
    then have "real j" using snoc.prems by simp
    then show ?thesis using snoc.IH [OF nz] Asked by (auto simp: track_append open_ask ex_split_snoc)
  next
    case (Answered j)
    then show ?thesis using snoc.IH [OF nz] by (auto simp: track_append open_answer ex_split_snoc)
  next
    case (Drained r)
    then show ?thesis by (auto simp: track_append drain_clears ex_split_snoc)
  qed
qed simp

text \<open>From a tracker with nothing open, a drain is exactly the unanswered promises.\<close>

lemma drain_track:
  assumes "permutes_keys ord" "open_promises s = {}" "\<forall>k. Asked k \<in> set evs \<longrightarrow> real k"
  shows "k \<in> set (fst (drain ord (track evs s))) \<longleftrightarrow>
    (\<exists>pre post. evs = pre @ Asked k # post \<and> Answered k \<notin> set post \<and> (\<forall>r. Drained r \<notin> set post))"
  using open_track_iff [OF assms(3), of k s] assms(2) drain_reports [OF assms(1)] by simp

end

interpretation frames: promise_tracker "\<lambda>t. set (awaiting_done t)" on_frame_requested on_done_received drain_awaiting_done
    "\<lambda>k. True"
  by unfold_locales
    (auto simp: on_frame_requested_def on_done_received_def drain_awaiting_done_def
      permutes_keys_set permutes_keys_distinct)

text \<open>A \<open>wl_display.sync\<close> asks in the same way.\<close>

lemma on_sync_requested_frame: "on_sync_requested = on_frame_requested"
  by (intro ext) (simp add: on_sync_requested_def on_frame_requested_def)

text \<open>For a buffer, asking is an attach followed by the commit on the same surface; the null buffer asks
  for nothing.\<close>

interpretation buffers: promise_tracker "\<lambda>t. set (in_flight t)" "\<lambda>b t. on_commit s (on_attach s b t)"
    on_release drain_in_flight "\<lambda>b. b \<noteq> 0" for s :: u32
  by unfold_locales
    (auto simp: on_attach_def on_commit_def on_release_def drain_in_flight_def
      permutes_keys_set permutes_keys_distinct)

section \<open>Attaches and commits apart\<close>

text \<open>
  On the wire the attach and the commit are requests of their own, those of several surfaces come
  interleaved, and a commit may come again without an attach. \<open>play_flow\<close> runs the tracker over
  such a history; \<open>last_attached\<close> says of a history which buffer a surface has attached.
\<close>

datatype flow_event = Attach u32 u32 | Commit u32 | Release u32 | DrainFlow "u32 list \<Rightarrow> u32 list"

fun play_flow :: "flow_event list \<Rightarrow> buffer_flow_tracker \<Rightarrow> buffer_flow_tracker" where
  "play_flow [] t = t"
| "play_flow (Attach s b # evs) t = play_flow evs (on_attach s b t)"
| "play_flow (Commit s # evs) t = play_flow evs (on_commit s t)"
| "play_flow (Release b # evs) t = play_flow evs (on_release b t)"
| "play_flow (DrainFlow ord # evs) t = play_flow evs (snd (drain_in_flight ord t))"

lemma play_flow_append: "play_flow (evs @ evs') t = play_flow evs' (play_flow evs t)"
  by (induction evs t rule: play_flow.induct) auto

definition last_attached :: "u32 \<Rightarrow> u32 \<Rightarrow> flow_event list \<Rightarrow> bool" where
  "last_attached s b evs \<longleftrightarrow> (\<exists>pre post. evs = pre @ Attach s b # post \<and> (\<forall>c. Attach s c \<notin> set post))"

lemma last_attached_snoc:
  "last_attached s b (evs @ [e]) \<longleftrightarrow> e = Attach s b \<or> ((\<forall>c. e \<noteq> Attach s c) \<and> last_attached s b evs)"
  unfolding last_attached_def ex_split_snoc by auto

lemma pending_attach_play:
  "hm_get (pending_attach (play_flow evs buffer_flow_new)) s = Some b \<longleftrightarrow> last_attached s b evs"
proof (induction evs rule: rev_induct)
  case Nil
  then show ?case by (simp add: buffer_flow_new_def last_attached_def)
next
  case (snoc e evs)
  then show ?case
    by (cases e) (auto simp: play_flow_append last_attached_snoc on_attach_def on_commit_def on_release_def
        drain_in_flight_def split: option.splits)
qed

lemma in_flight_play:
  "b \<in> set (in_flight (play_flow evs buffer_flow_new)) \<longleftrightarrow> b \<noteq> 0 \<and>
    (\<exists>pre s post. evs = pre @ Commit s # post \<and> last_attached s b pre \<and> Release b \<notin> set post \<and>
      (\<forall>r. DrainFlow r \<notin> set post))"
proof (induction evs rule: rev_induct)
  case Nil
  then show ?case by (simp add: buffer_flow_new_def)
next
  case (snoc e evs)
  show ?case
  proof (cases e)
    case (Commit s)
    have "b \<in> set (in_flight (play_flow (evs @ [e]) buffer_flow_new)) \<longleftrightarrow>
      b \<in> set (in_flight (play_flow evs buffer_flow_new)) \<or> (b \<noteq> 0 \<and> last_attached s b evs)"
      unfolding pending_attach_play [symmetric] Commit
      by (auto simp: play_flow_append on_commit_def split: option.splits)
    then show ?thesis unfolding snoc.IH Commit ex_split_snoc_of by (simp; blast)
  qed (use snoc.IH in \<open>auto simp: ex_split_snoc_of play_flow_append on_attach_def on_release_def drain_in_flight_def\<close>)
qed

lemma drain_play:
  assumes "permutes_keys ord"
  shows "b \<in> set (fst (drain_in_flight ord (play_flow evs buffer_flow_new))) \<longleftrightarrow> b \<noteq> 0 \<and>
    (\<exists>pre s post. evs = pre @ Commit s # post \<and> last_attached s b pre \<and> Release b \<notin> set post \<and>
      (\<forall>r. DrainFlow r \<notin> set post))"
  using in_flight_play [of b evs] buffers.drain_reports [OF assms] by simp

end
