(* ===== verification/Recreation.thy ===== *)
theory Recreation
  imports Protocol
begin

text \<open>
  \<open>src/recreation.rs\<close>: the recipes that recreate the client's objects on a fresh host, in the
  order they were recorded. A file descriptor that a recipe retains is its number. The
  in-place updates search from the end, as \<open>iter_mut().rev().find(..)\<close> does, so they touch
  the most recent recipe of the right shape only. The abstract view is \<open>recipe_for\<close>; the
  order is what recovery relies on (\<open>parents_first\<close>).
\<close>

datatype seat_device_kind = SeatPointer | SeatKeyboard | SeatTouch

fun request_name :: "seat_device_kind \<Rightarrow> string" where
  "request_name SeatPointer = ''get_pointer''"
| "request_name SeatKeyboard = ''get_keyboard''"
| "request_name SeatTouch = ''get_touch''"

text \<open>There are three kinds; statements over all of them are decided by evaluation.\<close>

instantiation seat_device_kind :: enum
begin

definition enum_seat_device_kind :: "seat_device_kind list" where
  "enum_seat_device_kind = [SeatPointer, SeatKeyboard, SeatTouch]"

definition enum_all_seat_device_kind :: "(seat_device_kind \<Rightarrow> bool) \<Rightarrow> bool" where
  "enum_all_seat_device_kind P \<longleftrightarrow> P SeatPointer \<and> P SeatKeyboard \<and> P SeatTouch"

definition enum_ex_seat_device_kind :: "(seat_device_kind \<Rightarrow> bool) \<Rightarrow> bool" where
  "enum_ex_seat_device_kind P \<longleftrightarrow> P SeatPointer \<or> P SeatKeyboard \<or> P SeatTouch"

instance
proof
  have all: "(\<forall>k. P k) \<longleftrightarrow> P SeatPointer \<and> P SeatKeyboard \<and> P SeatTouch" for P :: "seat_device_kind \<Rightarrow> bool"
    by (metis seat_device_kind.exhaust)
  show "UNIV = set (Enum.enum :: seat_device_kind list)"
    by (auto simp: enum_seat_device_kind_def intro: seat_device_kind.exhaust)
  show "Enum.enum_all P \<longleftrightarrow> Ball UNIV P" "Enum.enum_ex P \<longleftrightarrow> Bex UNIV P" for P :: "seat_device_kind \<Rightarrow> bool"
    using all [of P] all [of "\<lambda>k. \<not> P k"] by (auto simp: enum_all_seat_device_kind_def enum_ex_seat_device_kind_def)
qed (simp add: enum_seat_device_kind_def)

end

lemma request_names_distinct: "\<forall>k k'. request_name k = request_name k' \<longrightarrow> k = k'"
  by code_simp

record dmabuf_plane =
  plane_fd :: fd
  plane_idx :: u32
  plane_offset :: u32
  plane_stride :: u32
  plane_modifier :: u64

datatype recreatable =
    RGlobal interface u32
  | RSurface u32
  | RXdgSurface u32 u32
  | RXdgToplevel u32 "string option" "string option"
  | RShmPool u32 fd i32
  | RShmBuffer u32 i32 i32 i32 i32 u32
  | RDmabufBuffer u32 i32 i32 u32 u32 "dmabuf_plane list"
  | RSeatDevice u32 seat_device_kind
  | RViewport u32 u32 "(i32 \<times> i32) option"
  | RFractionalScale u32 u32

type_synonym recreation_graph = "(u32 \<times> recreatable) list"

definition graph_new :: recreation_graph where
  "graph_new = []"

definition record_recipe :: "u32 \<Rightarrow> recreatable \<Rightarrow> recreation_graph \<Rightarrow> recreation_graph" where
  "record_recipe guest recipe g = g @ [(guest, recipe)]"

definition recipe_for :: "recreation_graph \<Rightarrow> u32 \<Rightarrow> recreatable option" where
  "recipe_for g guest = map_option snd (List.find (\<lambda>(i, _). i = guest) (rev g))"

definition remove_recipes :: "u32 \<Rightarrow> recreation_graph \<Rightarrow> recreation_graph" where
  "remove_recipes guest g = filter (\<lambda>(i, _). i \<noteq> guest) g"

text \<open>The first element that satisfies \<open>P\<close> is replaced, everything else stays.\<close>

fun update_first :: "('a \<Rightarrow> bool) \<Rightarrow> ('a \<Rightarrow> 'a) \<Rightarrow> 'a list \<Rightarrow> 'a list" where
  "update_first P f [] = []"
| "update_first P f (x # xs) = (if P x then f x # xs else x # update_first P f xs)"

definition update_last :: "('a \<Rightarrow> bool) \<Rightarrow> ('a \<Rightarrow> 'a) \<Rightarrow> 'a list \<Rightarrow> 'a list" where
  "update_last P f xs = rev (update_first P f (rev xs))"

fun is_shm_pool :: "recreatable \<Rightarrow> bool" where
  "is_shm_pool (RShmPool _ _ _) = True"
| "is_shm_pool _ = False"

fun is_toplevel :: "recreatable \<Rightarrow> bool" where
  "is_toplevel (RXdgToplevel _ _ _) = True"
| "is_toplevel _ = False"

fun is_viewport :: "recreatable \<Rightarrow> bool" where
  "is_viewport (RViewport _ _ _) = True"
| "is_viewport _ = False"

fun set_size :: "i32 \<Rightarrow> recreatable \<Rightarrow> recreatable" where
  "set_size n (RShmPool shm f _) = RShmPool shm f n"
| "set_size n r = r"

fun set_title :: "string \<Rightarrow> recreatable \<Rightarrow> recreatable" where
  "set_title s (RXdgToplevel p _ a) = RXdgToplevel p (Some s) a"
| "set_title s r = r"

fun set_app_id :: "string \<Rightarrow> recreatable \<Rightarrow> recreatable" where
  "set_app_id s (RXdgToplevel p t _) = RXdgToplevel p t (Some s)"
| "set_app_id s r = r"

fun set_destination :: "i32 \<Rightarrow> i32 \<Rightarrow> recreatable \<Rightarrow> recreatable" where
  "set_destination w h (RViewport v s _) = RViewport v s (Some (w, h))"
| "set_destination w h r = r"

definition update_recipe :: "(recreatable \<Rightarrow> bool) \<Rightarrow> (recreatable \<Rightarrow> recreatable) \<Rightarrow> u32
    \<Rightarrow> recreation_graph \<Rightarrow> recreation_graph" where
  "update_recipe shape f guest g = update_last (\<lambda>(i, r). i = guest \<and> shape r) (\<lambda>(i, r). (i, f r)) g"

definition update_shm_pool_size :: "u32 \<Rightarrow> i32 \<Rightarrow> recreation_graph \<Rightarrow> recreation_graph" where
  "update_shm_pool_size guest n = update_recipe is_shm_pool (set_size n) guest"

definition update_toplevel_title :: "u32 \<Rightarrow> string \<Rightarrow> recreation_graph \<Rightarrow> recreation_graph" where
  "update_toplevel_title guest s = update_recipe is_toplevel (set_title s) guest"

definition update_toplevel_app_id :: "u32 \<Rightarrow> string \<Rightarrow> recreation_graph \<Rightarrow> recreation_graph" where
  "update_toplevel_app_id guest s = update_recipe is_toplevel (set_app_id s) guest"

definition update_viewport_destination :: "u32 \<Rightarrow> i32 \<Rightarrow> i32 \<Rightarrow> recreation_graph \<Rightarrow> recreation_graph" where
  "update_viewport_destination guest w h = update_recipe is_viewport (set_destination w h) guest"

section \<open>Lookup after update\<close>

named_theorems graph_simps "recipe lookup after each operation"

lemma recipe_for_new [graph_simps, simp]: "recipe_for graph_new k = None"
  by (simp add: recipe_for_def graph_new_def)

lemma recipe_for_record [graph_simps, simp]:
  "recipe_for (record_recipe k r g) j = (if j = k then Some r else recipe_for g j)"
  by (simp add: recipe_for_def record_recipe_def)

lemma find_filter_other: "j \<noteq> k \<Longrightarrow> List.find (\<lambda>(i, _). i = j) (filter (\<lambda>(i, _). i \<noteq> k) xs) = List.find (\<lambda>(i, _). i = j) xs"
  by (induction xs) auto

lemma find_filter_same: "List.find (\<lambda>(i, _). i = k) (filter (\<lambda>(i, _). i \<noteq> k) xs) = None"
  by (auto simp: find_None_iff)

lemma recipe_for_remove [graph_simps, simp]:
  "recipe_for (remove_recipes k g) j = (if j = k then None else recipe_for g j)"
  by (simp add: recipe_for_def remove_recipes_def rev_filter find_filter_other find_filter_same)

lemma remove_recipes_none [simp]: "k \<notin> fst ` set (remove_recipes k g)"
  by (auto simp: remove_recipes_def)

lemma remove_record [simp]:
  "remove_recipes k (record_recipe k r g) = remove_recipes k g"
  by (simp add: remove_recipes_def record_recipe_def)

lemma remove_recipes_fresh: "k \<notin> fst ` set g \<Longrightarrow> remove_recipes k g = g"
  by (induction g) (auto simp: remove_recipes_def)

lemma length_update_first [simp]: "length (update_first P f xs) = length xs"
  by (induction xs) auto

lemma map_update_first:
  "(\<And>x. P x \<Longrightarrow> m (f x) = m x) \<Longrightarrow> map m (update_first P f xs) = map m xs"
  by (induction xs) auto

lemma map_update_last:
  "(\<And>x. P x \<Longrightarrow> m (f x) = m x) \<Longrightarrow> map m (update_last P f xs) = map m xs"
  by (simp add: update_last_def map_update_first flip: rev_map)

lemma map_fst_update_recipe [graph_simps, simp]:
  "map fst (update_recipe shape f k g) = map fst g"
  unfolding update_recipe_def by (rule map_update_last) auto

lemma find_update_first_other:
  "j \<noteq> k \<Longrightarrow> List.find (\<lambda>(i, _). i = j) (update_first (\<lambda>(i, r). i = k \<and> shape r) (\<lambda>(i, r). (i, f r)) xs) =
    List.find (\<lambda>(i, _). i = j) xs"
  by (induction xs) auto

text \<open>The recipe that counts, the most recent one, is updated when it has the shape asked for.\<close>

lemma find_update_first_same:
  "map_option snd (List.find (\<lambda>(i, _). i = k) xs) = Some r \<Longrightarrow> shape r \<Longrightarrow>
   map_option snd (List.find (\<lambda>(i, _). i = k) (update_first (\<lambda>(i, r). i = k \<and> shape r) (\<lambda>(i, r). (i, f r)) xs)) = Some (f r)"
  by (induction xs) auto

lemma recipe_for_update_other [graph_simps, simp]:
  "j \<noteq> k \<Longrightarrow> recipe_for (update_recipe shape f k g) j = recipe_for g j"
  by (simp add: recipe_for_def update_recipe_def update_last_def find_update_first_other)

lemma recipe_for_update_same [graph_simps]:
  "recipe_for g k = Some r \<Longrightarrow> shape r \<Longrightarrow> recipe_for (update_recipe shape f k g) k = Some (f r)"
  by (simp add: recipe_for_def update_recipe_def update_last_def find_update_first_same)

lemma update_first_no_match: "\<forall>x \<in> set xs. \<not> P x \<Longrightarrow> update_first P f xs = xs"
  by (induction xs) auto

lemma update_recipe_no_match:
  "\<forall>(i, r) \<in> set g. i = k \<longrightarrow> \<not> shape r \<Longrightarrow> update_recipe shape f k g = g"
  unfolding update_recipe_def update_last_def
  by (subst update_first_no_match) auto

section \<open>Parents before children\<close>

text \<open>The guest ids a recipe needs translated when it is replayed.\<close>

fun parents :: "recreatable \<Rightarrow> u32 list" where
  "parents (RGlobal _ _) = []"
| "parents (RSurface p) = [p]"
| "parents (RXdgSurface p s) = [p, s]"
| "parents (RXdgToplevel p _ _) = [p]"
| "parents (RShmPool s _ _) = [s]"
| "parents (RShmBuffer p _ _ _ _ _) = [p]"
| "parents (RDmabufBuffer d _ _ _ _ _) = [d]"
| "parents (RSeatDevice s _) = [s]"
| "parents (RViewport v s _) = [v, s]"
| "parents (RFractionalScale m s) = [m, s]"

text \<open>Each recipe comes after a recipe of every parent.\<close>

fun parents_first :: "u32 set \<Rightarrow> recreation_graph \<Rightarrow> bool" where
  "parents_first known [] = True"
| "parents_first known ((k, r) # g) \<longleftrightarrow> set (parents r) \<subseteq> known \<and> parents_first (insert k known) g"

lemma parents_set_ops [simp]:
  "parents (set_size n r) = parents r" "parents (set_title s r) = parents r"
  "parents (set_app_id s r) = parents r" "parents (set_destination w h r) = parents r"
  by (cases r; simp)+

lemma parents_first_append:
  "parents_first known (g @ g') \<longleftrightarrow> parents_first known g \<and> parents_first (known \<union> fst ` set g) g'"
  by (induction known g rule: parents_first.induct) auto

lemma parents_first_record:
  "parents_first known g \<Longrightarrow> set (parents r) \<subseteq> known \<union> fst ` set g \<Longrightarrow>
   parents_first known (record_recipe k r g)"
  by (simp add: record_recipe_def parents_first_append)

lemma parents_first_map_cong:
  "map (\<lambda>(k, r). (k, parents r)) g = map (\<lambda>(k, r). (k, parents r)) g' \<Longrightarrow>
   parents_first known g = parents_first known g'"
proof (induction g arbitrary: known g')
  case (Cons x g)
  then obtain y h where "g' = y # h" by auto
  with Cons show ?case by (cases x; cases y) auto
qed simp

lemma parents_first_update:
  assumes "\<And>r. parents (f r) = parents r"
  shows "parents_first known (update_recipe shape f k g) = parents_first known g"
  unfolding update_recipe_def
  by (intro parents_first_map_cong map_update_last) (auto simp: assms)

end
