(* ===== verification/Clipboard.thy ===== *)
theory Clipboard
  imports Prelude
begin

text \<open>
  \<open>src/clipboard.rs\<close>: the clipboard cache, the per-connection reclaim state and the tee that
  copies a transfer into the cache. The pipes are the operating system's: creating one and
  turning a descriptor into a pipe end are functions of the environment, and the bytes that
  arrive are a script of read results paired with the result of the matching write. The mutex
  of the cache makes each operation atomic, so a cache value is a plain hash map.
\<close>

definition MAX_CACHED_BYTES :: nat where
  "MAX_CACHED_BYTES = 5 * 1024 * 1024"

definition CACHEABLE_MIME_TYPES :: "string list" where
  "CACHEABLE_MIME_TYPES = [''text/plain'', ''text/plain;charset=utf-8'', ''UTF8_STRING'', ''STRING'', ''TEXT'', ''image/png'']"

definition is_cacheable_mime :: "string \<Rightarrow> bool" where
  "is_cacheable_mime mime \<longleftrightarrow> mime \<in> set CACHEABLE_MIME_TYPES"

type_synonym clipboard_cache = "(string, byte list) hash_map"

definition cache_new :: clipboard_cache where
  "cache_new = []"

definition cache_store :: "string \<Rightarrow> byte list \<Rightarrow> clipboard_cache \<Rightarrow> clipboard_cache" where
  "cache_store mime bs c = hm_insert mime bs c"

definition cache_get :: "clipboard_cache \<Rightarrow> string \<Rightarrow> byte list option" where
  "cache_get c mime = hm_get c mime"

definition cached_mime_types :: "(string list \<Rightarrow> string list) \<Rightarrow> clipboard_cache \<Rightarrow> string list" where
  "cached_mime_types ord c = ord (hm_keys c)"

record reclaim_state =
  reclaim_pending :: bool
  data_device_manager_global :: "(u32 \<times> u32) option"
  active_source_host_id :: "u32 option"

definition reclaim_default :: reclaim_state where
  "reclaim_default = \<lparr>reclaim_pending = False, data_device_manager_global = None, active_source_host_id = None\<rparr>"

section \<open>The tee\<close>

text \<open>Detached tasks: the pump of a tee (read end, real descriptor, mime type), or the write of
  cached bytes into a descriptor.\<close>

datatype task =
    TeePump fd fd string
  | WriteCached fd "byte list" string

record os_pipes =
  new_pipe :: "fd \<Rightarrow> (fd \<times> fd) option"
  is_writable_pipe :: "fd \<Rightarrow> bool"
  extract_fd :: "fd \<Rightarrow> fd option"

text \<open>\<open>start_tee\<close>: the substitute descriptor and the pump it spawns. \<open>new_pipe\<close> is asked for the
  pipe that serves this transfer: its sender and its receiver.\<close>

definition start_tee :: "os_pipes \<Rightarrow> fd \<Rightarrow> string \<Rightarrow> (fd \<times> task) option" where
  "start_tee os real_fd mime =
    (case new_pipe os real_fd of
       None \<Rightarrow> None
     | Some (client_sender, client_receiver) \<Rightarrow>
        if \<not> is_writable_pipe os real_fd then None
        else case extract_fd os client_sender of
           None \<Rightarrow> None
         | Some client_facing_fd \<Rightarrow> Some (client_facing_fd, TeePump client_receiver real_fd mime))"

text \<open>
  \<open>pump\<close>: each script entry is a read result and whether forwarding those bytes succeeded.
  A read of no bytes is the end of the transfer. \<open>PumpWaiting\<close> is a pump whose script has run
  out before the end. The result carries every byte forwarded to the host.
\<close>

datatype pump_read = PumpBytes "byte list" | PumpReadError

datatype pump_result =
    PumpStored "byte list" "byte list"
  | PumpNotStored "byte list"
  | PumpAborted "byte list"
  | PumpWaiting "byte list"

definition collect_more :: "byte list option \<Rightarrow> byte list \<Rightarrow> byte list option" where
  "collect_more collected bs =
    (case collected of
       None \<Rightarrow> None
     | Some so_far \<Rightarrow> if length so_far + length bs > MAX_CACHED_BYTES then None else Some (so_far @ bs))"

definition pump_finish :: "byte list option \<Rightarrow> byte list \<Rightarrow> pump_result" where
  "pump_finish collected forwarded =
    (case collected of
       None \<Rightarrow> PumpNotStored forwarded
     | Some bs \<Rightarrow> if bs \<noteq> [] then PumpStored bs forwarded else PumpNotStored forwarded)"

fun pump :: "(pump_read \<times> bool) list \<Rightarrow> byte list option \<Rightarrow> byte list \<Rightarrow> pump_result" where
  "pump [] collected forwarded = PumpWaiting forwarded"
| "pump ((PumpReadError, _) # script) collected forwarded = PumpAborted forwarded"
| "pump ((PumpBytes bs, written) # script) collected forwarded =
    (if bs = [] then pump_finish collected forwarded
     else if \<not> written then PumpAborted forwarded
     else pump script (collect_more collected bs) (forwarded @ bs))"

definition run_pump :: "(pump_read \<times> bool) list \<Rightarrow> pump_result" where
  "run_pump script = pump script (Some []) []"

text \<open>A finished pump updates the shared cache.\<close>

fun cache_after_pump :: "string \<Rightarrow> pump_result \<Rightarrow> clipboard_cache \<Rightarrow> clipboard_cache" where
  "cache_after_pump mime (PumpStored bs _) c = cache_store mime bs c"
| "cache_after_pump mime _ c = c"

section \<open>Facts\<close>

lemma cache_get_store [simp]:
  "cache_get (cache_store m bs c) m' = (if m' = m then Some bs else cache_get c m')"
  by (simp add: cache_get_def cache_store_def)

lemma cached_mime_types_iff:
  "permutes_keys ord \<Longrightarrow> m \<in> set (cached_mime_types ord c) \<longleftrightarrow> cache_get c m \<noteq> None"
  by (simp add: cached_mime_types_def cache_get_def permutes_keys_set set_hm_keys)

lemma pump_transfer:
  assumes "\<forall>bs \<in> set chunks. bs \<noteq> []"
  shows "pump (map (\<lambda>bs. (PumpBytes bs, True)) chunks @ (PumpBytes [], w) # rest) collected forwarded =
    pump_finish (fold (\<lambda>bs c. collect_more c bs) chunks collected) (forwarded @ concat chunks)"
  using assms by (induction chunks arbitrary: collected forwarded) auto

lemma fold_collect_None [simp]: "fold (\<lambda>bs c. collect_more c bs) chunks None = None"
  by (induction chunks) (auto simp: collect_more_def)

lemma fold_collect:
  "length so_far \<le> MAX_CACHED_BYTES \<Longrightarrow>
   fold (\<lambda>bs c. collect_more c bs) chunks (Some so_far) =
    (if length (so_far @ concat chunks) \<le> MAX_CACHED_BYTES then Some (so_far @ concat chunks) else None)"
proof (induction chunks arbitrary: so_far)
  case (Cons bs chunks)
  show ?case
  proof (cases "length so_far + length bs \<le> MAX_CACHED_BYTES")
    case True
    then show ?thesis using Cons.IH [of "so_far @ bs"] by (simp add: collect_more_def)
  next
    case False
    then have "collect_more (Some so_far) bs = None" by (simp add: collect_more_def)
    with False show ?thesis by simp
  qed
qed simp

lemma run_pump_complete:
  assumes "\<forall>bs \<in> set chunks. bs \<noteq> []"
  shows "run_pump (map (\<lambda>bs. (PumpBytes bs, True)) chunks @ (PumpBytes [], w) # rest) =
    (if concat chunks \<noteq> [] \<and> length (concat chunks) \<le> MAX_CACHED_BYTES
     then PumpStored (concat chunks) (concat chunks) else PumpNotStored (concat chunks))"
  unfolding run_pump_def using pump_transfer [OF assms] fold_collect [of "[]" chunks]
  by (simp add: pump_finish_def MAX_CACHED_BYTES_def)

text \<open>Whatever happens, the host receives a prefix of what the client wrote.\<close>

fun script_bytes :: "(pump_read \<times> bool) list \<Rightarrow> byte list" where
  "script_bytes [] = []"
| "script_bytes ((PumpReadError, _) # script) = script_bytes script"
| "script_bytes ((PumpBytes bs, _) # script) = bs @ script_bytes script"

fun pump_forwarded :: "pump_result \<Rightarrow> byte list" where
  "pump_forwarded (PumpStored _ f) = f"
| "pump_forwarded (PumpNotStored f) = f"
| "pump_forwarded (PumpAborted f) = f"
| "pump_forwarded (PumpWaiting f) = f"

lemma pump_forwarded_prefix:
  "\<exists>rest. forwarded @ script_bytes script = pump_forwarded (pump script collected forwarded) @ rest"
proof (induction script collected forwarded rule: pump.induct)
  case (3 bs written script collected forwarded)
  show ?case
  proof (cases "bs \<noteq> [] \<and> written")
    case True
    then show ?thesis using 3 by simp
  next
    case False
    then show ?thesis by (auto simp: pump_finish_def split: option.splits)
  qed
qed auto

lemma pump_stored_forwarded:
  assumes "pump script (Some so_far) so_far = PumpStored bs f"
  shows "bs = f"
proof -
  have "pump script c f0 = PumpStored bs f \<Longrightarrow> (\<forall>b. c = Some b \<longrightarrow> b = f0) \<Longrightarrow> bs = f" for c f0
  proof (induction script c f0 rule: pump.induct)
    case (3 cs written script collected forwarded)
    then show ?case
      by (auto simp: pump_finish_def collect_more_def split: if_splits option.splits)
  qed auto
  then show ?thesis using assms by simp
qed

end
