(* ===== verification/Wire.thy ===== *)
theory Wire
  imports Protocol
begin

text \<open>
  \<open>src/wire.rs\<close>: message framing and the argument codec. Byte order is the host's own
  (\<open>from_ne_bytes\<close>), so every definition takes the endianness of the target. Lengths and
  offsets (\<open>usize\<close>) are naturals; the two places where a length is cut to fewer bits
  (\<open>as u16\<close> in \<open>build_message\<close>, \<open>as u32\<close> in \<open>put_str\<close> and \<open>put_array\<close>) are words.
\<close>

unbundle bit_operations_syntax

section \<open>Native-endian 32-bit words\<close>

datatype endianness = LittleEndian | BigEndian

fun from_le_bytes :: "byte list \<Rightarrow> u32" where
  "from_le_bytes [] = 0"
| "from_le_bytes (b # bs) = ucast b OR push_bit 8 (from_le_bytes bs)"

definition to_le_bytes :: "u32 \<Rightarrow> byte list" where
  "to_le_bytes v = [ucast v, ucast (drop_bit 8 v), ucast (drop_bit 16 v), ucast (drop_bit 24 v)]"

definition from_ne_bytes :: "endianness \<Rightarrow> byte list \<Rightarrow> u32" where
  "from_ne_bytes en bs = (case en of LittleEndian \<Rightarrow> from_le_bytes bs | BigEndian \<Rightarrow> from_le_bytes (rev bs))"

definition to_ne_bytes :: "endianness \<Rightarrow> u32 \<Rightarrow> byte list" where
  "to_ne_bytes en v = (case en of LittleEndian \<Rightarrow> to_le_bytes v | BigEndian \<Rightarrow> rev (to_le_bytes v))"

lemma from_le_to_le [simp]: "from_le_bytes (to_le_bytes v) = v"
proof (rule bit_word_eqI)
  fix n assume "n < LENGTH(32)"
  then consider "n < 8" | "8 \<le> n" "n < 16" | "16 \<le> n" "n < 24" | "24 \<le> n" "n < 32" by fastforce
  then show "bit (from_le_bytes (to_le_bytes v)) n = bit v n"
    by cases (auto simp: to_le_bytes_def bit_simps)
qed

lemma byte_no_high_bit: "8 \<le> n \<Longrightarrow> \<not> bit (b :: byte) n"
  using bit_imp_le_length [of b n] by auto

lemma to_le_from_le: "length bs = 4 \<Longrightarrow> to_le_bytes (from_le_bytes bs) = bs"
proof -
  assume "length bs = 4"
  then obtain a b c d where bs: "bs = [a, b, c, d]"
    by (auto simp: numeral_eq_Suc length_Suc_conv)
  show ?thesis unfolding bs to_le_bytes_def
    by (auto intro!: bit_word_eqI simp: bit_simps byte_no_high_bit)
qed

lemma length_to_ne_bytes [simp]: "length (to_ne_bytes en v) = 4"
  by (cases en) (simp_all add: to_ne_bytes_def to_le_bytes_def)

lemma from_ne_to_ne [simp]: "from_ne_bytes en (to_ne_bytes en v) = v"
  by (cases en) (simp_all add: to_ne_bytes_def from_ne_bytes_def)

lemma to_ne_from_ne: "length bs = 4 \<Longrightarrow> to_ne_bytes en (from_ne_bytes en bs) = bs"
  by (cases en) (simp_all add: to_ne_bytes_def from_ne_bytes_def to_le_from_le)

section \<open>Headers\<close>

definition HEADER_LEN :: nat where
  "HEADER_LEN = 8"

record message_header =
  sender_id :: u32
  opcode :: u16
  msg_length :: u16

definition parse_header :: "endianness \<Rightarrow> byte list \<Rightarrow> message_header option" where
  "parse_header en buf =
    (if length buf < HEADER_LEN then None
     else let sender = from_ne_bytes en (take 4 buf);
              word2 = from_ne_bytes en (take 4 (drop 4 buf))
          in Some \<lparr>sender_id = sender, opcode = ucast (word2 AND 0xffff), msg_length = ucast (drop_bit 16 word2)\<rparr>)"

definition message_len :: "message_header \<Rightarrow> nat" where
  "message_len h = unat (msg_length h)"

definition read_sender_id :: "endianness \<Rightarrow> byte list \<Rightarrow> u32 option" where
  "read_sender_id en msg = map_option (from_ne_bytes en) (get_range msg 0 4)"

text \<open>The error is the literal string of the source.\<close>

definition write_sender_id :: "endianness \<Rightarrow> byte list \<Rightarrow> u32 \<Rightarrow> string + byte list" where
  "write_sender_id en msg new_id =
    (case get_range msg 0 4 of
       None \<Rightarrow> Inl ''message shorter than a sender_id field''
     | Some _ \<Rightarrow> Inr (overwrite msg 0 (to_ne_bytes en new_id)))"

definition take_message :: "endianness \<Rightarrow> byte list \<Rightarrow> (byte list \<times> nat) option" where
  "take_message en buf =
    (case parse_header en buf of
       None \<Rightarrow> None
     | Some h \<Rightarrow>
         let len = message_len h in
         if len < HEADER_LEN \<or> length buf < len then None else Some (take len buf, len))"

section \<open>Encoding primitives\<close>

definition put_u32 :: "endianness \<Rightarrow> byte list \<Rightarrow> u32 \<Rightarrow> byte list" where
  "put_u32 en buf v = buf @ to_ne_bytes en v"

definition build_message :: "endianness \<Rightarrow> u32 \<Rightarrow> u16 \<Rightarrow> byte list \<Rightarrow> byte list" where
  "build_message en sender opc payload =
    (let len = (word_of_nat (HEADER_LEN + length payload) :: u16);
         msg = put_u32 en [] sender;
         msg = put_u32 en msg (push_bit 16 (ucast len) OR ucast opc)
     in msg @ payload)"

definition next_multiple_of_4 :: "nat \<Rightarrow> nat" where
  "next_multiple_of_4 n = (n + 3) div 4 * 4"

definition put_str :: "endianness \<Rightarrow> byte list \<Rightarrow> string \<Rightarrow> byte list" where
  "put_str en buf s =
    (let with_nul_len = length s + 1;
         padded = next_multiple_of_4 with_nul_len
     in put_u32 en buf (word_of_nat with_nul_len) @ bytes_of s @ [0] @ replicate (padded - with_nul_len) 0)"

definition put_array :: "endianness \<Rightarrow> byte list \<Rightarrow> byte list \<Rightarrow> byte list" where
  "put_array en buf bs =
    (let padded = next_multiple_of_4 (length bs)
     in put_u32 en buf (word_of_nat (length bs)) @ bs @ replicate (padded - length bs) 0)"

section \<open>Reading back\<close>

definition read_u32 :: "endianness \<Rightarrow> byte list \<Rightarrow> nat \<Rightarrow> u32 option" where
  "read_u32 en payload offset = map_option (from_ne_bytes en) (get_range payload offset (offset + 4))"

text \<open>
  \<open>str::from_utf8\<close>: well-formed UTF-8 (Unicode, Table 3-7), which the standard library
  checks byte by byte: no overlong forms, no surrogates, nothing above U+10FFFF.
\<close>

definition is_cont :: "byte \<Rightarrow> bool" where
  "is_cont b \<longleftrightarrow> 0x80 \<le> b \<and> b \<le> 0xBF"

definition ok_second_of_3 :: "byte \<Rightarrow> byte \<Rightarrow> bool" where
  "ok_second_of_3 b c \<longleftrightarrow>
    (if b = 0xE0 then 0xA0 \<le> c \<and> c \<le> 0xBF else if b = 0xED then 0x80 \<le> c \<and> c \<le> 0x9F else is_cont c)"

definition ok_second_of_4 :: "byte \<Rightarrow> byte \<Rightarrow> bool" where
  "ok_second_of_4 b c \<longleftrightarrow>
    (if b = 0xF0 then 0x90 \<le> c \<and> c \<le> 0xBF else if b = 0xF4 then 0x80 \<le> c \<and> c \<le> 0x8F else is_cont c)"

fun valid_utf8 :: "byte list \<Rightarrow> bool" where
  "valid_utf8 [] = True"
| "valid_utf8 (b # bs) =
    (if b < 0x80 then valid_utf8 bs
     else if 0xC2 \<le> b \<and> b \<le> 0xDF then
       (case bs of c # cs \<Rightarrow> is_cont c \<and> valid_utf8 cs | [] \<Rightarrow> False)
     else if 0xE0 \<le> b \<and> b \<le> 0xEF then
       (case bs of c # d # cs \<Rightarrow> ok_second_of_3 b c \<and> is_cont d \<and> valid_utf8 cs | _ \<Rightarrow> False)
     else if 0xF0 \<le> b \<and> b \<le> 0xF4 then
       (case bs of c # d # e # cs \<Rightarrow> ok_second_of_4 b c \<and> is_cont d \<and> is_cont e \<and> valid_utf8 cs | _ \<Rightarrow> False)
     else False)"

definition from_utf8 :: "byte list \<Rightarrow> string option" where
  "from_utf8 bs = (if valid_utf8 bs then Some (string_of bs) else None)"

definition read_str :: "endianness \<Rightarrow> byte list \<Rightarrow> nat \<Rightarrow> (string \<times> nat) option" where
  "read_str en payload offset =
    (case read_u32 en payload offset of
       None \<Rightarrow> None
     | Some w \<Rightarrow>
        let len = unat w; start = offset + 4 in
        (case get_range payload start (start + len) of
           None \<Rightarrow> None
         | Some bs \<Rightarrow>
            (case from_utf8 (take (len - 1) bs) of
               None \<Rightarrow> None
             | Some s \<Rightarrow> Some (s, start + next_multiple_of_4 len))))"

section \<open>Signature-checked argument encoding\<close>

datatype wayland_value =
    VInt i32
  | VUint u32
  | VFixed i32
  | VString string
  | VObject u32
  | VNewId u32
  | VArray "byte list"
  | VFd fd

datatype encode_error =
    CountMismatch nat nat
  | TypeMismatch nat argument_type wayland_value

fun encode_one :: "endianness \<Rightarrow> argument_type \<Rightarrow> wayland_value \<Rightarrow> byte list \<times> fd list \<Rightarrow> (byte list \<times> fd list) option" where
  "encode_one en ATInt (VInt v) (payload, fds) = Some (put_u32 en payload v, fds)"
| "encode_one en ATUint (VUint v) (payload, fds) = Some (put_u32 en payload v, fds)"
| "encode_one en ATFixed (VFixed v) (payload, fds) = Some (put_u32 en payload v, fds)"
| "encode_one en (ATStr _) (VString s) (payload, fds) = Some (put_str en payload s, fds)"
| "encode_one en (ATObject _) (VObject v) (payload, fds) = Some (put_u32 en payload v, fds)"
| "encode_one en ATNewId (VNewId v) (payload, fds) = Some (put_u32 en payload v, fds)"
| "encode_one en ATArray (VArray bs) (payload, fds) = Some (put_array en payload bs, fds)"
| "encode_one en ATFd (VFd f) (payload, fds) = Some (payload, fds @ [f])"
| "encode_one en _ _ _ = None"

fun encode_loop :: "endianness \<Rightarrow> nat \<Rightarrow> (argument_type \<times> wayland_value) list \<Rightarrow> byte list \<times> fd list
    \<Rightarrow> encode_error + (byte list \<times> fd list)" where
  "encode_loop en i [] acc = Inr acc"
| "encode_loop en i ((t, v) # rest) acc =
    (case encode_one en t v acc of
       None \<Rightarrow> Inl (TypeMismatch i t v)
     | Some acc' \<Rightarrow> encode_loop en (Suc i) rest acc')"

definition encode_arguments :: "endianness \<Rightarrow> argument_type list \<Rightarrow> wayland_value list
    \<Rightarrow> encode_error + (byte list \<times> fd list)" where
  "encode_arguments en sig values =
    (if length values \<noteq> length sig then Inl (CountMismatch (length sig) (length values))
     else encode_loop en 0 (zip sig values) ([], []))"

section \<open>Hex dump\<close>

definition hex_digit :: "nat \<Rightarrow> char" where
  "hex_digit n = (if n < 10 then char_of (48 + n) else char_of (87 + n))"

definition hex_encode :: "byte list \<Rightarrow> string" where
  "hex_encode bs = concat (map (\<lambda>b. [hex_digit (unat b div 16), hex_digit (unat b mod 16)]) bs)"

section \<open>Framing lemmas\<close>

lemma unat_word_of_nat_small: "n < 2 ^ LENGTH('a) \<Longrightarrow> unat (word_of_nat n :: 'a::len word) = n"
  by (simp add: unat_of_nat take_bit_nat_eq_self)

lemma parse_header_append [slice_simps]:
  "HEADER_LEN \<le> length buf \<Longrightarrow> parse_header en (buf @ rest) = parse_header en buf"
  by (simp add: parse_header_def HEADER_LEN_def)

lemma parse_header_None_iff: "parse_header en buf = None \<longleftrightarrow> length buf < HEADER_LEN"
  by (simp add: parse_header_def Let_def)

lemma header_word_low: "ucast ((push_bit 16 (ucast len) OR ucast opc) AND 0xffff :: u32) = (opc :: u16)"
  for len opc :: u16
proof (rule bit_word_eqI)
  fix n assume n: "n < LENGTH(16)"
  have m: "(0xffff :: u32) = mask 16" by (simp add: mask_eq_exp_minus_1)
  show "bit (ucast ((push_bit 16 (ucast len) OR ucast opc) AND 0xffff :: u32) :: u16) n = bit opc n"
    unfolding m using n by (auto simp: bit_simps)
qed

lemma header_word_high: "ucast (drop_bit 16 (push_bit 16 (ucast len) OR ucast opc :: u32)) = (len :: u16)"
  for len opc :: u16
proof (rule bit_word_eqI)
  fix n assume n: "n < LENGTH(16)"
  have "\<not> bit opc (16 + n)" using bit_imp_le_length [of opc "16 + n"] by auto
  then show "bit (ucast (drop_bit 16 (push_bit 16 (ucast len) OR ucast opc :: u32)) :: u16) n = bit len n"
    using n by (auto simp: bit_simps)
qed

lemma length_build_message [simp]: "length (build_message en s opc p) = HEADER_LEN + length p"
  by (simp add: build_message_def put_u32_def HEADER_LEN_def Let_def)

lemma drop_build_message [simp]: "drop HEADER_LEN (build_message en s opc p) = p"
  by (simp add: build_message_def put_u32_def HEADER_LEN_def Let_def)

lemma parse_build_message:
  "parse_header en (build_message en s opc p @ rest) =
     Some \<lparr>sender_id = s, opcode = opc, msg_length = word_of_nat (HEADER_LEN + length p)\<rparr>"
proof -
  define len :: u16 where "len = word_of_nat (HEADER_LEN + length p)"
  have "build_message en s opc p @ rest =
    to_ne_bytes en s @ to_ne_bytes en (push_bit 16 (ucast len) OR ucast opc) @ p @ rest"
    by (simp add: build_message_def put_u32_def Let_def len_def)
  then show ?thesis unfolding len_def [symmetric]
    by (simp add: parse_header_def HEADER_LEN_def Let_def header_word_low header_word_high
        del: drop_bit_or)
qed

lemma take_message_build:
  assumes "HEADER_LEN + length p < 2 ^ 16"
  shows "take_message en (build_message en s opc p @ rest) =
     Some (build_message en s opc p, HEADER_LEN + length p)"
proof -
  have l: "unat (word_of_nat (HEADER_LEN + length p) :: u16) = HEADER_LEN + length p"
    using assms by (intro unat_word_of_nat_small) simp
  have "length (build_message en s opc p @ rest) \<ge> HEADER_LEN + length p" by simp
  then show ?thesis
    by (simp add: take_message_def parse_build_message message_len_def l Let_def del: of_nat_add)
qed

lemma take_message_SomeD:
  assumes "take_message en buf = Some (msg, n)"
  shows "HEADER_LEN \<le> n" "n \<le> length buf" "msg = take n buf" "n < 2 ^ 16"
    "\<exists>h. parse_header en buf = Some h \<and> parse_header en msg = Some h \<and> message_len h = n"
proof -
  from assms obtain h where h: "parse_header en buf = Some h" and n: "n = message_len h"
    and ge: "HEADER_LEN \<le> n" and le: "n \<le> length buf" and msg: "msg = take n buf"
    by (auto simp: take_message_def Let_def split: option.splits if_splits)
  have "parse_header en buf = parse_header en (take n buf @ drop n buf)" by simp
  also have "\<dots> = parse_header en (take n buf)"
    using ge le by (intro parse_header_append) simp
  finally have "parse_header en msg = Some h" using h msg by simp
  then show "HEADER_LEN \<le> n" "n \<le> length buf" "msg = take n buf"
    "\<exists>h. parse_header en buf = Some h \<and> parse_header en msg = Some h \<and> message_len h = n"
    using h n ge le msg by auto
  show "n < 2 ^ 16" using unsigned_less [of "msg_length h", where ?'a = nat] n
    by (simp add: message_len_def)
qed

lemma take_message_append:
  assumes "take_message en buf = Some (msg, n)"
  shows "take_message en (buf @ rest) = Some (msg, n)"
proof -
  from assms obtain h where h: "parse_header en buf = Some h" and n: "n = message_len h"
    and ge: "HEADER_LEN \<le> n" and le: "n \<le> length buf" and msg: "msg = take n buf"
    by (auto simp: take_message_def Let_def split: option.splits if_splits)
  have "parse_header en (buf @ rest) = Some h"
    using h ge le by (simp add: parse_header_append)
  then show ?thesis using n ge le msg by (auto simp: take_message_def Let_def)
qed

text \<open>A header that declares fewer bytes than a header has blocks the stream for good.\<close>

lemma take_message_short_length:
  assumes "parse_header en buf = Some h" "message_len h < HEADER_LEN"
  shows "take_message en (buf @ rest) = None"
proof -
  have "HEADER_LEN \<le> length buf"
    using assms(1) parse_header_None_iff [of en buf] by (cases "length buf < HEADER_LEN") auto
  then show ?thesis using assms by (simp add: take_message_def parse_header_append)
qed

lemma read_sender_id_header:
  "parse_header en msg = Some h \<Longrightarrow> read_sender_id en msg = Some (sender_id h)"
  by (auto simp: parse_header_def read_sender_id_def get_range_def HEADER_LEN_def Let_def
      split: if_splits)

lemma write_sender_id_ok:
  "HEADER_LEN \<le> length msg \<Longrightarrow> write_sender_id en msg v = Inr (to_ne_bytes en v @ drop 4 msg)"
  by (simp add: write_sender_id_def get_range_def HEADER_LEN_def overwrite_def)

text \<open>Rewriting the sender keeps opcode, length and payload.\<close>

lemma parse_header_write_sender:
  assumes "parse_header en msg = Some h" "write_sender_id en msg v = Inr msg'"
  shows "parse_header en msg' = Some (h\<lparr>sender_id := v\<rparr>)"
    and "drop HEADER_LEN msg' = drop HEADER_LEN msg" and "length msg' = length msg"
  using assms
  by (auto simp: parse_header_def write_sender_id_def get_range_def HEADER_LEN_def overwrite_def
      Let_def split: if_splits)

section \<open>Round trips of the primitives\<close>

lemma put_u32_append: "put_u32 en buf v = buf @ put_u32 en [] v"
  by (simp add: put_u32_def)

lemma put_str_append: "put_str en buf s = buf @ put_str en [] s"
  by (simp add: put_str_def put_u32_def Let_def)

lemma put_array_append: "put_array en buf bs = buf @ put_array en [] bs"
  by (simp add: put_array_def put_u32_def Let_def)

lemma length_put_u32 [simp]: "length (put_u32 en buf v) = length buf + 4"
  by (simp add: put_u32_def)

lemma next_multiple_of_4_bounds:
  "n \<le> next_multiple_of_4 n" "next_multiple_of_4 n < n + 4" "next_multiple_of_4 n mod 4 = 0"
  unfolding next_multiple_of_4_def by presburger+

lemma length_put_str [simp]:
  "length (put_str en buf s) = length buf + 4 + next_multiple_of_4 (length s + 1)"
  using next_multiple_of_4_bounds(1) [of "length s + 1"] by (simp add: put_str_def Let_def)

lemma length_put_array [simp]:
  "length (put_array en buf bs) = length buf + 4 + next_multiple_of_4 (length bs)"
  using next_multiple_of_4_bounds(1) [of "length bs"] by (simp add: put_array_def Let_def)

lemma read_u32_put:
  "read_u32 en (put_u32 en buf v @ rest) (length buf) = Some v"
  by (simp add: read_u32_def put_u32_def get_range_def)

lemma read_u32_append:
  "offset + 4 \<le> length payload \<Longrightarrow> read_u32 en (payload @ rest) offset = read_u32 en payload offset"
  by (simp add: read_u32_def slice_simps)

lemma read_u32_drop:
  "n \<le> length xs \<Longrightarrow> read_u32 en (drop n xs) offset = read_u32 en xs (n + offset)"
  by (auto simp: read_u32_def get_range_def add.assoc add.commute)

lemma read_u32_None_iff: "read_u32 en payload offset = None \<longleftrightarrow> length payload < offset + 4"
  by (auto simp: read_u32_def get_range_def)

lemma read_u32_overwrite:
  "a + 4 \<le> length msg \<Longrightarrow> read_u32 en (overwrite msg a (to_ne_bytes en v)) a = Some v"
  by (simp add: read_u32_def overwrite_same_range [where new = "to_ne_bytes en v", simplified])

lemma read_u32_overwrite_other:
  assumes "a + 4 \<le> length msg" "c + 4 \<le> a \<or> a + 4 \<le> c"
  shows "read_u32 en (overwrite msg a (to_ne_bytes en v)) c = read_u32 en msg c"
  using assms overwrite_other_range [of a "to_ne_bytes en v" msg c 4]
  by (simp add: read_u32_def)

lemma from_utf8_bytes_of: "valid_utf8 (bytes_of s) \<Longrightarrow> from_utf8 (bytes_of s) = Some s"
  by (simp add: from_utf8_def)

lemma from_utf8_SomeD: "from_utf8 bs = Some s \<Longrightarrow> bs = bytes_of s \<and> valid_utf8 (bytes_of s)"
  by (auto simp: from_utf8_def split: if_splits)

lemma read_str_put:
  assumes "length s + 1 < 2 ^ 32" "valid_utf8 (bytes_of s)"
  shows "read_str en (put_str en buf s @ rest) (length buf) =
    Some (s, length buf + 4 + next_multiple_of_4 (length s + 1))"
proof -
  let ?n = "length s + 1"
  let ?tl = "replicate (next_multiple_of_4 ?n - ?n) 0"
  have n: "unat (word_of_nat ?n :: u32) = ?n"
    using assms(1) by (intro unat_word_of_nat_small) simp
  have e: "put_str en buf s @ rest = put_u32 en buf (word_of_nat ?n) @ (bytes_of s @ [0]) @ ?tl @ rest"
    by (simp add: put_str_def Let_def)
  have r: "read_u32 en (put_str en buf s @ rest) (length buf) = Some (word_of_nat ?n)"
    unfolding e by (rule read_u32_put)
  have g: "get_range (put_str en buf s @ rest) (length buf + 4) (length buf + 4 + ?n) = Some (bytes_of s @ [0])"
    unfolding e by (rule get_range_append2) simp_all
  show ?thesis
    using n g by (simp add: read_str_def r Let_def assms from_utf8_bytes_of del: of_nat_Suc of_nat_add)
qed

lemma valid_utf8_ascii: "\<forall>b \<in> set bs. b < 0x80 \<Longrightarrow> valid_utf8 bs"
  by (induction bs) auto

section \<open>What the encoder produces\<close>

fun value_matches :: "argument_type \<Rightarrow> wayland_value \<Rightarrow> bool" where
  "value_matches ATInt (VInt _) = True"
| "value_matches ATUint (VUint _) = True"
| "value_matches ATFixed (VFixed _) = True"
| "value_matches (ATStr _) (VString _) = True"
| "value_matches (ATObject _) (VObject _) = True"
| "value_matches ATNewId (VNewId _) = True"
| "value_matches ATArray (VArray _) = True"
| "value_matches ATFd (VFd _) = True"
| "value_matches _ _ = False"

fun value_bytes :: "endianness \<Rightarrow> wayland_value \<Rightarrow> byte list" where
  "value_bytes en (VInt v) = put_u32 en [] v"
| "value_bytes en (VUint v) = put_u32 en [] v"
| "value_bytes en (VFixed v) = put_u32 en [] v"
| "value_bytes en (VString s) = put_str en [] s"
| "value_bytes en (VObject v) = put_u32 en [] v"
| "value_bytes en (VNewId v) = put_u32 en [] v"
| "value_bytes en (VArray bs) = put_array en [] bs"
| "value_bytes en (VFd f) = []"

fun value_fds :: "wayland_value \<Rightarrow> fd list" where
  "value_fds (VFd f) = [f]"
| "value_fds _ = []"

lemma encode_one_eq:
  "encode_one en t v (p, fs) =
    (if value_matches t v then Some (p @ value_bytes en v, fs @ value_fds v) else None)"
  by (cases t; cases v) (simp_all add: put_u32_append [of en p] put_str_append [of en p] put_array_append [of en p])

lemma encode_loop_Inr_iff:
  "encode_loop en i tvs (p, fs) = Inr r \<longleftrightarrow>
    (\<forall>(t, v) \<in> set tvs. value_matches t v) \<and>
    r = (p @ concat (map (value_bytes en \<circ> snd) tvs), fs @ concat (map (value_fds \<circ> snd) tvs))"
proof (induction tvs arbitrary: i p fs)
  case (Cons tv tvs)
  obtain t v where tv: "tv = (t, v)" by fastforce
  show ?case by (auto simp: tv encode_one_eq Cons.IH)
qed auto

lemma encode_arguments_Inr_iff:
  "encode_arguments en sig values = Inr (payload, fds) \<longleftrightarrow>
    list_all2 value_matches sig values \<and>
    payload = concat (map (value_bytes en) values) \<and> fds = concat (map value_fds values)"
proof (cases "length values = length sig")
  case True
  then have "map (value_bytes en \<circ> snd) (zip sig values) = map (value_bytes en) values"
    "map (value_fds \<circ> snd) (zip sig values) = map value_fds values"
    by (simp_all flip: map_map)
  with True show ?thesis
    by (auto simp: encode_arguments_def encode_loop_Inr_iff list_all2_iff)
next
  case False
  then show ?thesis by (auto simp: encode_arguments_def list_all2_iff)
qed

text \<open>The loop reports the first mismatch.\<close>

lemma encode_loop_InlD:
  assumes "encode_loop en i tvs acc = Inl e"
  shows "\<exists>j < length tvs. e = TypeMismatch (i + j) (fst (tvs ! j)) (snd (tvs ! j)) \<and>
    \<not> value_matches (fst (tvs ! j)) (snd (tvs ! j)) \<and>
    (\<forall>k < j. value_matches (fst (tvs ! k)) (snd (tvs ! k)))"
  using assms
proof (induction tvs arbitrary: i acc)
  case (Cons tv tvs)
  obtain t v p fs where tv: "tv = (t, v)" and acc: "acc = (p, fs)" by fastforce
  show ?case
  proof (cases "value_matches t v")
    case True
    with Cons.prems have "encode_loop en (Suc i) tvs (p @ value_bytes en v, fs @ value_fds v) = Inl e"
      by (simp add: tv acc encode_one_eq)
    from Cons.IH [OF this] obtain j where "j < length tvs"
      "e = TypeMismatch (Suc i + j) (fst (tvs ! j)) (snd (tvs ! j))"
      "\<not> value_matches (fst (tvs ! j)) (snd (tvs ! j))"
      "\<forall>k < j. value_matches (fst (tvs ! k)) (snd (tvs ! k))" by blast
    then show ?thesis using True
      by (intro exI [of _ "Suc j"]) (auto simp: tv less_Suc_eq_0_disj)
  next
    case False
    with Cons.prems show ?thesis by (intro exI [of _ 0]) (simp add: tv acc encode_one_eq)
  qed
qed simp

text \<open>Strings survive the wire: a valid UTF-8 string that was put is read back, and the reader stops after the
  padding, at a multiple of four.\<close>

lemma string_round_trip:
  assumes "length str + 1 < 2 ^ 32" "valid_utf8 (bytes_of str)"
  shows "read_str en (put_str en buf str @ rest) (length buf) = Some (str, length (put_str en buf str)) \<and>
    (length (put_str en buf str) - length buf) mod 4 = 0"
  using read_str_put [OF assms, of en buf rest] next_multiple_of_4_bounds(3) [of "length str + 1"]
  by (simp add: mod_add_eq [symmetric, of 4])

end
