(* ===== verification/DesktopApps.thy ===== *)
theory DesktopApps
  imports Wire "HOL-Library.Sublist"
begin

text \<open>
  \<open>src/desktop_apps.rs\<close>: the index of installed applications that corrects an unknown
  application id. Directories are read by the operating system, so the index is built from
  their listings, in order: a directory that cannot be read, or its entries with the file
  contents that could be read. The standard library's \<open>str::trim\<close>, \<open>str::lines\<close>,
  \<open>split_whitespace\<close>, \<open>Path::file_name\<close>, \<open>extension\<close> and \<open>file_stem\<close> are modelled on UTF-8
  bytes. The target of \<open>/proc/<pid>/exe\<close> is a function of the environment.
\<close>

section \<open>Strings and paths of the standard library\<close>

text \<open>The UTF-8 forms of the characters with the property White_Space.\<close>

definition white_space :: "string list" where
  "white_space = [[CHR 0x09], [CHR 0x0A], [CHR 0x0B], [CHR 0x0C], [CHR 0x0D], [CHR 0x20],
    [CHR 0xC2, CHR 0x85], [CHR 0xC2, CHR 0xA0], [CHR 0xE1, CHR 0x9A, CHR 0x80],
    [CHR 0xE2, CHR 0x80, CHR 0x80], [CHR 0xE2, CHR 0x80, CHR 0x81], [CHR 0xE2, CHR 0x80, CHR 0x82],
    [CHR 0xE2, CHR 0x80, CHR 0x83], [CHR 0xE2, CHR 0x80, CHR 0x84], [CHR 0xE2, CHR 0x80, CHR 0x85],
    [CHR 0xE2, CHR 0x80, CHR 0x86], [CHR 0xE2, CHR 0x80, CHR 0x87], [CHR 0xE2, CHR 0x80, CHR 0x88],
    [CHR 0xE2, CHR 0x80, CHR 0x89], [CHR 0xE2, CHR 0x80, CHR 0x8A], [CHR 0xE2, CHR 0x80, CHR 0xA8],
    [CHR 0xE2, CHR 0x80, CHR 0xA9], [CHR 0xE2, CHR 0x80, CHR 0xAF], [CHR 0xE2, CHR 0x81, CHR 0x9F],
    [CHR 0xE3, CHR 0x80, CHR 0x80]]"

definition leading :: "string list \<Rightarrow> string \<Rightarrow> nat" where
  "leading ws s = (case List.find (\<lambda>w. prefix w s) ws of None \<Rightarrow> 0 | Some w \<Rightarrow> length w)"

function strip_leading :: "string list \<Rightarrow> string \<Rightarrow> string" where
  "strip_leading ws s = (if leading ws s = 0 \<or> s = [] then s else strip_leading ws (drop (leading ws s) s))"
  by pat_completeness auto
termination by (relation "measure (\<lambda>(ws, s). length s)") auto

declare strip_leading.simps [simp del]

definition trim_start :: "string \<Rightarrow> string" where
  "trim_start s = strip_leading white_space s"

definition trim_str :: "string \<Rightarrow> string" where
  "trim_str s = rev (strip_leading (map rev white_space) (rev (trim_start s)))"

fun token :: "string \<Rightarrow> string" where
  "token [] = []"
| "token (c # cs) = (if leading white_space (c # cs) \<noteq> 0 then [] else c # token cs)"

text \<open>\<open>split_whitespace().next()\<close>.\<close>

definition first_token :: "string \<Rightarrow> string option" where
  "first_token s = (case trim_start s of [] \<Rightarrow> None | c # cs \<Rightarrow> Some (token (c # cs)))"

fun split_on :: "char \<Rightarrow> string \<Rightarrow> string list" where
  "split_on d [] = [[]]"
| "split_on d (c # cs) =
    (if c = d then [] # split_on d cs
     else (case split_on d cs of [] \<Rightarrow> [[c]] | l # ls \<Rightarrow> (c # l) # ls))"

definition strip_cr :: "string \<Rightarrow> string" where
  "strip_cr l = (if l \<noteq> [] \<and> last l = CHR 0x0D then butlast l else l)"

text \<open>\<open>str::lines\<close>: a final newline does not start another line, and a carriage return before a
  newline belongs to it.\<close>

definition str_lines :: "string \<Rightarrow> string list" where
  "str_lines s = (let ls = split_on (CHR 0x0A) s
                  in map strip_cr (butlast ls) @ (if last ls = [] then [] else [last ls]))"

definition file_name :: "string \<Rightarrow> string option" where
  "file_name path =
    (case filter (\<lambda>c. c \<noteq> [] \<and> c \<noteq> ''.'') (split_on (CHR ''/'') path) of
       [] \<Rightarrow> None
     | c # cs \<Rightarrow> if last (c # cs) = ''..'' then None else Some (last (c # cs)))"

definition to_str :: "string \<Rightarrow> string option" where
  "to_str s = from_utf8 (bytes_of s)"

text \<open>The stem and the extension of a file name: the last dot separates them, unless it is the
  first character.\<close>

definition split_extension :: "string \<Rightarrow> string \<times> string option" where
  "split_extension name =
    (let ext = takeWhile (\<lambda>c. c \<noteq> CHR ''.'') (rev name);
         stem = drop (Suc (length ext)) (rev name)
     in if stem = [] then (name, None) else (rev stem, Some (rev ext)))"

section \<open>The index\<close>

record desktop_app_index =
  app_ids :: "string hash_set"
  by_binary :: "(string, string) hash_map"

definition in_brackets :: "string \<Rightarrow> string option" where
  "in_brackets line =
    (case line of
       [] \<Rightarrow> None
     | c # s \<Rightarrow> if c = CHR ''['' \<and> s \<noteq> [] \<and> last s = CHR '']'' then Some (butlast s) else None)"

fun main_entry_loop :: "bool \<Rightarrow> string list \<Rightarrow> string option" where
  "main_entry_loop in_main [] = None"
| "main_entry_loop in_main (line # rest) =
    (let line = trim_str line in
     case in_brackets line of
       Some grp \<Rightarrow> main_entry_loop (grp = ''Desktop Entry'') rest
     | None \<Rightarrow>
        if in_main \<and> prefix ''Exec='' line then Some (drop 5 line)
        else main_entry_loop in_main rest)"

definition main_entry_exec :: "string \<Rightarrow> string option" where
  "main_entry_exec content = main_entry_loop False (str_lines content)"

definition exec_binary_name :: "string \<Rightarrow> string option" where
  "exec_binary_name exec =
    Option.bind (first_token exec) (\<lambda>first1. Option.bind (file_name first1) to_str)"

definition add_entry :: "string \<times> byte list option \<Rightarrow> desktop_app_index \<Rightarrow> desktop_app_index" where
  "add_entry e idx =
    (case e of (name, content) \<Rightarrow>
       (case split_extension name of (stem, ext) \<Rightarrow>
          if ext \<noteq> Some ''desktop'' then idx
          else (case to_str stem of
             None \<Rightarrow> idx
           | Some app \<Rightarrow>
              let idx =
                (case Option.bind (Option.bind (Option.bind content from_utf8) main_entry_exec) exec_binary_name of
                   None \<Rightarrow> idx
                 | Some binary \<Rightarrow>
                    (case hm_get (by_binary idx) binary of
                       Some _ \<Rightarrow> idx
                     | None \<Rightarrow> idx\<lparr>by_binary := hm_insert binary app (by_binary idx)\<rparr>))
              in idx\<lparr>app_ids := List.insert app (app_ids idx)\<rparr>)))"

definition build_from_dirs :: "(string \<times> byte list option) list option list \<Rightarrow> desktop_app_index" where
  "build_from_dirs dirs =
    fold (\<lambda>d idx. case d of None \<Rightarrow> idx | Some entries \<Rightarrow> fold add_entry entries idx) dirs
      \<lparr>app_ids = [], by_binary = []\<rparr>"

definition has_id :: "desktop_app_index \<Rightarrow> string \<Rightarrow> bool" where
  "has_id idx app \<longleftrightarrow> app \<in> set (app_ids idx)"

definition resolve_by_binary :: "desktop_app_index \<Rightarrow> string \<Rightarrow> string option" where
  "resolve_by_binary idx binary = hm_get (by_binary idx) binary"

definition binary_name_for_pid :: "(int \<Rightarrow> string option) \<Rightarrow> int \<Rightarrow> string option" where
  "binary_name_for_pid exe_link pid =
    Option.bind (exe_link pid) (\<lambda>exe. Option.bind (file_name exe) to_str)"

section \<open>Facts\<close>

text \<open>Every binary resolves to an installed id.\<close>

definition index_ok :: "desktop_app_index \<Rightarrow> bool" where
  "index_ok idx \<longleftrightarrow> (\<forall>b app. resolve_by_binary idx b = Some app \<longrightarrow> has_id idx app)"

lemma index_ok_add_entry: "index_ok idx \<Longrightarrow> index_ok (add_entry e idx)"
  by (auto simp: index_ok_def add_entry_def resolve_by_binary_def has_id_def Let_def
      split: prod.splits option.splits if_splits)

lemma index_ok_entries: "index_ok idx \<Longrightarrow> index_ok (fold add_entry entries idx)"
  by (induction entries arbitrary: idx) (auto simp: index_ok_add_entry)

lemma index_ok_build: "index_ok (build_from_dirs dirs)"
proof -
  have "index_ok idx \<Longrightarrow> index_ok
    (fold (\<lambda>d idx. case d of None \<Rightarrow> idx | Some entries \<Rightarrow> fold add_entry entries idx) dirs idx)" for idx
    by (induction dirs arbitrary: idx) (auto simp: index_ok_entries split: option.splits)
  then show ?thesis by (simp add: build_from_dirs_def index_ok_def resolve_by_binary_def)
qed

text \<open>The first file that declares a binary keeps it.\<close>

lemma resolve_add_entry:
  "resolve_by_binary idx b = Some app \<Longrightarrow> resolve_by_binary (add_entry e idx) b = Some app"
  by (auto simp: add_entry_def resolve_by_binary_def Let_def split: prod.splits option.splits if_splits)

lemma resolve_entries:
  "resolve_by_binary idx b = Some app \<Longrightarrow> resolve_by_binary (fold add_entry entries idx) b = Some app"
  by (induction entries arbitrary: idx) (auto simp: resolve_add_entry)

text \<open>So reading more directories keeps what is there.\<close>

lemma resolve_more_dirs:
  "resolve_by_binary (build_from_dirs dirs) b = Some app \<Longrightarrow> resolve_by_binary (build_from_dirs (dirs @ others)) b = Some app"
proof -
  have "resolve_by_binary idx b = Some app \<Longrightarrow> resolve_by_binary
    (fold (\<lambda>d idx. case d of None \<Rightarrow> idx | Some entries \<Rightarrow> fold add_entry entries idx) others idx) b = Some app" for idx
    by (induction others arbitrary: idx) (auto simp: resolve_entries split: option.splits)
  then show "resolve_by_binary (build_from_dirs dirs) b = Some app \<Longrightarrow>
    resolve_by_binary (build_from_dirs (dirs @ others)) b = Some app"
    by (simp add: build_from_dirs_def)
qed

end
