(* ===== verification/Connection.thy ===== *)
theory Connection
  imports Wire
begin

text \<open>
  \<open>src/fdsocket.rs\<close> and the \<open>Conn\<close> of \<open>src/lib.rs\<close>. The socket is the operating system's: what
  \<open>recvmsg\<close> and \<open>sendmsg\<close> will answer is a script kept in the connection, and every accepted
  \<open>sendmsg\<close> is appended to a log of bytes and descriptors. An exhausted receive script means
  that nothing ever arrives; an exhausted send script that the kernel takes everything at once.
  \<open>RecvStall\<close> marks the moment the five-second deadline of a timed wait passes; an untimed
  wait ignores it. The lemmas show that a successful \<open>write_message\<close> puts exactly the message
  on the wire, whatever the partial writes, and that the descriptors ride with its first bytes.
\<close>

section \<open>Sockets with descriptors\<close>

datatype cmsg = ScmRights "fd list" | OtherCmsg

datatype recv_outcome = RecvMsg "byte list" "cmsg list" | RecvWouldBlock | RecvError | RecvStall

datatype send_outcome = SendAccepted nat | SendWouldBlock | SendError

definition MAX_FDS_PER_RECV :: nat where
  "MAX_FDS_PER_RECV = 28"

fun scm_fds :: "cmsg list \<Rightarrow> fd list" where
  "scm_fds [] = []"
| "scm_fds (ScmRights fds # cs) = fds @ scm_fds cs"
| "scm_fds (OtherCmsg # cs) = scm_fds cs"

definition recv_with_fds :: "byte list \<Rightarrow> cmsg list \<Rightarrow> nat \<times> fd list" where
  "recv_with_fds bytes cmsgs = (length bytes, scm_fds cmsgs)"

text \<open>The control messages of one \<open>sendmsg\<close>.\<close>

definition send_cmsgs :: "fd list \<Rightarrow> cmsg list" where
  "send_cmsgs fds = (if fds = [] then [] else [ScmRights fds])"

section \<open>Connections\<close>

record conn =
  read_buf :: "byte list"
  read_fds :: "fd list"
  recv_script :: "recv_outcome list"
  send_script :: "send_outcome list"
  sent_log :: "(byte list \<times> cmsg list) list"

definition conn_new :: "recv_outcome list \<Rightarrow> send_outcome list \<Rightarrow> conn" where
  "conn_new rs ss = \<lparr>read_buf = [], read_fds = [], recv_script = rs, send_script = ss, sent_log = []\<rparr>"

datatype fill_result = FillEof | FillRead nat | FillError | FillBlocked

fun fill_loop :: "bool \<Rightarrow> recv_outcome list \<Rightarrow> conn \<Rightarrow> fill_result \<times> conn" where
  "fill_loop timed [] c = (FillBlocked, c\<lparr>recv_script := []\<rparr>)"
| "fill_loop timed (RecvWouldBlock # rs) c = fill_loop timed rs c"
| "fill_loop timed (RecvStall # rs) c =
    (if timed then (FillBlocked, c\<lparr>recv_script := rs\<rparr>) else fill_loop timed rs c)"
| "fill_loop timed (RecvError # rs) c = (FillError, c\<lparr>recv_script := rs\<rparr>)"
| "fill_loop timed (RecvMsg bytes cmsgs # rs) c =
    (case recv_with_fds bytes cmsgs of (n, fds) \<Rightarrow>
       if n = 0 then (FillEof, c\<lparr>recv_script := rs\<rparr>)
       else (FillRead n, c\<lparr>read_buf := read_buf c @ bytes, read_fds := read_fds c @ fds, recv_script := rs\<rparr>))"

definition fill :: "bool \<Rightarrow> conn \<Rightarrow> fill_result \<times> conn" where
  "fill timed c = fill_loop timed (recv_script c) c"

text \<open>\<open>write_message\<close>: \<open>sent\<close> counts the bytes that went out; the descriptors are attached while
  it is zero. The result says whether the whole message was taken.\<close>

fun write_loop :: "send_outcome list \<Rightarrow> byte list \<Rightarrow> fd list \<Rightarrow> nat \<Rightarrow> (byte list \<times> cmsg list) list
    \<Rightarrow> bool \<times> send_outcome list \<times> (byte list \<times> cmsg list) list" where
  "write_loop [] msg fds sent log =
    (if sent < length msg
     then (True, [], log @ [(drop sent msg, send_cmsgs (if sent = 0 then fds else []))])
     else (True, [], log))"
| "write_loop (o1 # os) msg fds sent log =
    (if sent < length msg then
       (case o1 of
          SendWouldBlock \<Rightarrow> write_loop os msg fds sent log
        | SendError \<Rightarrow> (False, os, log)
        | SendAccepted n \<Rightarrow>
            let k = min n (length msg - sent) in
            write_loop os msg fds (sent + k)
              (log @ [(take k (drop sent msg), send_cmsgs (if sent = 0 then fds else []))]))
     else (True, o1 # os, log))"

definition write_message :: "byte list \<Rightarrow> fd list \<Rightarrow> conn \<Rightarrow> bool \<times> conn" where
  "write_message msg fds c =
    (case write_loop (send_script c) msg fds 0 (sent_log c) of
       (ok, ss, log) \<Rightarrow> (ok, c\<lparr>send_script := ss, sent_log := log\<rparr>))"

text \<open>\<open>next_message\<close>: the next complete message, filling only when the buffer holds none.\<close>

datatype next_result = NextMsg message_header "byte list" | NextError | NextBlocked

lemma fill_loop_decreases:
  "fill_loop timed rs c = (FillRead n, c') \<Longrightarrow> length (recv_script c') < length rs"
  by (induction timed rs c rule: fill_loop.induct)
    (auto split: if_splits prod.splits simp: recv_with_fds_def)

lemma fill_decreases: "fill timed c = (FillRead n, c') \<Longrightarrow> length (recv_script c') < length (recv_script c)"
  unfolding fill_def by (rule fill_loop_decreases)

function next_message :: "endianness \<Rightarrow> bool \<Rightarrow> conn \<Rightarrow> next_result \<times> conn" where
  "next_message en timed c =
    (case take_message en (read_buf c) of
       Some (_, consumed) \<Rightarrow>
         let msg = take consumed (read_buf c) in
         (case parse_header en msg of
            Some h \<Rightarrow> (NextMsg h msg, c\<lparr>read_buf := drop consumed (read_buf c)\<rparr>)
          | None \<Rightarrow> (NextError, c))
     | None \<Rightarrow>
         (case fill timed c of
            (FillRead n, c') \<Rightarrow> next_message en timed c'
          | (FillEof, c') \<Rightarrow> (NextError, c')
          | (FillError, c') \<Rightarrow> (NextError, c')
          | (FillBlocked, c') \<Rightarrow> (NextBlocked, c')))"
  by pat_completeness auto
termination
  by (relation "measure (\<lambda>(en, timed, c). length (recv_script c))") (auto intro: fill_decreases [OF sym])

declare next_message.simps [simp del]

section \<open>Writes put the message on the wire\<close>

definition sent_bytes :: "conn \<Rightarrow> byte list" where
  "sent_bytes c = concat (map fst (sent_log c))"

definition sent_fds :: "conn \<Rightarrow> fd list" where
  "sent_fds c = concat (map (scm_fds \<circ> snd) (sent_log c))"

lemma scm_fds_send [simp]: "scm_fds (send_cmsgs fds) = fds"
  by (simp add: send_cmsgs_def)

text \<open>The pieces of one write: together a prefix of the message, all of it on success, and a piece
  that carries descriptors has nothing of the message before it.\<close>

lemma write_loop_pieces:
  assumes "write_loop ss msg fds sent log = (ok, ss', log')" "sent \<le> length msg"
  shows "\<exists>ext rest. log' = log @ ext \<and> drop sent msg = concat (map fst ext) @ rest \<and> (ok \<longrightarrow> rest = []) \<and>
    (\<forall>i < length ext. snd (ext ! i) \<noteq> [] \<longrightarrow>
       snd (ext ! i) = send_cmsgs fds \<and> sent = 0 \<and> concat (map fst (take i ext)) = [])"
  using assms
proof (induction ss msg fds sent log rule: write_loop.induct)
  case (1 msg fds sent log)
  show ?case
  proof (cases "sent < length msg")
    case True
    then show ?thesis using 1
      by (intro exI [of _ "[(drop sent msg, send_cmsgs (if sent = 0 then fds else []))]"] exI [of _ "[]"])
        (auto simp: send_cmsgs_def)
  qed (use 1 in auto)
next
  case (2 o1 os msg fds sent log)
  show ?case
  proof (cases "sent < length msg")
    case False
    then show ?thesis using 2 by auto
  next
    case True
    show ?thesis
    proof (cases o1)
      case (SendAccepted n)
      let ?k = "min n (length msg - sent)"
      let ?e = "(take ?k (drop sent msg), send_cmsgs (if sent = 0 then fds else []))"
      have "write_loop os msg fds (sent + ?k) (log @ [?e]) = (ok, ss', log')"
        using 2 True SendAccepted by (simp add: Let_def)
      moreover have "sent + ?k \<le> length msg" using True by simp
      ultimately obtain ext rest where
        e: "log' = (log @ [?e]) @ ext" "drop (sent + ?k) msg = concat (map fst ext) @ rest" "ok \<longrightarrow> rest = []"
        "\<forall>i < length ext. snd (ext ! i) \<noteq> [] \<longrightarrow>
          snd (ext ! i) = send_cmsgs fds \<and> sent + ?k = 0 \<and> concat (map fst (take i ext)) = []"
        using 2(1) [OF True SendAccepted refl] by blast
      have d: "drop sent msg = take ?k (drop sent msg) @ drop (sent + ?k) msg"
        by (metis append_take_drop_id drop_drop add.commute)
      show ?thesis
      proof (intro exI conjI)
        show "log' = log @ (?e # ext)" using e(1) by simp
        show "drop sent msg = concat (map fst (?e # ext)) @ rest" using e(2) d by simp
        show "ok \<longrightarrow> rest = []" by (rule e(3))
        show "\<forall>i < length (?e # ext). snd ((?e # ext) ! i) \<noteq> [] \<longrightarrow>
          snd ((?e # ext) ! i) = send_cmsgs fds \<and> sent = 0 \<and> concat (map fst (take i (?e # ext))) = []"
        proof (intro allI impI)
          fix i assume i: "i < length (?e # ext)" "snd ((?e # ext) ! i) \<noteq> []"
          show "snd ((?e # ext) ! i) = send_cmsgs fds \<and> sent = 0 \<and> concat (map fst (take i (?e # ext))) = []"
          proof (cases i)
            case 0
            then show ?thesis using i by (auto simp: send_cmsgs_def split: if_splits)
          next
            case (Suc j)
            with i have "j < length ext" "snd (ext ! j) \<noteq> []" by simp_all
            with e(4) have "snd (ext ! j) = send_cmsgs fds \<and> sent + ?k = 0 \<and> concat (map fst (take j ext)) = []"
              by blast
            then show ?thesis using Suc by (cases "sent = 0") auto
          qed
        qed
      qed
    qed (use 2 True in auto)
  qed
qed

lemma write_message_pieces:
  assumes "write_message msg fds c = (ok, c')"
  shows "\<exists>ext rest. sent_log c' = sent_log c @ ext \<and> msg = concat (map fst ext) @ rest \<and> (ok \<longrightarrow> rest = []) \<and>
    (\<forall>i < length ext. snd (ext ! i) \<noteq> [] \<longrightarrow> snd (ext ! i) = send_cmsgs fds \<and> concat (map fst (take i ext)) = [])"
proof -
  obtain ss' log' where w: "write_loop (send_script c) msg fds 0 (sent_log c) = (ok, ss', log')"
    and "c' = c\<lparr>send_script := ss', sent_log := log'\<rparr>"
    using assms by (auto simp: write_message_def split: prod.splits)
  with write_loop_pieces [OF w] show ?thesis by simp
qed

lemma write_message_frame:
  assumes "write_message msg fds c = (ok, c')"
  shows "read_buf c' = read_buf c" "read_fds c' = read_fds c" "recv_script c' = recv_script c"
    "\<exists>ext. sent_log c' = sent_log c @ ext \<and> (ok \<longrightarrow> concat (map fst ext) = msg) \<and>
      (\<exists>rest. msg = concat (map fst ext) @ rest)"
  using assms write_message_pieces [OF assms]
  by (auto simp: write_message_def split: prod.splits)

lemma write_message_bytes:
  "write_message msg fds c = (True, c') \<Longrightarrow> sent_bytes c' = sent_bytes c @ msg"
  using write_message_frame(4) [of msg fds c True c'] by (auto simp: sent_bytes_def)

text \<open>With a willing kernel the message and its descriptors are one log entry.\<close>

lemma write_message_willing:
  "send_script c = [] \<Longrightarrow> msg \<noteq> [] \<Longrightarrow>
   write_message msg fds c = (True, c\<lparr>sent_log := sent_log c @ [(msg, send_cmsgs fds)]\<rparr>)"
  by (simp add: write_message_def)

text \<open>Reading leaves the sending side alone.\<close>

lemma fill_loop_sending: "fill_loop timed rs c = (r, c') \<Longrightarrow> send_script c' = send_script c \<and> sent_log c' = sent_log c"
  by (induction timed rs c rule: fill_loop.induct) (auto simp: recv_with_fds_def split: if_splits)

lemma next_message_sending:
  "next_message en timed c = (r, c') \<Longrightarrow> send_script c' = send_script c \<and> sent_log c' = sent_log c"
proof (induction en timed c rule: next_message.induct)
  case (1 en timed c)
  show ?case
  proof (cases "take_message en (read_buf c)")
    case (Some p)
    then show ?thesis using 1(2)
      by (subst (asm) next_message.simps) (auto simp: Let_def split: prod.splits option.splits)
  next
    case None
    obtain fr c1 where f: "fill timed c = (fr, c1)" by fastforce
    then have l: "send_script c1 = send_script c \<and> sent_log c1 = sent_log c"
      unfolding fill_def by (rule fill_loop_sending)
    show ?thesis
    proof (cases fr)
      case (FillRead n)
      then have "next_message en timed c1 = (r, c')" using 1(2) None f by (subst (asm) next_message.simps) simp
      with 1(1) [OF None, of "FillRead n" c1 n] f FillRead l show ?thesis by simp
    qed (use 1(2) None f l in \<open>subst (asm) next_message.simps, simp\<close>)+
  qed
qed

lemmas next_message_send_script = next_message_sending [THEN conjunct1]

end
