(* ===== verification/Signature.thy ===== *)
theory Signature
  imports Wire Interfaces
begin

text \<open>
  The signature walk of \<open>src/lib.rs\<close>: where a payload holds its new id and its object
  references, how many descriptors belong to it, and the interface name a dynamic \<open>bind\<close>
  carries. Offsets are naturals; \<open>checked_add\<close> keeps the 64-bit bound of the source, and
  \<open>walk_no_overflow\<close> shows that the overflow branch is never taken on a real message. The
  walk is related to the encoder of \<open>Wire\<close>: it finds exactly the arguments that were encoded.
\<close>

record signature_walk =
  new_id_offset :: "nat option"
  object_offsets :: "nat list"
  fd_count :: nat
  dynamic_interface_name :: "string option"

datatype walk_error = OffsetOverflow | PayloadTooShort

text \<open>The bound is compared on integers, so that it evaluates in binary.\<close>

definition checked_add :: "nat \<Rightarrow> nat \<Rightarrow> nat option" where
  "checked_add a b = (if int a + int b < 2 ^ 64 then Some (a + b) else None)"

lemma checked_add_eq: "checked_add a b = (if a + b < 2 ^ 64 then Some (a + b) else None)"
proof -
  have "int a + int b < 2 ^ 64 \<longleftrightarrow> a + b < 2 ^ 64" by simp linarith
  then show ?thesis by (simp add: checked_add_def)
qed

text \<open>\<open>offset.checked_add(n)?\<close> followed by the length check.\<close>

definition advance :: "byte list \<Rightarrow> nat \<Rightarrow> nat \<Rightarrow> walk_error + nat" where
  "advance payload offset n =
    (case checked_add offset n of
       None \<Rightarrow> Inl OffsetOverflow
     | Some e \<Rightarrow> if length payload < e then Inl PayloadTooShort else Inr e)"

fun walk_arg :: "endianness \<Rightarrow> byte list \<Rightarrow> argument_type \<Rightarrow> nat \<Rightarrow> signature_walk
    \<Rightarrow> walk_error + (nat \<times> signature_walk)" where
  "walk_arg en payload (ATObject _) offset w =
    (case advance payload offset 4 of
       Inl e \<Rightarrow> Inl e
     | Inr end1 \<Rightarrow> Inr (end1, w\<lparr>object_offsets := object_offsets w @ [offset]\<rparr>))"
| "walk_arg en payload ATNewId offset w =
    (case advance payload offset 4 of
       Inl e \<Rightarrow> Inl e
     | Inr end1 \<Rightarrow> Inr (end1, w\<lparr>new_id_offset := Some offset\<rparr>))"
| "walk_arg en payload ATFd offset w = Inr (offset, w\<lparr>fd_count := fd_count w + 1\<rparr>)"
| "walk_arg en payload (ATStr n) offset w =
    (case advance payload offset 4 of
       Inl e \<Rightarrow> Inl e
     | Inr len_end \<Rightarrow>
        let len = unat (from_ne_bytes en (take 4 (drop offset payload)));
            padded = next_multiple_of_4 len in
        (case advance payload len_end padded of
           Inl e \<Rightarrow> Inl e
         | Inr data_end \<Rightarrow>
            if dynamic_interface_name w = None \<and> len > 0
            then Inr (data_end, w\<lparr>dynamic_interface_name := from_utf8 (take (len - 1) (drop len_end payload))\<rparr>)
            else Inr (data_end, w)))"
| "walk_arg en payload ATArray offset w =
    (case advance payload offset 4 of
       Inl e \<Rightarrow> Inl e
     | Inr len_end \<Rightarrow>
        let len = unat (from_ne_bytes en (take 4 (drop offset payload)));
            padded = next_multiple_of_4 len in
        (case advance payload len_end padded of
           Inl e \<Rightarrow> Inl e
         | Inr data_end \<Rightarrow> Inr (data_end, w)))"
| "walk_arg en payload _ offset w =
    (case advance payload offset 4 of
       Inl e \<Rightarrow> Inl e
     | Inr end1 \<Rightarrow> Inr (end1, w))"

fun walk_loop :: "endianness \<Rightarrow> byte list \<Rightarrow> argument_type list \<Rightarrow> nat \<Rightarrow> signature_walk
    \<Rightarrow> walk_error + signature_walk" where
  "walk_loop en payload [] offset w = Inr w"
| "walk_loop en payload (t # ts) offset w =
    (case walk_arg en payload t offset w of
       Inl e \<Rightarrow> Inl e
     | Inr (offset', w') \<Rightarrow> walk_loop en payload ts offset' w')"

definition walk_init :: signature_walk where
  "walk_init = \<lparr>new_id_offset = None, object_offsets = [], fd_count = 0, dynamic_interface_name = None\<rparr>"

definition walk_signature :: "endianness \<Rightarrow> byte list \<Rightarrow> argument_type list \<Rightarrow> walk_error + signature_walk" where
  "walk_signature en payload sig = walk_loop en payload sig 0 walk_init"

definition resolve_child_interface ::
    "static_table \<Rightarrow> message_desc \<Rightarrow> string option \<Rightarrow> (interface \<times> u32) option" where
  "resolve_child_interface statics desc dyn =
    (case child_interface desc of
       Some iface \<Rightarrow> Some (iface, if_version iface)
     | None \<Rightarrow>
        (case dyn of
           None \<Rightarrow> None
         | Some name \<Rightarrow>
            (case lookup_interface statics name of
               None \<Rightarrow> None
             | Some iface \<Rightarrow> Some (iface, if_version iface))))"

section \<open>Bounds\<close>

lemma advance_Inr: "advance payload offset n = Inr e \<longleftrightarrow>
    e = offset + n \<and> offset + n < 2 ^ 64 \<and> offset + n \<le> length payload"
  by (auto simp: advance_def checked_add_eq)

lemma advance_overflow: "advance payload offset n = Inl OffsetOverflow \<longleftrightarrow> 2 ^ 64 \<le> offset + n"
  by (auto simp: advance_def checked_add_eq)

text \<open>What one argument adds: an object offset, the new id, or nothing, always inside the payload
  and at or after the offset the walk had reached.\<close>

lemma walk_arg_step:
  assumes "walk_arg en payload t offset w = Inr (offset', w')"
  shows "offset \<le> offset'" and "offset \<le> length payload \<Longrightarrow> offset' \<le> length payload"
    and "(w' = w\<lparr>object_offsets := object_offsets w @ [offset]\<rparr> \<and> offset' = offset + 4 \<and> offset + 4 \<le> length payload) \<or>
      (w' = w\<lparr>new_id_offset := Some offset\<rparr> \<and> offset' = offset + 4 \<and> offset + 4 \<le> length payload) \<or>
      (new_id_offset w' = new_id_offset w \<and> object_offsets w' = object_offsets w)"
  using assms
  by (cases t; auto simp: advance_Inr Let_def split: sum.splits if_splits)+

definition walk_within :: "nat \<Rightarrow> nat \<Rightarrow> signature_walk \<Rightarrow> bool" where
  "walk_within reached len w \<longleftrightarrow>
    sorted_wrt (\<lambda>a b. a + 4 \<le> b) (object_offsets w) \<and>
    (\<forall>o1 \<in> set (object_offsets w). o1 + 4 \<le> reached \<and> o1 + 4 \<le> len) \<and>
    (\<forall>n. new_id_offset w = Some n \<longrightarrow> n + 4 \<le> reached \<and> n + 4 \<le> len \<and>
       (\<forall>o1 \<in> set (object_offsets w). o1 + 4 \<le> n \<or> n + 4 \<le> o1))"

lemma walk_loop_within:
  "walk_loop en payload ts offset w = Inr w' \<Longrightarrow> walk_within offset (length payload) w \<Longrightarrow>
   \<exists>reached. walk_within reached (length payload) w'"
proof (induction ts arbitrary: offset w)
  case (Cons t ts)
  from Cons.prems(1) obtain offset' w1 where st: "walk_arg en payload t offset w = Inr (offset', w1)"
    and rest: "walk_loop en payload ts offset' w1 = Inr w'"
    by (auto split: sum.splits)
  have "walk_within offset' (length payload) w1"
    using walk_arg_step(1,3) [OF st] Cons.prems(2)
    by (fastforce simp: walk_within_def sorted_wrt_append)
  with rest show ?case by (rule Cons.IH)
qed auto

lemma walk_signature_within:
  "walk_signature en payload sig = Inr w \<Longrightarrow> \<exists>reached. walk_within reached (length payload) w"
  unfolding walk_signature_def by (rule walk_loop_within) (auto simp: walk_within_def walk_init_def)

lemma walk_arg_fd: "walk_arg en payload t offset w = Inr (offset', w') \<Longrightarrow>
   fd_count w' = fd_count w + (if t = ATFd then 1 else 0)"
  by (cases t) (auto simp: Let_def split: sum.splits if_splits)

lemma walk_loop_fd: "walk_loop en payload ts offset w = Inr w' \<Longrightarrow>
   fd_count w' = fd_count w + length (filter (\<lambda>t. t = ATFd) ts)"
proof (induction ts arbitrary: offset w)
  case (Cons t ts)
  then show ?case by (auto split: sum.splits dest!: walk_arg_fd)
qed simp

lemma walk_arg_no_overflow:
  assumes "length payload < 2 ^ 62" "offset \<le> length payload"
  shows "walk_arg en payload t offset w \<noteq> Inl OffsetOverflow"
proof -
  have "next_multiple_of_4 (unat v) < 2 ^ 33" for v :: u32
    using next_multiple_of_4_bounds(2) [of "unat v"] unsigned_less [of v, where ?'a = nat] by simp
  from this [of "from_ne_bytes en (take 4 (drop offset payload))"] show ?thesis using assms
    by (cases t) (auto simp: Let_def advance_overflow advance_Inr split: sum.splits if_splits)
qed

lemma walk_loop_no_overflow:
  "length payload < 2 ^ 62 \<Longrightarrow> offset \<le> length payload \<Longrightarrow>
   walk_loop en payload ts offset w \<noteq> Inl OffsetOverflow"
proof (induction ts arbitrary: offset w)
  case (Cons t ts)
  then show ?case using walk_arg_no_overflow [OF Cons.prems, of en t w] walk_arg_step(2)
    by (fastforce split: sum.splits)
qed simp

section \<open>The walk reads what the encoder wrote\<close>

text \<open>Values whose lengths fit their 32-bit length fields.\<close>

fun fits :: "wayland_value \<Rightarrow> bool" where
  "fits (VString s) \<longleftrightarrow> length s + 1 < 2 ^ 32"
| "fits (VArray bs) \<longleftrightarrow> length bs < 2 ^ 32"
| "fits _ \<longleftrightarrow> True"

fun object_values :: "wayland_value list \<Rightarrow> u32 list" where
  "object_values [] = []"
| "object_values (VObject v # vs) = v # object_values vs"
| "object_values (_ # vs) = object_values vs"

fun new_id_value :: "u32 option \<Rightarrow> wayland_value list \<Rightarrow> u32 option" where
  "new_id_value acc [] = acc"
| "new_id_value acc (VNewId v # vs) = new_id_value (Some v) vs"
| "new_id_value acc (_ # vs) = new_id_value acc vs"

lemma length_word_prefix:
  assumes "n < 2 ^ 32"
  shows "unat (from_ne_bytes en (take 4 (drop (length pre) (pre @ put_u32 en [] (word_of_nat n) @ rest)))) = n"
  using assms by (simp add: put_u32_def unat_word_of_nat_small)

text \<open>What one encoded argument adds to the walk.\<close>

definition after_value :: "nat \<Rightarrow> wayland_value \<Rightarrow> signature_walk \<Rightarrow> signature_walk \<Rightarrow> bool" where
  "after_value offset v w w' \<longleftrightarrow>
     object_offsets w' = object_offsets w @ (case v of VObject _ \<Rightarrow> [offset] | _ \<Rightarrow> []) \<and>
     new_id_offset w' = (case v of VNewId _ \<Rightarrow> Some offset | _ \<Rightarrow> new_id_offset w) \<and>
     fd_count w' = fd_count w + length (value_fds v)"

lemma put_str_prefix: "put_str en [] s = put_u32 en [] (word_of_nat (length s + 1)) @
    (bytes_of s @ 0 # replicate (next_multiple_of_4 (length s + 1) - (length s + 1)) 0)"
  by (simp add: put_str_def Let_def)

lemma put_array_prefix: "put_array en [] bs = put_u32 en [] (word_of_nat (length bs)) @
    (bs @ replicate (next_multiple_of_4 (length bs) - length bs) 0)"
  by (simp add: put_array_def Let_def)

lemma walk_arg_encoded:
  assumes "value_matches t v" "fits v" "length (pre @ value_bytes en v @ rest) < 2 ^ 62"
  shows "\<exists>w'. walk_arg en (pre @ value_bytes en v @ rest) t (length pre) w =
      Inr (length (pre @ value_bytes en v), w') \<and> after_value (length pre) v w w'"
proof (cases v)
  case (VString s)
  then obtain a where t: "t = ATStr a" using assms(1) by (cases t) auto
  let ?p = "pre @ value_bytes en v @ rest"
  have len: "unat (from_ne_bytes en (take 4 (drop (length pre) ?p))) = length s + 1"
    using length_word_prefix [of "length s + 1" en pre] assms(2) by (simp only: VString value_bytes.simps put_str_prefix fits.simps append_assoc)
  have a1: "advance ?p (length pre) 4 = Inr (length pre + 4)"
    and a2: "advance ?p (length pre + 4) (next_multiple_of_4 (length s + 1)) = Inr (length pre + 4 + next_multiple_of_4 (length s + 1))"
    using assms(3) by (simp_all add: VString advance_Inr)
  show ?thesis unfolding t walk_arg.simps a1 sum.case len Let_def a2
    by (simp add: after_value_def VString)
next
  case (VArray bs)
  then have t: "t = ATArray" using assms(1) by (cases t) auto
  let ?p = "pre @ value_bytes en v @ rest"
  have len: "unat (from_ne_bytes en (take 4 (drop (length pre) ?p))) = length bs"
    using length_word_prefix [of "length bs" en pre] assms(2) by (simp only: VArray value_bytes.simps put_array_prefix fits.simps append_assoc)
  have a1: "advance ?p (length pre) 4 = Inr (length pre + 4)"
    and a2: "advance ?p (length pre + 4) (next_multiple_of_4 (length bs)) = Inr (length pre + 4 + next_multiple_of_4 (length bs))"
    using assms(3) by (simp_all add: VArray advance_Inr)
  show ?thesis unfolding t walk_arg.simps a1 sum.case len Let_def a2
    by (simp add: after_value_def VArray)
qed (use assms in \<open>cases t; simp add: after_value_def advance_def checked_add_eq; fail\<close>)+

lemma read_encoded_word:
  "value_bytes en v = put_u32 en [] x \<Longrightarrow> read_u32 en (pre @ value_bytes en v @ rest) (length pre) = Some x"
  using read_u32_put [of en pre x rest] put_u32_append [of en pre x] by simp

lemma walk_loop_encoded:
  assumes "list_all2 value_matches sig vals" "\<forall>v \<in> set vals. fits v"
    and "length (pre @ concat (map (value_bytes en) vals)) < 2 ^ 62"
    and "new_id_offset w = None \<and> acc = None \<or>
      (\<exists>n x. new_id_offset w = Some n \<and> acc = Some x \<and> n + 4 \<le> length pre \<and> read_u32 en pre n = Some x)"
  shows "\<exists>w' offs. walk_loop en (pre @ concat (map (value_bytes en) vals)) sig (length pre) w = Inr w' \<and>
    object_offsets w' = object_offsets w @ offs \<and>
    map (read_u32 en (pre @ concat (map (value_bytes en) vals))) offs = map Some (object_values vals) \<and>
    Option.bind (new_id_offset w') (read_u32 en (pre @ concat (map (value_bytes en) vals))) = new_id_value acc vals \<and>
    fd_count w' = fd_count w + length (concat (map value_fds vals))"
  using assms
proof (induction sig vals arbitrary: pre w acc rule: list_all2_induct)
  case Nil
  then show ?case by auto
next
  case (Cons t ts v vs)
  let ?rest = "concat (map (value_bytes en) vs)"
  let ?p = "pre @ value_bytes en v @ ?rest"
  let ?acc = "case v of VNewId x \<Rightarrow> Some x | _ \<Rightarrow> acc"
  have all: "pre @ concat (map (value_bytes en) (v # vs)) = ?p" by simp
  obtain w1 where w1: "walk_arg en ?p t (length pre) w = Inr (length (pre @ value_bytes en v), w1)"
    "after_value (length pre) v w w1"
    using walk_arg_encoded [OF Cons.hyps(1), of pre en ?rest w] Cons.prems by auto
  have inv: "new_id_offset w1 = None \<and> ?acc = None \<or>
      (\<exists>n x. new_id_offset w1 = Some n \<and> ?acc = Some x \<and> n + 4 \<le> length (pre @ value_bytes en v) \<and>
        read_u32 en (pre @ value_bytes en v) n = Some x)"
    using Cons.prems(3) w1(2) read_encoded_word [of en v _ pre "[]"]
    by (cases v) (auto simp: after_value_def read_u32_append)
  have "\<exists>w' offs. walk_loop en ((pre @ value_bytes en v) @ ?rest) ts (length (pre @ value_bytes en v)) w1 = Inr w' \<and>
    object_offsets w' = object_offsets w1 @ offs \<and>
    map (read_u32 en ((pre @ value_bytes en v) @ ?rest)) offs = map Some (object_values vs) \<and>
    Option.bind (new_id_offset w') (read_u32 en ((pre @ value_bytes en v) @ ?rest)) = new_id_value ?acc vs \<and>
    fd_count w' = fd_count w1 + length (concat (map value_fds vs))"
    using Cons.prems(1,2) inv by (intro Cons.IH) simp_all
  then obtain w' offs where IH: "walk_loop en ?p ts (length (pre @ value_bytes en v)) w1 = Inr w'"
    "object_offsets w' = object_offsets w1 @ offs" "map (read_u32 en ?p) offs = map Some (object_values vs)"
    "Option.bind (new_id_offset w') (read_u32 en ?p) = new_id_value ?acc vs"
    "fd_count w' = fd_count w1 + length (concat (map value_fds vs))" by auto
  have l: "walk_loop en ?p (t # ts) (length pre) w = Inr w'" using w1(1) IH(1) by simp
  have f: "fd_count w' = fd_count w + length (concat (map value_fds (v # vs)))"
    using IH(5) w1(2) by (simp add: after_value_def)
  have nv: "new_id_value ?acc vs = new_id_value acc (v # vs)" by (cases v) simp_all
  show ?case unfolding all
  proof (cases "\<exists>x. v = VObject x")
    case True
    then obtain x where x: "v = VObject x" by blast
    then have "read_u32 en ?p (length pre) = Some x" using read_encoded_word [of en v x pre ?rest] by simp
    then show "\<exists>w' offs. walk_loop en ?p (t # ts) (length pre) w = Inr w' \<and> object_offsets w' = object_offsets w @ offs \<and>
        map (read_u32 en ?p) offs = map Some (object_values (v # vs)) \<and>
        Option.bind (new_id_offset w') (read_u32 en ?p) = new_id_value acc (v # vs) \<and>
        fd_count w' = fd_count w + length (concat (map value_fds (v # vs)))"
      using l f nv IH w1(2) x
      by (intro exI [of _ w'] exI [of _ "length pre # offs"]) (simp add: after_value_def)
  next
    case False
    then have "object_values (v # vs) = object_values vs" "object_offsets w1 = object_offsets w"
      using w1(2) by (cases v; simp add: after_value_def)+
    then show "\<exists>w' offs. walk_loop en ?p (t # ts) (length pre) w = Inr w' \<and> object_offsets w' = object_offsets w @ offs \<and>
        map (read_u32 en ?p) offs = map Some (object_values (v # vs)) \<and>
        Option.bind (new_id_offset w') (read_u32 en ?p) = new_id_value acc (v # vs) \<and>
        fd_count w' = fd_count w + length (concat (map value_fds (v # vs)))"
      using l f nv IH by (intro exI [of _ w'] exI [of _ offs]) simp
  qed
qed

lemma walk_encoded:
  assumes "encode_arguments en sig vals = Inr (payload, fds)" "\<forall>v \<in> set vals. fits v" "length payload < 2 ^ 62"
  obtains w where "walk_signature en payload sig = Inr w" "fd_count w = length fds"
    "map (read_u32 en payload) (object_offsets w) = map Some (object_values vals)"
    "Option.bind (new_id_offset w) (read_u32 en payload) = new_id_value None vals"
proof -
  have e: "list_all2 value_matches sig vals" "payload = concat (map (value_bytes en) vals)"
    "fds = concat (map value_fds vals)" using assms(1) by (auto simp: encode_arguments_Inr_iff)
  have "\<exists>w' offs. walk_loop en ([] @ concat (map (value_bytes en) vals)) sig (length ([] :: byte list)) walk_init = Inr w' \<and>
    object_offsets w' = object_offsets walk_init @ offs \<and>
    map (read_u32 en ([] @ concat (map (value_bytes en) vals))) offs = map Some (object_values vals) \<and>
    Option.bind (new_id_offset w') (read_u32 en ([] @ concat (map (value_bytes en) vals))) = new_id_value None vals \<and>
    fd_count w' = fd_count walk_init + length (concat (map value_fds vals))"
    using e assms by (intro walk_loop_encoded) (simp_all add: walk_init_def)
  then show thesis using e that by (auto simp: walk_signature_def walk_init_def)
qed

end
