(* ===== verification/RelayState.thy ===== *)
theory RelayState
  imports Phases ShadowTable Trackers Recreation Clipboard DesktopApps Connection Signature
begin

text \<open>
  The state of one proxied connection and what the relay does besides relaying: the recorder
  line, the synthesized \<open>wl_callback.done\<close> and \<open>delete_id\<close>, and the clipboard splice with the
  events of the data source it creates. \<open>env\<close> holds what a connection only reads: the map
  operations, the generated tables, the byte order, the iteration orders, the application
  index, the client's process and the pipes. A \<open>session\<close> is the set of trackers that
  \<open>run_connection\<close> owns; \<open>relay_state\<close> adds the two connections of one relay pass.
\<close>

record 'b env =
  bim :: "'b bimap_ops"
  statics :: static_table
  endian :: endianness
  ord_ids :: "u32 list \<Rightarrow> u32 list"
  ord_names :: "string list \<Rightarrow> string list"
  apps :: desktop_app_index
  client_pid :: "int option"
  exe_link :: "int \<Rightarrow> string option"
  pipes :: os_pipes
  recording :: bool

datatype direction = ClientToHost | HostToClient

datatype disposition =
    Intercepted
  | DroppedUnknown
  | DroppedUntranslatable u32
  | DroppedUnresolvableChild
  | DroppedUntrackedDeleteId
  | DroppedStaleGeneration
  | DroppedNoSender
  | DroppedParseError
  | Relayed
  | DroppedFrozen

text \<open>One line of the recorder, without its time stamp: direction, outcome, interface, method,
  sender, opcode, number of descriptors, bytes.\<close>

record record_line =
  rl_direction :: direction
  rl_outcome :: disposition
  rl_interface :: string
  rl_method :: string
  rl_sender :: u32
  rl_opcode :: u16
  rl_fds :: nat
  rl_bytes :: "byte list"

record 'b session =
  objects :: "'b shadow_table"
  graph :: recreation_graph
  grabs :: grab_tracker
  buffer_flow :: buffer_flow_tracker
  pending_frames :: pending_frame_tracker
  pending_dmabuf_planes :: "(u32, u32 \<times> dmabuf_plane list) hash_map"
  reclaim :: reclaim_state
  cache :: clipboard_cache
  tasks :: "task list"
  recorded :: "record_line list"

record 'b relay_state = "'b session" +
  src :: conn
  dst :: "conn option"

definition record_message :: "'b env \<Rightarrow> direction \<Rightarrow> disposition \<Rightarrow> string \<Rightarrow> string \<Rightarrow> u32 \<Rightarrow> u16 \<Rightarrow> nat
    \<Rightarrow> byte list \<Rightarrow> ('b, 'm) session_scheme \<Rightarrow> ('b, 'm) session_scheme" where
  "record_message env dir outcome iface meth sender opc nfds bytes s =
    (if recording env then
       s\<lparr>recorded := recorded s @ [\<lparr>rl_direction = dir, rl_outcome = outcome, rl_interface = iface,
          rl_method = meth, rl_sender = sender, rl_opcode = opc, rl_fds = nfds, rl_bytes = bytes\<rparr>]\<rparr>
     else s)"

section \<open>Synthesized answers\<close>

definition delete_id_message :: "'b env \<Rightarrow> u16 \<Rightarrow> u32 \<Rightarrow> byte list" where
  "delete_id_message env opc guest = build_message (endian env) 1 opc (put_u32 (endian env) [] guest)"

definition delete_id_opcode :: "'b shadow_table \<Rightarrow> u16 option" where
  "delete_id_opcode t = Option.bind (st_interface t 1) (\<lambda>wl_display. event_opcode wl_display ''delete_id'')"

text \<open>A failed write is only logged.\<close>

definition synthesize_delete_id :: "'b env \<Rightarrow> 'b shadow_table \<Rightarrow> u32 \<Rightarrow> conn \<Rightarrow> conn" where
  "synthesize_delete_id env t guest c =
    (case delete_id_opcode t of
       None \<Rightarrow> c
     | Some opc \<Rightarrow> snd (write_message (delete_id_message env opc guest) [] c))"

definition synthesize_frame_done :: "'b env \<Rightarrow> 'b shadow_table \<Rightarrow> u32 \<Rightarrow> conn \<Rightarrow> conn" where
  "synthesize_frame_done env t callback c =
    (case st_interface t callback of
       None \<Rightarrow> c
     | Some callback_iface \<Rightarrow>
        let c = (case event_opcode callback_iface ''done'' of
                   None \<Rightarrow> c
                 | Some done_opcode \<Rightarrow>
                    snd (write_message (build_message (endian env) callback done_opcode (put_u32 (endian env) [] 0)) [] c))
        in synthesize_delete_id env t callback c)"

section \<open>The clipboard splice\<close>

text \<open>One request to the host; the flag says whether it went out.\<close>

definition send_src :: "'b env \<Rightarrow> u32 \<Rightarrow> u16 \<Rightarrow> byte list \<Rightarrow> ('b, 'm) relay_state_scheme
    \<Rightarrow> bool \<times> ('b, 'm) relay_state_scheme" where
  "send_src env sender opc payload s =
    (case write_message (build_message (endian env) sender opc payload) [] (src s) of
       (ok, c) \<Rightarrow> (ok, s\<lparr>src := c\<rparr>))"

text \<open>Allocate a host id, send the request that creates it, and give the id back when the write
  fails.\<close>

definition create_on_host :: "'b env \<Rightarrow> u32 \<Rightarrow> u16 \<Rightarrow> (u32 \<Rightarrow> byte list) \<Rightarrow> ('b, 'm) relay_state_scheme
    \<Rightarrow> u32 option \<times> ('b, 'm) relay_state_scheme" where
  "create_on_host env sender opc payload s =
    (case allocate_host_id (objects s) of
       (h, t) \<Rightarrow>
         (case send_src env sender opc (payload h) (s\<lparr>objects := t\<rparr>) of
            (True, s) \<Rightarrow> (Some h, s)
          | (False, s) \<Rightarrow> (None, s\<lparr>objects := unallocate_host_id h (objects s)\<rparr>)))"

fun offer_mime_types :: "'b env \<Rightarrow> u32 \<Rightarrow> string list \<Rightarrow> ('b, 'm) relay_state_scheme
    \<Rightarrow> bool \<times> ('b, 'm) relay_state_scheme" where
  "offer_mime_types env source [] s = (True, s)"
| "offer_mime_types env source (mime # mimes) s =
    (case send_src env source 0 (put_str (endian env) [] mime) s of
       (True, s) \<Rightarrow> offer_mime_types env source mimes s
     | (False, s) \<Rightarrow> (False, s))"

definition bind_payload :: "endianness \<Rightarrow> u32 \<Rightarrow> string \<Rightarrow> u32 \<Rightarrow> u32 \<Rightarrow> byte list" where
  "bind_payload en name iface version new_id =
     put_u32 en (put_u32 en (put_str en (put_u32 en [] name) iface) version) new_id"

text \<open>The messages of the splice once everything it needs is known.\<close>

definition splice_messages :: "'b env \<Rightarrow> string list \<Rightarrow> u32 \<times> u32 \<Rightarrow> u32 \<Rightarrow> u32 \<Rightarrow> u32
    \<Rightarrow> ('b, 'm) relay_state_scheme \<Rightarrow> ('b, 'm) relay_state_scheme" where
  "splice_messages env mimes ddm registry_host seat_host serial s =
    (let en = endian env in
     case create_on_host env registry_host 0
            (\<lambda>h. bind_payload en (fst ddm) ''wl_data_device_manager'' (snd ddm) h) s of
       (None, s) \<Rightarrow> s
     | (Some ddm_host, s) \<Rightarrow>
        (case create_on_host env ddm_host 0 (\<lambda>h. put_u32 en [] h) s of
           (None, s) \<Rightarrow> s
         | (Some source_host, s) \<Rightarrow>
            (case offer_mime_types env source_host mimes s of
               (False, s) \<Rightarrow> s
             | (True, s) \<Rightarrow>
                (case create_on_host env ddm_host 1 (\<lambda>h. put_u32 en (put_u32 en [] h) seat_host) s of
                   (None, s) \<Rightarrow> s
                 | (Some device_host, s) \<Rightarrow>
                    (case send_src env device_host 1 (put_u32 en (put_u32 en [] source_host) serial) s of
                       (False, s) \<Rightarrow> s
                     | (True, s) \<Rightarrow>
                        s\<lparr>reclaim := (reclaim s)\<lparr>active_source_host_id := Some source_host\<rparr>\<rparr>)))))"

definition attempt_clipboard_splice :: "'b env \<Rightarrow> u32 \<Rightarrow> ('b, 'm) relay_state_scheme \<Rightarrow> ('b, 'm) relay_state_scheme" where
  "attempt_clipboard_splice env serial s =
    (let s = s\<lparr>reclaim := (reclaim s)\<lparr>reclaim_pending := False\<rparr>\<rparr>;
         mimes = cached_mime_types (ord_names env) (cache s) in
     if mimes = [] then s
     else case data_device_manager_global (reclaim s) of
       None \<Rightarrow> s
     | Some ddm \<Rightarrow>
        (case (find_guest_id_by_interface_name (ord_ids env) (objects s) ''wl_registry'',
               find_guest_id_by_interface_name (ord_ids env) (objects s) ''wl_seat'') of
           (Some registry_guest, Some seat_guest) \<Rightarrow>
             (case (host_id (bim env) (objects s) registry_guest, host_id (bim env) (objects s) seat_guest) of
                (Some registry_host, Some seat_host) \<Rightarrow>
                  splice_messages env mimes ddm registry_host seat_host serial s
              | _ \<Rightarrow> s)
         | _ \<Rightarrow> s))"

text \<open>\<open>handle_synthetic_clipboard_event\<close>: opcode 1 is \<open>send\<close>, opcode 2 is \<open>cancelled\<close>.\<close>

definition handle_synthetic_clipboard_event :: "'b env \<Rightarrow> byte list \<Rightarrow> u16 \<Rightarrow> ('b, 'm) relay_state_scheme
    \<Rightarrow> ('b, 'm) relay_state_scheme" where
  "handle_synthetic_clipboard_event env msg opc s =
    (if opc = 1 then
       (let mime_type = map_option fst (read_str (endian env) (drop HEADER_LEN msg) 0) in
        case read_fds (src s) of
          [] \<Rightarrow> s
        | f # fs \<Rightarrow>
           let s = s\<lparr>src := (src s)\<lparr>read_fds := fs\<rparr>\<rparr> in
           (case mime_type of
              None \<Rightarrow> s
            | Some mime \<Rightarrow>
               (case cache_get (cache s) mime of
                  None \<Rightarrow> s
                | Some bytes \<Rightarrow>
                   if is_writable_pipe (pipes env) f then s\<lparr>tasks := tasks s @ [WriteCached f bytes mime]\<rparr>
                   else s)))
     else if opc = 2 then s\<lparr>reclaim := (reclaim s)\<lparr>active_source_host_id := None\<rparr>\<rparr>
     else s)"

end
