(* ===== verification/Relay.thy ===== *)
theory Relay
  imports RelayState
begin

text \<open>
  \<open>relay_ready_messages\<close> of \<open>src/lib.rs\<close>: one message at a time is taken from the source
  connection, checked, translated, observed by the trackers and forwarded. Each block of the
  function is one definition here, in the order of the source; \<open>process_message\<close> composes
  them, and \<open>relay_ready_messages\<close> is the loop. Every \<open>continue 'relay\<close> is an early exit
  carrying the outcome the recorder would note.
\<close>

record msg_ctx =
  mc_header :: message_header
  mc_sender :: u32
  mc_iface :: interface
  mc_desc :: message_desc

section \<open>Resolving the sender\<close>

text \<open>An id in the address space the message comes from, in the one it goes to.\<close>

definition translate_id :: "'b env \<Rightarrow> direction \<Rightarrow> 'b shadow_table \<Rightarrow> u32 \<Rightarrow> u32 option" where
  "translate_id env dir t i =
    (case dir of ClientToHost \<Rightarrow> host_id (bim env) t i | HostToClient \<Rightarrow> guest_id (bim env) t i)"

definition guest_sender :: "'b env \<Rightarrow> direction \<Rightarrow> 'b shadow_table \<Rightarrow> u32 \<Rightarrow> u32 option" where
  "guest_sender env dir t i =
    (case dir of ClientToHost \<Rightarrow> Some i | HostToClient \<Rightarrow> guest_id (bim env) t i)"

definition message_table :: "direction \<Rightarrow> interface \<Rightarrow> message_desc list" where
  "message_table dir iface = (case dir of ClientToHost \<Rightarrow> requests iface | HostToClient \<Rightarrow> events iface)"

definition resolve_context :: "'b env \<Rightarrow> direction \<Rightarrow> 'b shadow_table \<Rightarrow> message_header \<Rightarrow> msg_ctx option" where
  "resolve_context env dir t h =
    (case guest_sender env dir t (sender_id h) of
       None \<Rightarrow> None
     | Some g \<Rightarrow>
        (case st_interface t g of
           None \<Rightarrow> None
         | Some iface \<Rightarrow>
            map_option (\<lambda>d. \<lparr>mc_header = h, mc_sender = g, mc_iface = iface, mc_desc = d\<rparr>)
              (desc_at (message_table dir iface) (opcode h))))"

type_synonym ('b, 'a) relay_phase = "(disposition, 'b relay_state, 'a) phase"

definition resolve_message :: "'b env \<Rightarrow> direction \<Rightarrow> message_header \<Rightarrow> byte list \<Rightarrow> ('b, msg_ctx) relay_phase" where
  "resolve_message env dir h msg = (\<lambda>s.
    (case resolve_context env dir (objects s) h of
       Some ctx \<Rightarrow> (Inr ctx, s)
     | None \<Rightarrow> (Inl DroppedUnknown,
         record_message env dir DroppedUnknown ''?'' ''?'' (sender_id h) (opcode h) 0 msg s)))"

definition i_name :: "msg_ctx \<Rightarrow> string" where "i_name ctx = if_name (mc_iface ctx)"
definition d_name :: "msg_ctx \<Rightarrow> string" where "d_name ctx = md_name (mc_desc ctx)"

text \<open>Recording a drop of a message whose description is known, and leaving.\<close>

definition drop_known :: "'b env \<Rightarrow> direction \<Rightarrow> msg_ctx \<Rightarrow> byte list \<Rightarrow> disposition \<Rightarrow> ('b, 'a) relay_phase" where
  "drop_known env dir ctx msg d = (\<lambda>s. (Inl d,
     record_message env dir d (i_name ctx) (d_name ctx) (sender_id (mc_header ctx)) (opcode (mc_header ctx)) 0 msg s))"

definition walk_message :: "'b env \<Rightarrow> direction \<Rightarrow> msg_ctx \<Rightarrow> byte list \<Rightarrow> ('b, signature_walk) relay_phase" where
  "walk_message env dir ctx msg =
    (case walk_signature (endian env) (drop HEADER_LEN msg) (signature (mc_desc ctx)) of
       Inr walk \<Rightarrow> go walk
     | Inl _ \<Rightarrow> drop_known env dir ctx msg DroppedParseError)"

section \<open>Existing objects in the payload\<close>

definition word_at :: "endianness \<Rightarrow> byte list \<Rightarrow> nat \<Rightarrow> u32" where
  "word_at en msg pos = from_ne_bytes en (take 4 (drop pos msg))"

definition original_object_values :: "endianness \<Rightarrow> byte list \<Rightarrow> nat list \<Rightarrow> u32 list" where
  "original_object_values en msg offsets = map (\<lambda>offset. word_at en msg (HEADER_LEN + offset)) offsets"

text \<open>\<^const>\<open>Inl\<close> is the first id that has no translation.\<close>

fun translate_objects :: "endianness \<Rightarrow> (u32 \<Rightarrow> u32 option) \<Rightarrow> nat list \<Rightarrow> byte list \<Rightarrow> u32 + byte list" where
  "translate_objects en tr [] msg = Inr msg"
| "translate_objects en tr (offset # offsets) msg =
    (let pos = HEADER_LEN + offset; original = word_at en msg pos in
     case tr original of
       Some t \<Rightarrow> translate_objects en tr offsets (overwrite msg pos (to_ne_bytes en t))
     | None \<Rightarrow> Inl original)"

fun translated_prefix :: "endianness \<Rightarrow> (u32 \<Rightarrow> u32 option) \<Rightarrow> nat list \<Rightarrow> byte list \<Rightarrow> byte list" where
  "translated_prefix en tr [] msg = msg"
| "translated_prefix en tr (offset # offsets) msg =
    (let pos = HEADER_LEN + offset in
     case tr (word_at en msg pos) of
       Some t \<Rightarrow> translated_prefix en tr offsets (overwrite msg pos (to_ne_bytes en t))
     | None \<Rightarrow> msg)"

definition translate_arguments :: "'b env \<Rightarrow> direction \<Rightarrow> msg_ctx \<Rightarrow> signature_walk \<Rightarrow> byte list
    \<Rightarrow> ('b, byte list) relay_phase" where
  "translate_arguments env dir ctx walk msg = (\<lambda>s.
    (let tr = translate_id env dir (objects s) in
     case translate_objects (endian env) tr (object_offsets walk) msg of
       Inr msg' \<Rightarrow> (Inr msg', s)
     | Inl original \<Rightarrow>
        drop_known env dir ctx (translated_prefix (endian env) tr (object_offsets walk) msg)
          (DroppedUntranslatable original) s))"

section \<open>New objects\<close>

definition read_words :: "endianness \<Rightarrow> byte list \<Rightarrow> nat list \<Rightarrow> u32 list option" where
  "read_words en payload offsets = those (map (read_u32 en payload) offsets)"

definition recreatable_globals :: "string list" where
  "recreatable_globals = [''wl_compositor'', ''xdg_wm_base'', ''wl_shm'', ''zwp_linux_dmabuf_v1'', ''wl_seat'',
     ''wp_viewporter'', ''wp_fractional_scale_manager_v1'', ''xdg_activation_v1'']"

definition requested_version :: "endianness \<Rightarrow> byte list \<Rightarrow> nat \<Rightarrow> interface \<Rightarrow> u32" where
  "requested_version en msg pos child =
    (case get_range msg (pos - 4) pos of
       Some bs \<Rightarrow> if length bs = 4 then from_ne_bytes en bs else if_version child
     | None \<Rightarrow> if_version child)"

definition shm_buffer_recipe :: "endianness \<Rightarrow> byte list \<Rightarrow> nat \<Rightarrow> u32 \<Rightarrow> recreatable option" where
  "shm_buffer_recipe en payload offset pool =
    (case read_words en payload [offset + 4, offset + 8, offset + 12, offset + 16, offset + 20] of
       Some [buf_offset, width, height, stride, format] \<Rightarrow> Some (RShmBuffer pool buf_offset width height stride format)
     | _ \<Rightarrow> None)"

definition dmabuf_recipe :: "endianness \<Rightarrow> byte list \<Rightarrow> nat \<Rightarrow> (u32 \<times> dmabuf_plane list) option \<Rightarrow> recreatable option" where
  "dmabuf_recipe en payload offset pending =
    (case (read_words en payload [offset + 4, offset + 8, offset + 12, offset + 16], pending) of
       (Some [width, height, format, flags], Some (dmabuf, planes)) \<Rightarrow>
         Some (RDmabufBuffer dmabuf width height format flags planes)
     | _ \<Rightarrow> None)"

text \<open>The recipe of a message that creates an object, and the planes that wait for their buffer.
  \<open>originals\<close> are the object arguments before translation, \<open>offset\<close> is where the new id is.\<close>

definition capture_recipe :: "endianness \<Rightarrow> msg_ctx \<Rightarrow> byte list \<Rightarrow> nat \<Rightarrow> u32 list \<Rightarrow> interface \<Rightarrow> u32
    \<Rightarrow> (u32, u32 \<times> dmabuf_plane list) hash_map
    \<Rightarrow> recreatable option \<times> (u32, u32 \<times> dmabuf_plane list) hash_map" where
  "capture_recipe en ctx msg offset originals child guest_new planes =
    (let key = (i_name ctx, d_name ctx); g = mc_sender ctx; payload = drop HEADER_LEN msg in
     if key = (''wl_registry'', ''bind'') \<and> if_name child \<in> set recreatable_globals then
       (Some (RGlobal child (requested_version en msg (HEADER_LEN + offset) child)), planes)
     else if key = (''wl_compositor'', ''create_surface'') then (Some (RSurface g), planes)
     else if key = (''xdg_wm_base'', ''get_xdg_surface'') then
       (case originals of surface # _ \<Rightarrow> Some (RXdgSurface g surface) | [] \<Rightarrow> None, planes)
     else if key = (''xdg_surface'', ''get_toplevel'') then (Some (RXdgToplevel g None None), planes)
     else if key = (''wl_shm_pool'', ''create_buffer'') then (shm_buffer_recipe en payload offset g, planes)
     else if key = (''zwp_linux_dmabuf_v1'', ''create_params'') then (None, hm_insert guest_new (g, []) planes)
     else if key = (''zwp_linux_buffer_params_v1'', ''create_immed'') then
       (dmabuf_recipe en payload offset (hm_get planes g), hm_remove g planes)
     else if key = (''wl_seat'', ''get_pointer'') then (Some (RSeatDevice g SeatPointer), planes)
     else if key = (''wl_seat'', ''get_keyboard'') then (Some (RSeatDevice g SeatKeyboard), planes)
     else if key = (''wl_seat'', ''get_touch'') then (Some (RSeatDevice g SeatTouch), planes)
     else if key = (''wp_viewporter'', ''get_viewport'') then
       (case originals of surface # _ \<Rightarrow> Some (RViewport g surface None) | [] \<Rightarrow> None, planes)
     else if key = (''wp_fractional_scale_manager_v1'', ''get_fractional_scale'') then
       (case originals of surface # _ \<Rightarrow> Some (RFractionalScale g surface) | [] \<Rightarrow> None, planes)
     else (None, planes))"

text \<open>The pair of ids for a new object: each side allocates from its own space.\<close>

definition new_id_pair :: "direction \<Rightarrow> u32 \<Rightarrow> 'b shadow_table \<Rightarrow> (u32 \<times> u32) \<times> 'b shadow_table" where
  "new_id_pair dir original t =
    (case dir of
       ClientToHost \<Rightarrow> (case allocate_host_id t of (h, t') \<Rightarrow> ((original, h), t'))
     | HostToClient \<Rightarrow> (case allocate_guest_server_id t of (g, t') \<Rightarrow> ((g, original), t')))"

definition record_new_recipe :: "'b env \<Rightarrow> direction \<Rightarrow> msg_ctx \<Rightarrow> byte list \<Rightarrow> nat \<Rightarrow> u32 list \<Rightarrow> interface \<Rightarrow> u32
    \<Rightarrow> 'b relay_state \<Rightarrow> 'b relay_state" where
  "record_new_recipe env dir ctx msg offset originals child guest_new s =
    (if dir = ClientToHost then
       (case capture_recipe (endian env) ctx msg offset originals child guest_new (pending_dmabuf_planes s) of
          (recipe, planes) \<Rightarrow>
            s\<lparr>pending_dmabuf_planes := planes,
              graph := (case recipe of Some r \<Rightarrow> record_recipe guest_new r (graph s) | None \<Rightarrow> graph s)\<rparr>)
     else s)"

text \<open>The value is the guest id that was mapped, if the message creates an object, and the message
  with its new id rewritten.\<close>

definition map_new_id :: "'b env \<Rightarrow> direction \<Rightarrow> msg_ctx \<Rightarrow> signature_walk \<Rightarrow> u32 list \<Rightarrow> byte list
    \<Rightarrow> ('b, u32 option \<times> byte list) relay_phase" where
  "map_new_id env dir ctx walk originals msg =
    (case new_id_offset walk of
       None \<Rightarrow> go (None, msg)
     | Some offset \<Rightarrow> (\<lambda>s.
        (let pos = HEADER_LEN + offset; original_new_id = word_at (endian env) msg pos in
         case resolve_child_interface (statics env) (mc_desc ctx) (dynamic_interface_name walk) of
           Some (child, _) \<Rightarrow>
             (case new_id_pair dir original_new_id (objects s) of
                ((guest_new, host_new), t) \<Rightarrow>
                  let s = s\<lparr>objects := st_map (bim env) guest_new host_new child t\<rparr>;
                      s = record_new_recipe env dir ctx msg offset originals child guest_new s;
                      rewritten = (case dir of ClientToHost \<Rightarrow> host_new | HostToClient \<Rightarrow> guest_new)
                  in (Inr (Some guest_new, overwrite msg pos (to_ne_bytes (endian env) rewritten)), s))
         | None \<Rightarrow>
             let s = (case (dir, dynamic_interface_name walk) of
                        (ClientToHost, Some name) \<Rightarrow>
                          s\<lparr>objects := remember_unresolvable_interface original_new_id name (objects s)\<rparr>
                      | _ \<Rightarrow> s)
             in drop_known env dir ctx msg DroppedUnresolvableChild s)))"

section \<open>Deleted ids\<close>

definition is_message :: "msg_ctx \<Rightarrow> string \<Rightarrow> string \<Rightarrow> bool" where
  "is_message ctx iface meth \<longleftrightarrow> i_name ctx = iface \<and> d_name ctx = meth"

definition apply_delete_id :: "'b env \<Rightarrow> direction \<Rightarrow> msg_ctx \<Rightarrow> byte list \<Rightarrow> ('b, byte list) relay_phase" where
  "apply_delete_id env dir ctx msg = (\<lambda>s.
    (if is_message ctx ''wl_display'' ''delete_id'' then
       (case get_range msg HEADER_LEN (HEADER_LEN + 4) of
          None \<Rightarrow> (Inr msg, s)
        | Some id_bytes \<Rightarrow>
           (case guest_id (bim env) (objects s) (from_ne_bytes (endian env) id_bytes) of
              Some guest_deleted \<Rightarrow>
                (Inr (overwrite msg HEADER_LEN (to_ne_bytes (endian env) guest_deleted)),
                 s\<lparr>objects := remove_guest (bim env) guest_deleted (objects s),
                   graph := remove_recipes guest_deleted (graph s)\<rparr>)
            | None \<Rightarrow> drop_known env dir ctx msg DroppedUntrackedDeleteId s))
     else (Inr msg, s)))"

section \<open>Observations\<close>

definition observe_grabs :: "'b env \<Rightarrow> direction \<Rightarrow> msg_ctx \<Rightarrow> byte list \<Rightarrow> 'b relay_state \<Rightarrow> 'b relay_state" where
  "observe_grabs env dir ctx msg s =
    (let p = drop HEADER_LEN msg; g = mc_sender ctx; word = word_at (endian env) p in
     if dir = HostToClient \<and> i_name ctx = ''wl_pointer'' then
       (if d_name ctx = ''enter'' \<and> 8 \<le> length p then s\<lparr>grabs := on_pointer_enter g (word 4) (grabs s)\<rparr>
        else if d_name ctx = ''leave'' then s\<lparr>grabs := on_pointer_leave g (grabs s)\<rparr>
        else if d_name ctx = ''button'' \<and> 16 \<le> length p then
          s\<lparr>grabs := on_pointer_button g (word 8) (word 12) (grabs s)\<rparr>
        else s)
     else if dir = HostToClient \<and> i_name ctx = ''wl_keyboard'' then
       (if d_name ctx = ''enter'' \<and> 8 \<le> length p then s\<lparr>grabs := on_keyboard_enter g (word 4) (grabs s)\<rparr>
        else if d_name ctx = ''leave'' then s\<lparr>grabs := on_keyboard_leave g (grabs s)\<rparr>
        else s)
     else s)"

definition carries_serial :: "msg_ctx \<Rightarrow> bool" where
  "carries_serial ctx \<longleftrightarrow> (i_name ctx, d_name ctx) \<in>
    set [(''wl_pointer'', ''enter''), (''wl_pointer'', ''leave''), (''wl_pointer'', ''button''),
         (''wl_keyboard'', ''enter''), (''wl_keyboard'', ''leave''), (''wl_keyboard'', ''key''), (''wl_touch'', ''down'')]"

definition maybe_reclaim :: "'b env \<Rightarrow> direction \<Rightarrow> msg_ctx \<Rightarrow> byte list \<Rightarrow> 'b relay_state \<Rightarrow> 'b relay_state" where
  "maybe_reclaim env dir ctx msg s =
    (if reclaim_pending (reclaim s) \<and> dir = HostToClient \<and> carries_serial ctx then
       (case read_u32 (endian env) (drop HEADER_LEN msg) 0 of
          Some serial \<Rightarrow> attempt_clipboard_splice env serial s
        | None \<Rightarrow> s)
     else s)"

definition observe_resize :: "'b env \<Rightarrow> direction \<Rightarrow> msg_ctx \<Rightarrow> byte list \<Rightarrow> 'b relay_state \<Rightarrow> 'b relay_state" where
  "observe_resize env dir ctx msg s =
    (if dir = ClientToHost \<and> is_message ctx ''wl_shm_pool'' ''resize'' then
       (case read_u32 (endian env) (drop HEADER_LEN msg) 0 of
          Some size1 \<Rightarrow> s\<lparr>graph := update_shm_pool_size (mc_sender ctx) size1 (graph s)\<rparr>
        | None \<Rightarrow> s)
     else s)"

text \<open>The id that an installed application has, when the client's own is not one.\<close>

definition corrected_app_id :: "'b env \<Rightarrow> string \<Rightarrow> string option" where
  "corrected_app_id env app =
    (if has_id (apps env) app then None
     else case Option.bind (Option.bind (client_pid env) (binary_name_for_pid (exe_link env)))
                 (resolve_by_binary (apps env)) of
       None \<Rightarrow> None
     | Some resolved \<Rightarrow> if resolved \<noteq> app then Some resolved else None)"

definition observe_toplevel :: "'b env \<Rightarrow> direction \<Rightarrow> msg_ctx \<Rightarrow> byte list \<Rightarrow> ('b, byte list) relay_phase" where
  "observe_toplevel env dir ctx msg = (\<lambda>s.
    (if dir = ClientToHost \<and> is_message ctx ''xdg_toplevel'' ''set_title'' then
       (case read_str (endian env) (drop HEADER_LEN msg) 0 of
          Some (title, _) \<Rightarrow> (Inr msg, s\<lparr>graph := update_toplevel_title (mc_sender ctx) title (graph s)\<rparr>)
        | None \<Rightarrow> (Inr msg, s))
     else if dir = ClientToHost \<and> is_message ctx ''xdg_toplevel'' ''set_app_id'' then
       (case read_str (endian env) (drop HEADER_LEN msg) 0 of
          Some (app, _) \<Rightarrow>
            (case corrected_app_id env app of
               Some corrected \<Rightarrow>
                 (Inr (build_message (endian env) (sender_id (mc_header ctx)) (opcode (mc_header ctx))
                    (put_str (endian env) [] corrected)),
                  s\<lparr>graph := update_toplevel_app_id (mc_sender ctx) corrected (graph s)\<rparr>)
             | None \<Rightarrow> (Inr msg, s\<lparr>graph := update_toplevel_app_id (mc_sender ctx) app (graph s)\<rparr>))
        | None \<Rightarrow> (Inr msg, s))
     else (Inr msg, s)))"

definition observe_destination :: "'b env \<Rightarrow> direction \<Rightarrow> msg_ctx \<Rightarrow> byte list \<Rightarrow> 'b relay_state \<Rightarrow> 'b relay_state" where
  "observe_destination env dir ctx msg s =
    (if dir = ClientToHost \<and> is_message ctx ''wp_viewport'' ''set_destination'' then
       (case read_words (endian env) (drop HEADER_LEN msg) [0, 4] of
          Some [width, height] \<Rightarrow> s\<lparr>graph := update_viewport_destination (mc_sender ctx) width height (graph s)\<rparr>
        | _ \<Rightarrow> s)
     else s)"

definition drop_stale_release :: "'b env \<Rightarrow> direction \<Rightarrow> msg_ctx \<Rightarrow> byte list \<Rightarrow> ('b, unit) relay_phase" where
  "drop_stale_release env dir ctx msg = (\<lambda>s.
    (if dir = HostToClient \<and> is_message ctx ''wl_buffer'' ''release''
        \<and> \<not> is_current_generation (objects s) (mc_sender ctx)
     then drop_known env dir ctx msg DroppedStaleGeneration s
     else (Inr (), s)))"

definition observe_buffers :: "direction \<Rightarrow> msg_ctx \<Rightarrow> u32 list \<Rightarrow> 'b relay_state \<Rightarrow> 'b relay_state" where
  "observe_buffers dir ctx originals s =
    (if dir = ClientToHost \<and> is_message ctx ''wl_surface'' ''attach'' then
       s\<lparr>buffer_flow := on_attach (mc_sender ctx) (case originals of b # _ \<Rightarrow> b | [] \<Rightarrow> 0) (buffer_flow s)\<rparr>
     else if dir = ClientToHost \<and> is_message ctx ''wl_surface'' ''commit'' then
       s\<lparr>buffer_flow := on_commit (mc_sender ctx) (buffer_flow s)\<rparr>
     else if dir = HostToClient \<and> is_message ctx ''wl_buffer'' ''release'' then
       s\<lparr>buffer_flow := on_release (mc_sender ctx) (buffer_flow s)\<rparr>
     else s)"

definition observe_callbacks :: "direction \<Rightarrow> msg_ctx \<Rightarrow> u32 option \<Rightarrow> 'b relay_state \<Rightarrow> 'b relay_state" where
  "observe_callbacks dir ctx new_guest s =
    (if dir = ClientToHost \<and> is_message ctx ''wl_surface'' ''frame'' then
       (case new_guest of
          Some callback \<Rightarrow> s\<lparr>pending_frames := on_frame_requested callback (pending_frames s)\<rparr>
        | None \<Rightarrow> s)
     else if dir = ClientToHost \<and> is_message ctx ''wl_display'' ''sync'' then
       (case new_guest of
          Some callback \<Rightarrow> s\<lparr>pending_frames := on_sync_requested callback (pending_frames s)\<rparr>
        | None \<Rightarrow> s)
     else if dir = HostToClient \<and> is_message ctx ''wl_callback'' ''done'' then
       s\<lparr>pending_frames := on_done_received (mc_sender ctx) (pending_frames s)\<rparr>
     else s)"

section \<open>The sender\<close>

text \<open>What happens to a request whose sender the host does not know: a destructor is answered with
  \<open>delete_id\<close>, a frame request with \<open>done\<close> and \<open>delete_id\<close>.\<close>

definition answer_stale_sender :: "'b env \<Rightarrow> direction \<Rightarrow> msg_ctx \<Rightarrow> u32 option \<Rightarrow> 'b relay_state \<Rightarrow> 'b relay_state" where
  "answer_stale_sender env dir ctx new_guest s =
    (if dir = ClientToHost \<and> is_destructor (mc_desc ctx) then
       s\<lparr>src := synthesize_delete_id env (objects s) (mc_sender ctx) (src s),
         objects := remove_guest (bim env) (mc_sender ctx) (objects s),
         graph := remove_recipes (mc_sender ctx) (graph s)\<rparr>
     else if dir = ClientToHost \<and> is_message ctx ''wl_surface'' ''frame'' then
       (case new_guest of
          Some callback \<Rightarrow> s\<lparr>src := synthesize_frame_done env (objects s) callback (src s)\<rparr>
        | None \<Rightarrow> s)
     else s)"

text \<open>The mapping of the new object is undone and its host id given back.\<close>

definition roll_back_new_id :: "'b env \<Rightarrow> direction \<Rightarrow> u32 option \<Rightarrow> ('b, 'm) session_scheme \<Rightarrow> ('b, 'm) session_scheme" where
  "roll_back_new_id env dir new_guest s =
    (case new_guest of
       None \<Rightarrow> s
     | Some ghost \<Rightarrow>
        let t = (if dir = ClientToHost then
                   (case host_id (bim env) (objects s) ghost of
                      Some h \<Rightarrow> unallocate_host_id h (objects s)
                    | None \<Rightarrow> objects s)
                 else objects s)
        in s\<lparr>objects := remove_guest (bim env) ghost t, graph := remove_recipes ghost (graph s)\<rparr>)"

definition other_side_sender :: "'b env \<Rightarrow> direction \<Rightarrow> 'b shadow_table \<Rightarrow> u32 \<Rightarrow> u32 option" where
  "other_side_sender env dir t g =
    (case dir of ClientToHost \<Rightarrow> host_id (bim env) t g | HostToClient \<Rightarrow> Some g)"

text \<open>The value is the sender on the receiving side and the message addressed from it. The header of
  the source's \<open>expect\<close> is always there, so a failed write of it leaves the message as it is.\<close>

definition readdress :: "'b env \<Rightarrow> direction \<Rightarrow> msg_ctx \<Rightarrow> u32 option \<Rightarrow> byte list \<Rightarrow> ('b, u32 \<times> byte list) relay_phase" where
  "readdress env dir ctx new_guest msg = (\<lambda>s.
    (case other_side_sender env dir (objects s) (mc_sender ctx) of
       None \<Rightarrow> (Inl DroppedNoSender, roll_back_new_id env dir new_guest (answer_stale_sender env dir ctx new_guest s))
     | Some other \<Rightarrow>
        (case write_sender_id (endian env) msg other of
           Inr msg' \<Rightarrow> (Inr (other, msg'), s)
         | Inl _ \<Rightarrow> (Inr (other, msg), s))))"

section \<open>Descriptors and forwarding\<close>

definition take_fds :: "nat \<Rightarrow> ('b, fd list) relay_phase" where
  "take_fds n = (\<lambda>s. (Inr (take n (read_fds (src s))), s\<lparr>src := (src s)\<lparr>read_fds := drop n (read_fds (src s))\<rparr>\<rparr>))"

definition tee_clipboard :: "'b env \<Rightarrow> direction \<Rightarrow> msg_ctx \<Rightarrow> byte list \<Rightarrow> fd list \<Rightarrow> ('b, fd list) relay_phase" where
  "tee_clipboard env dir ctx msg fds = (\<lambda>s.
    (if dir = HostToClient \<and> is_message ctx ''wl_data_source'' ''send'' then
       (case read_str (endian env) (drop HEADER_LEN msg) 0 of
          Some (mime, _) \<Rightarrow>
            if is_cacheable_mime mime \<and> fds \<noteq> [] then
              (case start_tee (pipes env) (last fds) mime of
                 Some (client_fd, pump_task) \<Rightarrow> (Inr (butlast fds @ [client_fd]), s\<lparr>tasks := tasks s @ [pump_task]\<rparr>)
               | None \<Rightarrow> (Inr (butlast fds), s))
            else (Inr fds, s)
        | None \<Rightarrow> (Inr fds, s))
     else (Inr fds, s)))"

definition forward :: "'b env \<Rightarrow> direction \<Rightarrow> msg_ctx \<Rightarrow> signature_walk \<Rightarrow> u32 \<Rightarrow> byte list \<Rightarrow> fd list
    \<Rightarrow> ('b, disposition) relay_phase" where
  "forward env dir ctx walk other msg fds = (\<lambda>s.
    (let note = (\<lambda>d n. record_message env dir d (i_name ctx) (d_name ctx) other (opcode (mc_header ctx)) n msg) in
     case dst s of
       Some c \<Rightarrow>
         let s = note Relayed (length fds) s
         in (Inr Relayed, s\<lparr>dst := Some (snd (write_message msg fds c))\<rparr>)
     | None \<Rightarrow> (Inr DroppedFrozen, note DroppedFrozen (fd_count walk) s)))"

definition retain_pool_fd :: "'b env \<Rightarrow> direction \<Rightarrow> msg_ctx \<Rightarrow> signature_walk \<Rightarrow> u32 option \<Rightarrow> byte list \<Rightarrow> fd list
    \<Rightarrow> 'b relay_state \<Rightarrow> 'b relay_state" where
  "retain_pool_fd env dir ctx walk new_guest msg fds s =
    (if dir = ClientToHost \<and> is_message ctx ''wl_shm'' ''create_pool'' \<and> fds \<noteq> [] then
       (case new_guest of
          None \<Rightarrow> s
        | Some pool \<Rightarrow>
           let size1 = (case Option.bind (new_id_offset walk)
                               (\<lambda>off. read_u32 (endian env) (drop HEADER_LEN msg) (off + 4)) of
                          Some v \<Rightarrow> v | None \<Rightarrow> 0)
           in s\<lparr>graph := record_recipe pool (RShmPool (mc_sender ctx) (last fds) size1) (graph s)\<rparr>)
     else s)"

definition retain_plane_fd :: "'b env \<Rightarrow> direction \<Rightarrow> msg_ctx \<Rightarrow> byte list \<Rightarrow> fd list
    \<Rightarrow> 'b relay_state \<Rightarrow> 'b relay_state" where
  "retain_plane_fd env dir ctx msg fds s =
    (if dir = ClientToHost \<and> is_message ctx ''zwp_linux_buffer_params_v1'' ''add'' \<and> fds \<noteq> [] then
       (case read_words (endian env) (drop HEADER_LEN msg) [0, 4, 8, 12, 16] of
          Some [idx, offset, stride, modifier_hi, modifier_lo] \<Rightarrow>
            (case hm_get (pending_dmabuf_planes s) (mc_sender ctx) of
               Some (dmabuf, planes) \<Rightarrow>
                 let plane = \<lparr>plane_fd = last fds, plane_idx = idx, plane_offset = offset, plane_stride = stride,
                              plane_modifier = push_bit 32 (ucast modifier_hi) OR ucast modifier_lo\<rparr>
                 in s\<lparr>pending_dmabuf_planes :=
                        hm_insert (mc_sender ctx) (dmabuf, planes @ [plane]) (pending_dmabuf_planes s)\<rparr>
             | None \<Rightarrow> s)
        | _ \<Rightarrow> s)
     else s)"

section \<open>One message\<close>

text \<open>The trackers look at the message; a stale release ends here, and an application id may be
  corrected.\<close>

definition observe_message :: "'b env \<Rightarrow> direction \<Rightarrow> msg_ctx \<Rightarrow> u32 list \<Rightarrow> u32 option \<Rightarrow> byte list
    \<Rightarrow> ('b, byte list) relay_phase" where
  "observe_message env dir ctx originals new_guest msg =
    and_then (modify (observe_grabs env dir ctx msg)) (\<lambda>_.
    and_then (modify (maybe_reclaim env dir ctx msg)) (\<lambda>_.
    and_then (modify (observe_resize env dir ctx msg)) (\<lambda>_.
    and_then (observe_toplevel env dir ctx msg) (\<lambda>msg.
    and_then (modify (observe_destination env dir ctx msg)) (\<lambda>_.
    and_then (drop_stale_release env dir ctx msg) (\<lambda>_.
    and_then (modify (observe_buffers dir ctx originals)) (\<lambda>_.
    and_then (modify (observe_callbacks dir ctx new_guest)) (\<lambda>_.
    go msg))))))))"

text \<open>From the translated payload to the receiving side.\<close>

definition deliver :: "'b env \<Rightarrow> direction \<Rightarrow> msg_ctx \<Rightarrow> signature_walk \<Rightarrow> u32 option \<Rightarrow> byte list
    \<Rightarrow> ('b, disposition) relay_phase" where
  "deliver env dir ctx walk new_guest msg =
    and_then (readdress env dir ctx new_guest msg) (\<lambda>(other, msg).
    and_then (take_fds (fd_count walk)) (\<lambda>fds.
    and_then (tee_clipboard env dir ctx msg fds) (\<lambda>fds.
    and_then (forward env dir ctx walk other msg fds) (\<lambda>d.
    and_then (modify (retain_pool_fd env dir ctx walk new_guest msg fds)) (\<lambda>_.
    and_then (modify (retain_plane_fd env dir ctx msg fds)) (\<lambda>_.
    go d))))))"

definition relay_message :: "'b env \<Rightarrow> direction \<Rightarrow> message_header \<Rightarrow> byte list \<Rightarrow> ('b, disposition) relay_phase" where
  "relay_message env dir h msg =
    and_then (resolve_message env dir h msg) (\<lambda>ctx.
    and_then (walk_message env dir ctx msg) (\<lambda>walk.
    let originals = original_object_values (endian env) msg (object_offsets walk) in
    and_then (translate_arguments env dir ctx walk msg) (\<lambda>msg.
    and_then (map_new_id env dir ctx walk originals msg) (\<lambda>(new_guest, msg).
    and_then (apply_delete_id env dir ctx msg) (\<lambda>msg.
    and_then (observe_message env dir ctx originals new_guest msg) (\<lambda>msg.
    deliver env dir ctx walk new_guest msg))))))"

definition process_message :: "'b env \<Rightarrow> direction \<Rightarrow> byte list \<Rightarrow> 'b relay_state \<Rightarrow> disposition \<times> 'b relay_state" where
  "process_message env dir msg s =
    (case parse_header (endian env) msg of
       None \<Rightarrow> (DroppedUnknown, s)
     | Some h \<Rightarrow>
        if dir = HostToClient \<and> Some (sender_id h) = active_source_host_id (reclaim s) then
          (Intercepted, handle_synthetic_clipboard_event env msg (opcode h) s)
        else (case relay_message env dir h msg s of
                (Inl d, s') \<Rightarrow> (d, s')
              | (Inr d, s') \<Rightarrow> (d, s')))"

section \<open>What each phase leaves alone\<close>

text \<open>The receive side of the source connection: nothing but the loop itself takes bytes off it.\<close>

definition same_input :: "('b, 'm) relay_state_scheme \<Rightarrow> ('b, 'n) relay_state_scheme \<Rightarrow> bool" where
  "same_input s s' \<longleftrightarrow> read_buf (src s') = read_buf (src s) \<and> recv_script (src s') = recv_script (src s)"

interpretation same_input: framing "same_input :: 'b relay_state \<Rightarrow> 'b relay_state \<Rightarrow> bool"
  by unfold_locales (simp_all add: same_input_def)

text \<open>The destination is left alone by everything but \<open>forward\<close>.\<close>

definition same_dst :: "'b relay_state \<Rightarrow> 'b relay_state \<Rightarrow> bool" where
  "same_dst s s' \<longleftrightarrow> dst s' = dst s"

interpretation same_dst: framing "same_dst :: 'b relay_state \<Rightarrow> 'b relay_state \<Rightarrow> bool"
  by unfold_locales (simp_all add: same_dst_def)

text \<open>Observers touch neither the translation tables nor the connections.\<close>

definition quiet :: "'b relay_state \<Rightarrow> 'b relay_state \<Rightarrow> bool" where
  "quiet s s' \<longleftrightarrow> objects s' = objects s \<and> src s' = src s \<and> dst s' = dst s \<and> cache s' = cache s \<and> reclaim s' = reclaim s"

interpretation quiet: framing "quiet :: 'b relay_state \<Rightarrow> 'b relay_state \<Rightarrow> bool"
  by unfold_locales (simp_all add: quiet_def)

lemma quiet_same: "quiet s s' \<Longrightarrow> same_input s s'" "quiet s s' \<Longrightarrow> same_dst s s'"
  by (simp_all add: quiet_def same_input_def same_dst_def)

lemma keeps_weaken: "keeps R m \<Longrightarrow> (\<And>s s'. R s s' \<Longrightarrow> Q s s') \<Longrightarrow> keeps Q m"
  by (auto simp: keeps_def)

lemma quiet_record: "quiet s (record_message env dir d i m sid opc n msg s)"
  by (simp add: quiet_def record_message_def)

lemma record_fields [simp]:
  "objects (record_message env dir d i m sid opc n msg s) = objects s"
  "graph (record_message env dir d i m sid opc n msg s) = graph s"
  "grabs (record_message env dir d i m sid opc n msg s) = grabs s"
  "buffer_flow (record_message env dir d i m sid opc n msg s) = buffer_flow s"
  "pending_frames (record_message env dir d i m sid opc n msg s) = pending_frames s"
  "pending_dmabuf_planes (record_message env dir d i m sid opc n msg s) = pending_dmabuf_planes s"
  "reclaim (record_message env dir d i m sid opc n msg s) = reclaim s"
  "cache (record_message env dir d i m sid opc n msg s) = cache s"
  "tasks (record_message env dir d i m sid opc n msg s) = tasks s"
  by (simp_all add: record_message_def)

lemma record_conns [simp]:
  "src (record_message env dir d i m sid opc n msg s) = src s"
  "dst (record_message env dir d i m sid opc n msg s) = dst s"
  by (simp_all add: record_message_def)

lemma keeps_quiet_drop: "keeps quiet (drop_known env dir ctx msg d)"
  by (simp add: keeps_def drop_known_def quiet_record)

lemma keeps_quiet_resolve: "keeps quiet (resolve_message env dir h msg)"
  by (rule keepsI) (auto simp: resolve_message_def quiet_record quiet.stay split: option.splits)

lemma keeps_quiet_walk: "keeps quiet (walk_message env dir ctx msg)"
  by (auto simp: walk_message_def quiet.keeps_go keeps_quiet_drop split: sum.splits)

lemma keeps_quiet_translate: "keeps quiet (translate_arguments env dir ctx walk msg)"
  using keepsD [OF keeps_quiet_drop]
  by (intro keepsI) (auto simp: translate_arguments_def Let_def quiet.stay split: sum.splits)

lemma quiet_observers:
  "quiet s (observe_grabs env dir ctx msg s)"
  "quiet s (observe_resize env dir ctx msg s)"
  "quiet s (observe_destination env dir ctx msg s)"
  "quiet s (observe_buffers dir ctx originals s)"
  "quiet s (observe_callbacks dir ctx new_guest s)"
  "quiet s (retain_pool_fd env dir ctx walk new_guest msg fds s)"
  "quiet s (retain_plane_fd env dir ctx msg fds s)"
  unfolding quiet_def
  by (simp_all add: observe_grabs_def observe_resize_def observe_destination_def observe_buffers_def
      observe_callbacks_def retain_pool_fd_def retain_plane_fd_def Let_def split: option.split list.split prod.split)

lemma keeps_quiet_toplevel: "keeps quiet (observe_toplevel env dir ctx msg)"
  by (rule keepsI) (auto simp: observe_toplevel_def quiet_def split: if_splits option.splits)

lemma keeps_quiet_stale: "keeps quiet (drop_stale_release env dir ctx msg)"
  using keepsD [OF keeps_quiet_drop]
  by (intro keepsI) (auto simp: drop_stale_release_def quiet.stay split: if_splits)

lemma keeps_quiet_tee: "keeps quiet (tee_clipboard env dir ctx msg fds)"
  by (rule keepsI) (auto simp: tee_clipboard_def quiet_def split: if_splits option.splits)

section \<open>The splice only writes\<close>

lemma write_message_input:
  "read_buf (snd (write_message msg fds c)) = read_buf c" "recv_script (snd (write_message msg fds c)) = recv_script c"
  "read_fds (snd (write_message msg fds c)) = read_fds c"
  using write_message_frame(1-3) [of msg fds c "fst (write_message msg fds c)" "snd (write_message msg fds c)"] by simp_all

text \<open>What the splice may change: the id allocator, the log of the connection it writes to, and the
  reclaim state.\<close>

definition only_writes :: "('b, 'm) relay_state_scheme \<Rightarrow> ('b, 'm) relay_state_scheme \<Rightarrow> bool" where
  "only_writes s s' \<longleftrightarrow> (\<exists>n c r. s' = s\<lparr>objects := (objects s)\<lparr>next_host_id := n\<rparr>, src := c, reclaim := r\<rparr> \<and>
     read_buf c = read_buf (src s) \<and> recv_script c = recv_script (src s) \<and> read_fds c = read_fds (src s))"

interpretation only_writes: framing "only_writes :: ('b, 'm) relay_state_scheme \<Rightarrow> _ \<Rightarrow> bool"
proof
  fix s s2 s3 :: "('b, 'm) relay_state_scheme"
  show "only_writes s s" unfolding only_writes_def
    by (intro exI [of _ "next_host_id (objects s)"] exI [of _ "src s"] exI [of _ "reclaim s"]) simp
  assume "only_writes s s2" "only_writes s2 s3"
  then show "only_writes s s3" unfolding only_writes_def by clarsimp blast
qed

lemma send_src_writes: "send_src env sender opc payload s = (ok, s') \<Longrightarrow> only_writes s s'"
  using write_message_input [of "build_message (endian env) sender opc payload" "[]" "src s"]
  unfolding only_writes_def send_src_def
  by (intro exI [of _ "next_host_id (objects s)"] exI [of _ "src s'"] exI [of _ "reclaim s"])
    (auto split: prod.splits)

lemma only_writes_id: "only_writes s (s\<lparr>objects := (objects s)\<lparr>next_host_id := n\<rparr>\<rparr>)"
  unfolding only_writes_def
  by (intro exI [of _ n] exI [of _ "src s"] exI [of _ "reclaim s"]) simp

lemma only_writes_reclaim: "only_writes s (s\<lparr>reclaim := r\<rparr>)"
  unfolding only_writes_def
  by (intro exI [of _ "next_host_id (objects s)"] exI [of _ "src s"] exI [of _ r]) simp

lemma unallocate_form: "\<exists>n. unallocate_host_id h t = t\<lparr>next_host_id := n\<rparr>"
proof (cases "h = next_host_id t - 1")
  case True
  then show ?thesis by (auto simp: unallocate_host_id_def)
next
  case False
  then show ?thesis by (intro exI [of _ "next_host_id t"]) (simp add: unallocate_host_id_def)
qed

lemma create_on_host_writes: "create_on_host env sender opc payload s = (r, s') \<Longrightarrow> only_writes s s'"
proof -
  assume c: "create_on_host env sender opc payload s = (r, s')"
  let ?s1 = "s\<lparr>objects := (objects s)\<lparr>next_host_id := next_host_id (objects s) + 1\<rparr>\<rparr>"
  obtain ok s2 where s: "send_src env sender opc (payload (next_host_id (objects s))) ?s1 = (ok, s2)" by fastforce
  have w: "only_writes s s2" using only_writes_id send_src_writes [OF s] by (rule only_writes.trans)
  obtain n where n: "unallocate_host_id (next_host_id (objects s)) (objects s2) = (objects s2)\<lparr>next_host_id := n\<rparr>"
    using unallocate_form by blast
  from c s have "s' = s2 \<or> s' = s2\<lparr>objects := (objects s2)\<lparr>next_host_id := n\<rparr>\<rparr>"
    by (auto simp: create_on_host_def allocate_host_id_def n split: bool.splits)
  then show ?thesis using w only_writes_id only_writes.trans by blast
qed

lemma offer_mime_types_writes: "offer_mime_types env source mimes s = (ok, s') \<Longrightarrow> only_writes s s'"
proof (induction mimes arbitrary: s)
  case (Cons m ms)
  obtain b s1 where s: "send_src env source 0 (put_str (endian env) [] m) s = (b, s1)" by fastforce
  show ?case
  proof (cases b)
    case True
    with Cons s have "only_writes s1 s'" by simp
    with send_src_writes [OF s] show ?thesis by (rule only_writes.trans)
  next
    case False
    with Cons s send_src_writes [OF s] show ?thesis by simp
  qed
qed (simp add: only_writes.stay)

text \<open>Carrying the frame through a case distinction, and past one more request.\<close>

lemma only_writes_cases:
  "only_writes s (snd m) \<Longrightarrow> (\<And>r s1. only_writes s s1 \<Longrightarrow> only_writes s (f r s1)) \<Longrightarrow>
   only_writes s (case m of (r, s1) \<Rightarrow> f r s1)"
  "only_writes s x \<Longrightarrow> (\<And>h. only_writes s (g h)) \<Longrightarrow> only_writes s (case o1 of None \<Rightarrow> x | Some h \<Rightarrow> g h)"
  "only_writes s x \<Longrightarrow> only_writes s y \<Longrightarrow> only_writes s (case b of True \<Rightarrow> x | False \<Rightarrow> y)"
  by (auto split: prod.split option.split bool.split)

lemma only_writes_then:
  "only_writes s s1 \<Longrightarrow> only_writes s (snd (create_on_host env sender opc payload s1))"
  "only_writes s s1 \<Longrightarrow> only_writes s (snd (send_src env sender opc bs s1))"
  "only_writes s s1 \<Longrightarrow> only_writes s (snd (offer_mime_types env source mimes s1))"
  "only_writes s s1 \<Longrightarrow> only_writes s (s1\<lparr>reclaim := r\<rparr>)"
  using create_on_host_writes [of env sender opc payload s1] send_src_writes [of env sender opc bs s1]
    offer_mime_types_writes [of env source mimes s1] only_writes_reclaim [of s1 r] only_writes.trans [of s s1]
  by (metis prod.collapse)+

lemma splice_messages_writes: "only_writes s (splice_messages env mimes ddm rh sh serial s)"
  unfolding splice_messages_def Let_def
  by (intro only_writes_cases only_writes_then only_writes.stay; assumption?)

lemma attempt_clipboard_splice_writes: "only_writes s (attempt_clipboard_splice env serial s)"
proof -
  let ?s = "s\<lparr>reclaim := (reclaim s)\<lparr>reclaim_pending := False\<rparr>\<rparr>"
  have "only_writes ?s (attempt_clipboard_splice env serial s)"
    unfolding attempt_clipboard_splice_def Let_def
    by (auto split: option.split simp: only_writes.stay splice_messages_writes)
  with only_writes_reclaim show ?thesis by (rule only_writes.trans)
qed

lemma maybe_reclaim_writes: "only_writes s (maybe_reclaim env dir ctx msg s)"
  by (simp add: maybe_reclaim_def only_writes.stay attempt_clipboard_splice_writes split: option.split)

lemma only_writes_same: "only_writes s s' \<Longrightarrow> same_input s s'"
  for s :: "'b relay_state"
  by (auto simp: only_writes_def same_input_def)

lemma only_writes_same_dst: "only_writes s s' \<Longrightarrow> same_dst s s'"
  by (auto simp: only_writes_def same_dst_def)

lemma synthesize_delete_id_input [simp]:
  "read_buf (synthesize_delete_id env t g c) = read_buf c"
  "recv_script (synthesize_delete_id env t g c) = recv_script c"
  "read_fds (synthesize_delete_id env t g c) = read_fds c"
  by (simp_all add: synthesize_delete_id_def write_message_input split: option.split)

lemma synthesize_frame_done_input [simp]:
  "read_buf (synthesize_frame_done env t g c) = read_buf c"
  "recv_script (synthesize_frame_done env t g c) = recv_script c"
  "read_fds (synthesize_frame_done env t g c) = read_fds c"
  by (simp_all add: synthesize_frame_done_def Let_def write_message_input split: option.split)

section \<open>The loop\<close>

lemma keeps_input_new_id: "keeps same_input (map_new_id env dir ctx walk originals msg)"
  by (rule keepsI)
    (auto simp: map_new_id_def go_def drop_known_def record_new_recipe_def same_input_def Let_def
      split: option.splits prod.splits direction.splits if_splits)

lemma keeps_input_delete_id: "keeps same_input (apply_delete_id env dir ctx msg)"
  by (rule keepsI)
    (auto simp: apply_delete_id_def drop_known_def same_input_def split: if_splits option.splits)

lemma keeps_input_observe: "keeps same_input (observe_message env dir ctx originals new_guest msg)"
  unfolding observe_message_def
  by (intro same_input.keeps_and_then same_input.keeps_modify same_input.keeps_go quiet_same(1)
      quiet_observers only_writes_same maybe_reclaim_writes
      keeps_weaken [OF keeps_quiet_toplevel] keeps_weaken [OF keeps_quiet_stale])

lemma roll_back_conns [simp]:
  "src (roll_back_new_id env dir g s) = src s" "dst (roll_back_new_id env dir g s) = dst s"
  for s :: "('b, 'm) relay_state_scheme"
  by (simp_all add: roll_back_new_id_def Let_def split: option.split)

lemma answer_stale_sender_input [simp]:
  "read_buf (src (answer_stale_sender env dir ctx g s)) = read_buf (src s)"
  "recv_script (src (answer_stale_sender env dir ctx g s)) = recv_script (src s)"
  "read_fds (src (answer_stale_sender env dir ctx g s)) = read_fds (src s)"
  "dst (answer_stale_sender env dir ctx g s) = dst s"
  by (simp_all add: answer_stale_sender_def split: option.split)

lemma keeps_input_readdress: "keeps same_input (readdress env dir ctx new_guest msg)"
  by (rule keepsI) (auto simp: readdress_def same_input_def split: option.splits sum.splits)

lemma keeps_input_take_fds: "keeps same_input (take_fds n)"
  by (rule keepsI) (auto simp: take_fds_def same_input_def)

lemma keeps_input_forward: "keeps same_input (forward env dir ctx walk other msg fds)"
  by (rule keepsI) (auto simp: forward_def same_input_def Let_def split: option.splits)

lemma keeps_input_deliver: "keeps same_input (deliver env dir ctx walk new_guest msg)"
  unfolding deliver_def
  by (intro same_input.keeps_and_then same_input.keeps_modify same_input.keeps_go quiet_same(1)
      quiet_observers keeps_input_readdress keeps_input_take_fds keeps_input_forward
      keeps_weaken [OF keeps_quiet_tee] | clarsimp split: prod.splits)+

lemma keeps_input_relay: "keeps same_input (relay_message env dir h msg)"
  unfolding relay_message_def Let_def
  by (intro same_input.keeps_and_then keeps_weaken [OF keeps_quiet_resolve] keeps_weaken [OF keeps_quiet_walk]
      keeps_weaken [OF keeps_quiet_translate] keeps_input_new_id keeps_input_delete_id
      keeps_input_observe keeps_input_deliver quiet_same(1) | clarsimp split: prod.splits)+

lemma handle_synthetic_input: "same_input s (handle_synthetic_clipboard_event env msg opc s)"
  for s :: "'b relay_state"
  by (simp add: handle_synthetic_clipboard_event_def same_input_def Let_def split: option.split list.split)

lemma process_message_input:
  assumes "process_message env dir msg s = (d, s')" shows "same_input s s'"
proof (cases "parse_header (endian env) msg")
  case None
  then show ?thesis using assms by (simp add: process_message_def same_input.stay)
next
  case (Some h)
  obtain r s1 where r: "relay_message env dir h msg s = (r, s1)" by fastforce
  then have "same_input s s1" by (rule keepsD [OF keeps_input_relay])
  moreover have "s' = s1 \<or> s' = handle_synthetic_clipboard_event env msg (opcode h) s"
    using assms Some r by (auto simp: process_message_def split: if_splits sum.splits)
  ultimately show ?thesis using handle_synthetic_input by auto
qed

text \<open>One pass of the loop, and the loop: every message is taken off the buffer after its processing,
  whatever its outcome.\<close>

definition drain_input :: "nat \<Rightarrow> 'b relay_state \<Rightarrow> 'b relay_state" where
  "drain_input n s = s\<lparr>src := (src s)\<lparr>read_buf := drop n (read_buf (src s))\<rparr>\<rparr>"

definition relay_step :: "'b env \<Rightarrow> direction \<Rightarrow> 'b relay_state \<Rightarrow> (disposition \<times> 'b relay_state) option" where
  "relay_step env dir s =
    (case take_message (endian env) (read_buf (src s)) of
       None \<Rightarrow> None
     | Some (_, consumed) \<Rightarrow>
        (case process_message env dir (take consumed (read_buf (src s))) s of
           (d, s') \<Rightarrow> Some (d, drain_input consumed s')))"

lemma relay_step_input:
  assumes "relay_step env dir s = Some (d, s')"
  obtains msg n where "take_message (endian env) (read_buf (src s)) = Some (msg, n)"
    "read_buf (src s) = msg @ read_buf (src s')" "length msg = n" "HEADER_LEN \<le> n"
    "recv_script (src s') = recv_script (src s)"
proof -
  from assms obtain m n s1 where t: "take_message (endian env) (read_buf (src s)) = Some (m, n)"
    and p: "process_message env dir (take n (read_buf (src s))) s = (d, s1)" and s': "s' = drain_input n s1"
    by (auto simp: relay_step_def split: option.splits prod.splits)
  show thesis
  proof (rule that [OF t])
    show "read_buf (src s) = m @ read_buf (src s')"
      using process_message_input [OF p] take_message_SomeD(3) [OF t]
      by (simp add: s' drain_input_def same_input_def)
    show "length m = n" "HEADER_LEN \<le> n" using take_message_SomeD [OF t] by auto
    show "recv_script (src s') = recv_script (src s)"
      using process_message_input [OF p] by (simp add: s' drain_input_def same_input_def)
  qed
qed

function relay_ready_messages :: "'b env \<Rightarrow> direction \<Rightarrow> 'b relay_state \<Rightarrow> 'b relay_state" where
  "relay_ready_messages env dir s =
    (case relay_step env dir s of
       None \<Rightarrow> s
     | Some (_, s') \<Rightarrow> relay_ready_messages env dir s')"
  by pat_completeness auto
termination
proof (relation "measure (\<lambda>(env, dir, s). length (read_buf (src s)))", simp)
  fix env :: "'b env" and dir s p d s'
  assume "relay_step env dir s = Some p" "(d, s') = p"
  then have "relay_step env dir s = Some (d, s')" by simp
  then show "((env, dir, s'), (env, dir, s)) \<in> measure (\<lambda>(env, dir, s). length (read_buf (src s)))"
    by (rule relay_step_input) (auto simp: HEADER_LEN_def)
qed

declare relay_ready_messages.simps [simp del]

end
