(* ===== verification/Recovery.thy ===== *)
theory Recovery
  imports Relay
begin

text \<open>
  \<open>recover_state_after_reconnect\<close> and \<open>synthesize_grab_releases\<close> of \<open>src/lib.rs\<close>: what happens on
  a fresh compositor connection before relaying resumes. Recovery is a phase over the state of
  the whole connection (\<open>proxy\<close>). It stops early in three ways: an error that is returned, a
  panic (a description without a child interface where the source expects one), or a wait for
  the registry that is never answered. Skipping one recipe is not an early exit of recovery,
  so a replayed request yields an optional result.
\<close>

record 'b proxy = "'b session" +
  gtk :: conn
  host :: conn
  frozen :: bool
  notifications :: nat

datatype recovery_stop = RecoveryFailed | RecoveryPanicked | RecoveryWaiting

type_synonym ('b, 'a) recovery_phase = "(recovery_stop, 'b proxy, 'a) phase"

section \<open>Requests to the fresh compositor\<close>

text \<open>A write whose failure is reported to the caller.\<close>

definition write_host :: "byte list \<Rightarrow> fd list \<Rightarrow> ('b, bool) recovery_phase" where
  "write_host msg fds = (\<lambda>s. case write_message msg fds (host s) of (ok, c) \<Rightarrow> (Inr ok, s\<lparr>host := c\<rparr>))"

text \<open>\<open>write_message(..).await?\<close>.\<close>

definition must_write_host :: "byte list \<Rightarrow> ('b, unit) recovery_phase" where
  "must_write_host msg = and_then (write_host msg []) (\<lambda>ok. if ok then go () else halt RecoveryFailed)"

definition fresh_host_id :: "('b, u32) recovery_phase" where
  "fresh_host_id = (\<lambda>s. case allocate_host_id (objects s) of (h, t) \<Rightarrow> (Inr h, s\<lparr>objects := t\<rparr>))"

definition map_object :: "'b env \<Rightarrow> u32 \<Rightarrow> u32 \<Rightarrow> interface \<Rightarrow> ('b, unit) recovery_phase" where
  "map_object env guest h iface = modify (\<lambda>s. s\<lparr>objects := st_map (bim env) guest h iface (objects s)\<rparr>)"

text \<open>Encode the values against the description's signature and send the request; the flag says
  whether it went out.\<close>

definition send_request :: "'b env \<Rightarrow> u32 \<Rightarrow> u16 \<Rightarrow> message_desc \<Rightarrow> wayland_value list \<Rightarrow> ('b, bool) recovery_phase" where
  "send_request env sender opc desc values =
    (case encode_arguments (endian env) (signature desc) values of
       Inl _ \<Rightarrow> go False
     | Inr (payload, fds) \<Rightarrow> write_host (build_message (endian env) sender opc payload) fds)"

text \<open>A request that creates an object: the value is the child's interface and its host id, or
  \<^const>\<open>None\<close> when the interface has no such request, the arguments do not fit or the write
  failed.\<close>

definition replay_create :: "'b env \<Rightarrow> interface \<Rightarrow> u32 \<Rightarrow> string \<Rightarrow> (u32 \<Rightarrow> wayland_value list)
    \<Rightarrow> ('b, (interface \<times> u32) option) recovery_phase" where
  "replay_create env parent parent_host name values =
    (case request_opcode parent name of
       None \<Rightarrow> go None
     | Some opc \<Rightarrow>
        let desc = requests parent ! unat opc in
        (case child_interface desc of
           None \<Rightarrow> halt RecoveryPanicked
         | Some child \<Rightarrow>
            and_then fresh_host_id (\<lambda>h.
            and_then (send_request env parent_host opc desc (values h)) (\<lambda>ok.
            go (if ok then Some (child, h) else None)))))"

text \<open>A request without a new object whose failure is only logged (a title, an application id, a
  destination).\<close>

definition replay_setter :: "'b env \<Rightarrow> interface \<Rightarrow> u32 \<Rightarrow> string \<Rightarrow> wayland_value list \<Rightarrow> ('b, unit) recovery_phase" where
  "replay_setter env iface h name values =
    (case request_opcode iface name of
       None \<Rightarrow> go ()
     | Some opc \<Rightarrow> and_then (send_request env h opc (requests iface ! unat opc) values) (\<lambda>_. go ()))"

section \<open>The registry\<close>

definition wanted_globals :: "string list" where
  "wanted_globals = recreatable_globals @ [''wl_data_device_manager'']"

text \<open>\<open>wl_registry.global(name, interface, version)\<close>; the later of two announcements counts.\<close>

definition note_global :: "endianness \<Rightarrow> byte list \<Rightarrow> (string, u32 \<times> u32) hash_map \<Rightarrow> (string, u32 \<times> u32) hash_map" where
  "note_global en payload globals =
    (case read_u32 en payload 0 of
       None \<Rightarrow> globals
     | Some name \<Rightarrow>
        (case read_str en payload 4 of
           None \<Rightarrow> globals
         | Some (iface, next1) \<Rightarrow>
            (case read_u32 en payload next1 of
               None \<Rightarrow> globals
             | Some version \<Rightarrow>
                if iface \<in> set wanted_globals then hm_insert iface (name, version) globals else globals)))"

lemma next_message_decreases:
  "next_message en timed c = (NextMsg h msg, c') \<Longrightarrow>
   (length (recv_script c'), length (read_buf c')) \<in> {(a, b). a < length (recv_script c)} \<union>
     {(a, b). a = length (recv_script c) \<and> b < length (read_buf c)}"
proof (induction en timed c rule: next_message.induct)
  case (1 en timed c)
  show ?case
  proof (cases "take_message en (read_buf c)")
    case (Some p)
    obtain m n where p: "p = (m, n)" by fastforce
    have "HEADER_LEN \<le> n" "n \<le> length (read_buf c)"
      using take_message_SomeD [of en "read_buf c" m n] Some p by auto
    moreover have "c' = c\<lparr>read_buf := drop n (read_buf c)\<rparr>"
      using 1(2) Some p by (subst (asm) next_message.simps) (auto simp: Let_def split: option.splits)
    ultimately show ?thesis by (simp add: HEADER_LEN_def)
  next
    case None
    then obtain k c1 where f: "fill timed c = (FillRead k, c1)"
      and r: "next_message en timed c1 = (NextMsg h msg, c')"
      using 1(2) by (subst (asm) next_message.simps) (auto split: prod.splits fill_result.splits)
    have "length (recv_script c1) < length (recv_script c)" using f by (rule fill_decreases)
    with 1(1) [OF None f [symmetric] refl r] show ?thesis by auto
  qed
qed

text \<open>One message off the host, and the loop until the callback of the \<open>sync\<close>.\<close>

function fetch_globals :: "'b env \<Rightarrow> u32 \<Rightarrow> u32 \<Rightarrow> (string, u32 \<times> u32) hash_map
    \<Rightarrow> ('b, (string, u32 \<times> u32) hash_map) recovery_phase" where
  "fetch_globals env registry_host sync_host globals s =
    (case next_message (endian env) False (host s) of
       (NextError, c) \<Rightarrow> (Inl RecoveryFailed, s\<lparr>host := c\<rparr>)
     | (NextBlocked, c) \<Rightarrow> (Inl RecoveryWaiting, s\<lparr>host := c\<rparr>)
     | (NextMsg h msg, c) \<Rightarrow>
         if sender_id h = registry_host \<and> opcode h = 0 then
           fetch_globals env registry_host sync_host (note_global (endian env) (drop HEADER_LEN msg) globals) (s\<lparr>host := c\<rparr>)
         else if sender_id h = sync_host \<and> opcode h = 0 then (Inr globals, s\<lparr>host := c\<rparr>)
         else fetch_globals env registry_host sync_host globals (s\<lparr>host := c\<rparr>))"
  by pat_completeness auto
termination
  by (relation "inv_image (less_than <*lex*> less_than)
      (\<lambda>(env, r, sy, g, s). (length (recv_script (host s)), length (read_buf (host s))))")
    (auto dest!: next_message_decreases [OF sym])

declare fetch_globals.simps [simp del]

section \<open>Recipes\<close>

text \<open>The interface and the host id of a parent, both needed to replay a child.\<close>

definition live :: "'b env \<Rightarrow> u32 \<Rightarrow> 'b proxy \<Rightarrow> (interface \<times> u32) option" where
  "live env guest s =
    (case st_interface (objects s) guest of
       None \<Rightarrow> None
     | Some iface \<Rightarrow> map_option (Pair iface) (host_id (bim env) (objects s) guest))"

definition replay_global :: "'b env \<Rightarrow> (string, u32 \<times> u32) hash_map \<Rightarrow> interface \<Rightarrow> u32 \<Rightarrow> u32 \<Rightarrow> interface \<Rightarrow> u32
    \<Rightarrow> ('b, unit) recovery_phase" where
  "replay_global env globals registry_iface registry_host guest iface requested =
    (case (if if_name iface \<in> set recreatable_globals then hm_get globals (if_name iface) else None) of
       None \<Rightarrow> go ()
     | Some (name, fresh_max) \<Rightarrow>
        and_then fresh_host_id (\<lambda>h.
        (case requests registry_iface of
           [] \<Rightarrow> halt RecoveryPanicked
         | bind_desc # _ \<Rightarrow>
            and_then (send_request env registry_host 0 bind_desc
              [VUint name, VString (if_name iface), VUint (min requested fresh_max), VNewId h]) (\<lambda>ok.
            if ok then map_object env guest h iface else go ()))))"

text \<open>The shape shared by the children: the parent must be live, \<open>values\<close> may need more ids.\<close>

definition replay_child :: "'b env \<Rightarrow> u32 \<Rightarrow> u32 \<Rightarrow> string \<Rightarrow> ('b proxy \<Rightarrow> (u32 \<Rightarrow> wayland_value list) option)
    \<Rightarrow> ('b, (interface \<times> u32) option) recovery_phase" where
  "replay_child env guest parent name values = (\<lambda>s.
    (case (live env parent s, values s) of
       (Some (parent_iface, parent_host), Some vs) \<Rightarrow>
         and_then (replay_create env parent_iface parent_host name vs) (\<lambda>r.
         (case r of
            None \<Rightarrow> go None
          | Some (child, h) \<Rightarrow> and_then (map_object env guest h child) (\<lambda>_. go (Some (child, h))))) s
     | _ \<Rightarrow> (Inr None, s)))"

definition with_surface :: "'b env \<Rightarrow> u32 \<Rightarrow> 'b proxy \<Rightarrow> (u32 \<Rightarrow> wayland_value list) option" where
  "with_surface env surface s =
    map_option (\<lambda>surface_host h. [VNewId h, VObject surface_host]) (host_id (bim env) (objects s) surface)"

definition force_commit :: "'b env \<Rightarrow> u32 \<Rightarrow> u32 \<Rightarrow> ('b, bool) recovery_phase" where
  "force_commit env guest parent = (\<lambda>s.
    (case recipe_for (graph s) parent of
       Some (RXdgSurface _ surface) \<Rightarrow>
         (case live env surface s of
            None \<Rightarrow> (Inr False, s)
          | Some (surface_iface, surface_host) \<Rightarrow>
             (case request_opcode surface_iface ''commit'' of
                None \<Rightarrow> (Inr False, s)
              | Some opc \<Rightarrow> write_host (build_message (endian env) surface_host opc []) [] s))
     | _ \<Rightarrow> (Inr False, s)))"

datatype wait_result = WaitDone | WaitFailed | WaitTimedOut

text \<open>Until the real \<open>xdg_surface.configure\<close> has been relayed; the toplevel's is relayed on the way,
  anything else is dropped.\<close>

function wait_configure :: "'b env \<Rightarrow> u32 \<Rightarrow> u32 \<Rightarrow> u16 option \<Rightarrow> u32 \<Rightarrow> u32 \<Rightarrow> u16 option
    \<Rightarrow> 'b proxy \<Rightarrow> wait_result \<times> 'b proxy" where
  "wait_configure env guest h toplevel_configure parent parent_host surface_configure s =
    (case next_message (endian env) True (host s) of
       (NextError, c) \<Rightarrow> (WaitFailed, s\<lparr>host := c\<rparr>)
     | (NextBlocked, c) \<Rightarrow> (WaitTimedOut, s\<lparr>host := c\<rparr>)
     | (NextMsg hd1 msg, c) \<Rightarrow>
         if sender_id hd1 = h \<and> Some (opcode hd1) = toplevel_configure then
           (case write_message (build_message (endian env) guest (opcode hd1) (drop HEADER_LEN msg)) [] (gtk s) of
              (True, g) \<Rightarrow> wait_configure env guest h toplevel_configure parent parent_host surface_configure
                            (s\<lparr>host := c, gtk := g\<rparr>)
            | (False, g) \<Rightarrow> (WaitFailed, s\<lparr>host := c, gtk := g\<rparr>))
         else if sender_id hd1 = parent_host \<and> Some (opcode hd1) = surface_configure then
           (case write_message (build_message (endian env) parent (opcode hd1) (drop HEADER_LEN msg)) [] (gtk s) of
              (ok, g) \<Rightarrow> (if ok then WaitDone else WaitFailed, s\<lparr>host := c, gtk := g\<rparr>))
         else wait_configure env guest h toplevel_configure parent parent_host surface_configure (s\<lparr>host := c\<rparr>))"
  by pat_completeness auto
termination
  by (relation "inv_image (less_than <*lex*> less_than)
      (\<lambda>(env, g, h, t, p, ph, sc, s). (length (recv_script (host s)), length (read_buf (host s))))")
    (auto dest!: next_message_decreases [OF sym])

text \<open>Until the client's \<open>ack_configure\<close> has been forwarded.\<close>

function wait_ack :: "'b env \<Rightarrow> u32 \<Rightarrow> u32 \<Rightarrow> u16 option \<Rightarrow> 'b proxy \<Rightarrow> wait_result \<times> 'b proxy" where
  "wait_ack env parent parent_host ack_configure s =
    (case next_message (endian env) True (gtk s) of
       (NextError, c) \<Rightarrow> (WaitFailed, s\<lparr>gtk := c\<rparr>)
     | (NextBlocked, c) \<Rightarrow> (WaitTimedOut, s\<lparr>gtk := c\<rparr>)
     | (NextMsg hd1 msg, c) \<Rightarrow>
         if sender_id hd1 = parent \<and> Some (opcode hd1) = ack_configure then
           (case write_message (build_message (endian env) parent_host (opcode hd1) (drop HEADER_LEN msg)) [] (host s) of
              (ok, hc) \<Rightarrow> (if ok then WaitDone else WaitFailed, s\<lparr>gtk := c, host := hc\<rparr>))
         else wait_ack env parent parent_host ack_configure (s\<lparr>gtk := c\<rparr>))"
  by pat_completeness auto
termination
  by (relation "inv_image (less_than <*lex*> less_than)
      (\<lambda>(env, p, ph, a, s). (length (recv_script (gtk s)), length (read_buf (gtk s))))")
    (auto dest!: next_message_decreases [OF sym])

declare wait_configure.simps [simp del] wait_ack.simps [simp del]

definition configure_handshake :: "'b env \<Rightarrow> u32 \<Rightarrow> u32 \<Rightarrow> interface \<Rightarrow> u32 \<Rightarrow> interface \<Rightarrow> u32
    \<Rightarrow> ('b, unit) recovery_phase" where
  "configure_handshake env guest h child parent parent_iface parent_host = (\<lambda>s.
    (case wait_configure env guest h (event_opcode child ''configure'') parent parent_host
            (event_opcode parent_iface ''configure'') s of
       (WaitDone, s) \<Rightarrow> (Inr (), snd (wait_ack env parent parent_host (request_opcode parent_iface ''ack_configure'') s))
     | (_, s) \<Rightarrow> (Inr (), s)))"

definition replay_toplevel :: "'b env \<Rightarrow> u32 \<Rightarrow> u32 \<Rightarrow> string option \<Rightarrow> string option \<Rightarrow> ('b, unit) recovery_phase" where
  "replay_toplevel env guest parent title app_id = (\<lambda>s.
    (case live env parent s of
       None \<Rightarrow> (Inr (), s)
     | Some (parent_iface, parent_host) \<Rightarrow>
        and_then (replay_child env guest parent ''get_toplevel'' (\<lambda>_. Some (\<lambda>h. [VNewId h]))) (\<lambda>r.
        (case r of
           None \<Rightarrow> go ()
         | Some (child, h) \<Rightarrow>
            and_then (case title of None \<Rightarrow> go () | Some t \<Rightarrow> replay_setter env child h ''set_title'' [VString t]) (\<lambda>_.
            and_then (case app_id of None \<Rightarrow> go () | Some a \<Rightarrow> replay_setter env child h ''set_app_id'' [VString a]) (\<lambda>_.
            and_then (force_commit env guest parent) (\<lambda>sent.
            if sent then configure_handshake env guest h child parent parent_iface parent_host else go ()))))) s))"

definition plane_values :: "dmabuf_plane \<Rightarrow> wayland_value list" where
  "plane_values p = [VFd (plane_fd p), VUint (plane_idx p), VUint (plane_offset p), VUint (plane_stride p),
     VUint (ucast (drop_bit 32 (plane_modifier p))), VUint (ucast (plane_modifier p AND 0xFFFFFFFF))]"

fun add_planes :: "'b env \<Rightarrow> u32 \<Rightarrow> u16 \<Rightarrow> message_desc \<Rightarrow> dmabuf_plane list \<Rightarrow> ('b, bool) recovery_phase" where
  "add_planes env params_host opc desc [] = go True"
| "add_planes env params_host opc desc (p # ps) =
    and_then (send_request env params_host opc desc (plane_values p)) (\<lambda>ok.
    if ok then add_planes env params_host opc desc ps else go False)"

definition replay_dmabuf :: "'b env \<Rightarrow> u32 \<Rightarrow> u32 \<Rightarrow> i32 \<Rightarrow> i32 \<Rightarrow> u32 \<Rightarrow> u32 \<Rightarrow> dmabuf_plane list
    \<Rightarrow> ('b, unit) recovery_phase" where
  "replay_dmabuf env guest dmabuf width height format flags planes = (\<lambda>s.
    (case live env dmabuf s of
       None \<Rightarrow> (Inr (), s)
     | Some (dmabuf_iface, dmabuf_host) \<Rightarrow>
        and_then (replay_create env dmabuf_iface dmabuf_host ''create_params'' (\<lambda>h. [VNewId h])) (\<lambda>r.
        (case r of
           None \<Rightarrow> go ()
         | Some (params_iface, params_host) \<Rightarrow>
            (case request_opcode params_iface ''add'' of
               None \<Rightarrow> go ()
             | Some add_opcode \<Rightarrow>
                and_then (add_planes env params_host add_opcode (requests params_iface ! unat add_opcode) planes) (\<lambda>added.
                if \<not> added then go ()
                else and_then (replay_create env params_iface params_host ''create_immed''
                       (\<lambda>h. [VNewId h, VInt width, VInt height, VUint format, VUint flags])) (\<lambda>b.
                (case b of
                   None \<Rightarrow> go ()
                 | Some (buffer_iface, buffer_host) \<Rightarrow> map_object env guest buffer_host buffer_iface)))))) s))"

definition replay_viewport :: "'b env \<Rightarrow> u32 \<Rightarrow> u32 \<Rightarrow> u32 \<Rightarrow> (i32 \<times> i32) option \<Rightarrow> ('b, unit) recovery_phase" where
  "replay_viewport env guest viewporter surface destination =
    and_then (replay_child env guest viewporter ''get_viewport'' (with_surface env surface)) (\<lambda>r.
    (case (r, destination) of
       (Some (child, h), Some (w, ht)) \<Rightarrow> replay_setter env child h ''set_destination'' [VInt w, VInt ht]
     | _ \<Rightarrow> go ()))"

definition skip_result :: "('d, 's, 'a) phase \<Rightarrow> ('d, 's, unit) phase" where
  "skip_result m = and_then m (\<lambda>_. go ())"

text \<open>The arms of the match that are one request each.\<close>

definition replay_surface :: "'b env \<Rightarrow> u32 \<Rightarrow> u32 \<Rightarrow> ('b, unit) recovery_phase" where
  "replay_surface env guest parent =
     skip_result (replay_child env guest parent ''create_surface'' (\<lambda>_. Some (\<lambda>h. [VNewId h])))"

definition replay_xdg_surface :: "'b env \<Rightarrow> u32 \<Rightarrow> u32 \<Rightarrow> u32 \<Rightarrow> ('b, unit) recovery_phase" where
  "replay_xdg_surface env guest parent surface =
     skip_result (replay_child env guest parent ''get_xdg_surface'' (with_surface env surface))"

definition replay_shm_pool :: "'b env \<Rightarrow> u32 \<Rightarrow> u32 \<Rightarrow> fd \<Rightarrow> i32 \<Rightarrow> ('b, unit) recovery_phase" where
  "replay_shm_pool env guest shm f size1 =
     skip_result (replay_child env guest shm ''create_pool'' (\<lambda>_. Some (\<lambda>h. [VNewId h, VFd f, VInt size1])))"

definition replay_shm_buffer :: "'b env \<Rightarrow> u32 \<Rightarrow> u32 \<Rightarrow> i32 \<Rightarrow> i32 \<Rightarrow> i32 \<Rightarrow> i32 \<Rightarrow> u32 \<Rightarrow> ('b, unit) recovery_phase" where
  "replay_shm_buffer env guest pool offset width height stride format =
     skip_result (replay_child env guest pool ''create_buffer''
       (\<lambda>_. Some (\<lambda>h. [VNewId h, VInt offset, VInt width, VInt height, VInt stride, VUint format])))"

definition replay_seat_device :: "'b env \<Rightarrow> u32 \<Rightarrow> u32 \<Rightarrow> seat_device_kind \<Rightarrow> ('b, unit) recovery_phase" where
  "replay_seat_device env guest seat kind =
     skip_result (replay_child env guest seat (request_name kind) (\<lambda>_. Some (\<lambda>h. [VNewId h])))"

definition replay_fractional_scale :: "'b env \<Rightarrow> u32 \<Rightarrow> u32 \<Rightarrow> u32 \<Rightarrow> ('b, unit) recovery_phase" where
  "replay_fractional_scale env guest manager surface =
     skip_result (replay_child env guest manager ''get_fractional_scale'' (with_surface env surface))"

lemmas replay_request_defs = replay_surface_def replay_xdg_surface_def replay_shm_pool_def replay_shm_buffer_def
  replay_seat_device_def replay_fractional_scale_def

fun replay_recipe :: "'b env \<Rightarrow> (string, u32 \<times> u32) hash_map \<Rightarrow> interface \<Rightarrow> u32 \<Rightarrow> u32 \<Rightarrow> recreatable
    \<Rightarrow> ('b, unit) recovery_phase" where
  "replay_recipe env globals registry_iface registry_host guest (RGlobal iface requested) =
     replay_global env globals registry_iface registry_host guest iface requested"
| "replay_recipe env globals registry_iface registry_host guest (RSurface parent) = replay_surface env guest parent"
| "replay_recipe env globals registry_iface registry_host guest (RXdgSurface parent surface) =
     replay_xdg_surface env guest parent surface"
| "replay_recipe env globals registry_iface registry_host guest (RXdgToplevel parent title app_id) =
     replay_toplevel env guest parent title app_id"
| "replay_recipe env globals registry_iface registry_host guest (RShmPool shm f size1) = replay_shm_pool env guest shm f size1"
| "replay_recipe env globals registry_iface registry_host guest (RShmBuffer pool offset width height stride format) =
     replay_shm_buffer env guest pool offset width height stride format"
| "replay_recipe env globals registry_iface registry_host guest (RDmabufBuffer dmabuf width height format flags planes) =
     replay_dmabuf env guest dmabuf width height format flags planes"
| "replay_recipe env globals registry_iface registry_host guest (RSeatDevice seat kind) = replay_seat_device env guest seat kind"
| "replay_recipe env globals registry_iface registry_host guest (RViewport viewporter surface destination) =
     replay_viewport env guest viewporter surface destination"
| "replay_recipe env globals registry_iface registry_host guest (RFractionalScale manager surface) =
     replay_fractional_scale env guest manager surface"

fun replay_graph :: "'b env \<Rightarrow> (string, u32 \<times> u32) hash_map \<Rightarrow> interface \<Rightarrow> u32 \<Rightarrow> recreation_graph
    \<Rightarrow> ('b, unit) recovery_phase" where
  "replay_graph env globals registry_iface registry_host [] = go ()"
| "replay_graph env globals registry_iface registry_host ((guest, recipe) # g) =
    and_then (replay_recipe env globals registry_iface registry_host guest recipe) (\<lambda>_.
    replay_graph env globals registry_iface registry_host g)"

section \<open>Overdue answers\<close>

fun release_buffers :: "'b env \<Rightarrow> u32 list \<Rightarrow> 'b proxy \<Rightarrow> 'b proxy" where
  "release_buffers env [] s = s"
| "release_buffers env (buffer # bs) s =
    release_buffers env bs
      (case live env buffer s of
         None \<Rightarrow> s
       | Some (iface, _) \<Rightarrow>
          (case event_opcode iface ''release'' of
             None \<Rightarrow> s
           | Some opc \<Rightarrow> s\<lparr>gtk := snd (write_message (build_message (endian env) buffer opc []) [] (gtk s))\<rparr>))"

fun answer_callbacks :: "'b env \<Rightarrow> u32 list \<Rightarrow> 'b proxy \<Rightarrow> 'b proxy" where
  "answer_callbacks env [] s = s"
| "answer_callbacks env (callback # cs) s =
    answer_callbacks env cs
      (if st_interface (objects s) callback = None then s
       else s\<lparr>gtk := synthesize_frame_done env (objects s) callback (gtk s)\<rparr>)"

definition release_in_flight :: "'b env \<Rightarrow> 'b proxy \<Rightarrow> 'b proxy" where
  "release_in_flight env s =
    (case drain_in_flight (ord_ids env) (buffer_flow s) of
       (buffers, t) \<Rightarrow> release_buffers env buffers (s\<lparr>buffer_flow := t\<rparr>))"

definition answer_awaiting :: "'b env \<Rightarrow> 'b proxy \<Rightarrow> 'b proxy" where
  "answer_awaiting env s =
    (case drain_awaiting_done (ord_ids env) (pending_frames s) of
       (callbacks, t) \<Rightarrow> answer_callbacks env callbacks (s\<lparr>pending_frames := t\<rparr>))"

section \<open>The whole recovery\<close>

definition recover_registry :: "'b env \<Rightarrow> u32 \<Rightarrow> interface
    \<Rightarrow> ('b, u32 \<times> (string, u32 \<times> u32) hash_map) recovery_phase" where
  "recover_registry env registry_guest registry_iface =
    (let en = endian env in
     and_then fresh_host_id (\<lambda>registry_host.
     and_then fresh_host_id (\<lambda>sync_host.
     and_then (must_write_host (build_message en 1 1 (put_u32 en [] registry_host))) (\<lambda>_.
     and_then (must_write_host (build_message en 1 0 (put_u32 en [] sync_host))) (\<lambda>_.
     and_then (fetch_globals env registry_host sync_host []) (\<lambda>globals.
     and_then (map_object env registry_guest registry_host registry_iface) (\<lambda>_.
     go (registry_host, globals))))))))"

definition recover_state_after_reconnect :: "'b env \<Rightarrow> ('b, unit) recovery_phase" where
  "recover_state_after_reconnect env =
    and_then (modify (\<lambda>s. s\<lparr>reclaim := (reclaim s)\<lparr>active_source_host_id := None\<rparr>\<rparr>)) (\<lambda>_ s.
    (case find_guest_id_by_interface_name (ord_ids env) (objects s) ''wl_registry'' of
       None \<Rightarrow> (Inr (), s)
     | Some registry_guest \<Rightarrow>
        (case st_interface (objects s) registry_guest of
           None \<Rightarrow> (Inl RecoveryPanicked, s)
         | Some registry_iface \<Rightarrow>
            and_then (recover_registry env registry_guest registry_iface) (\<lambda>(registry_host, globals) s.
            and_then (replay_graph env globals registry_iface registry_host (graph s)) (\<lambda>_.
            and_then (modify (release_in_flight env)) (\<lambda>_.
            and_then (modify (answer_awaiting env)) (\<lambda>_.
            modify (\<lambda>s. s\<lparr>reclaim := (reclaim s)\<lparr>data_device_manager_global := hm_get globals ''wl_data_device_manager'',
                                        reclaim_pending := True\<rparr>\<rparr>)))) s) s)))"

section \<open>Stuck grabs\<close>

definition write_event :: "byte list \<Rightarrow> conn \<Rightarrow> conn" where
  "write_event msg c = snd (write_message msg [] c)"

definition leave_message :: "endianness \<Rightarrow> u32 \<Rightarrow> u16 \<Rightarrow> u32 \<Rightarrow> u32 \<Rightarrow> byte list" where
  "leave_message en device opc serial surface = build_message en device opc (put_u32 en (put_u32 en [] serial) surface)"

definition button_release_message :: "endianness \<Rightarrow> u32 \<Rightarrow> u16 \<Rightarrow> u32 \<Rightarrow> u32 \<Rightarrow> byte list" where
  "button_release_message en device opc serial button =
     build_message en device opc (put_u32 en (put_u32 en (put_u32 en (put_u32 en [] serial) 0) button) 0)"

fun release_buttons :: "endianness \<Rightarrow> u32 \<Rightarrow> u16 \<Rightarrow> u32 list \<Rightarrow> u32 \<times> conn \<Rightarrow> u32 \<times> conn" where
  "release_buttons en device opc [] (serial, c) = (serial, c)"
| "release_buttons en device opc (b # bs) (serial, c) =
    release_buttons en device opc bs (serial + 1, write_event (button_release_message en device opc serial b) c)"

text \<open>Serials count up from the one given; the value is the next serial and the client connection.\<close>

fun release_pointers :: "'b env \<Rightarrow> 'b shadow_table \<Rightarrow> (u32 \<times> u32 option \<times> u32 list) list \<Rightarrow> u32 \<times> conn \<Rightarrow> u32 \<times> conn" where
  "release_pointers env t [] sc = sc"
| "release_pointers env t ((pointer, entered, pressed) # rest) sc =
    release_pointers env t rest
      (case st_interface t pointer of
         None \<Rightarrow> sc
       | Some iface \<Rightarrow>
          let sc = (case (entered, event_opcode iface ''leave'', sc) of
                      (Some surface, Some opc, (serial, c)) \<Rightarrow>
                        (serial + 1, write_event (leave_message (endian env) pointer opc serial surface) c)
                    | _ \<Rightarrow> sc)
          in (case (pressed, event_opcode iface ''button'') of
                (b # bs, Some opc) \<Rightarrow> release_buttons (endian env) pointer opc pressed sc
              | _ \<Rightarrow> sc))"

fun release_keyboards :: "'b env \<Rightarrow> 'b shadow_table \<Rightarrow> (u32 \<times> u32) list \<Rightarrow> u32 \<times> conn \<Rightarrow> u32 \<times> conn" where
  "release_keyboards env t [] sc = sc"
| "release_keyboards env t ((keyboard, surface) # rest) sc =
    release_keyboards env t rest
      (case (Option.bind (st_interface t keyboard) (\<lambda>iface. event_opcode iface ''leave''), sc) of
         (Some opc, (serial, c)) \<Rightarrow>
           (serial + 1, write_event (leave_message (endian env) keyboard opc serial surface) c)
       | _ \<Rightarrow> sc)"

definition synthesize_grab_releases :: "'b env \<Rightarrow> 'b proxy \<Rightarrow> 'b proxy" where
  "synthesize_grab_releases env s =
    (let sc = release_pointers env (objects s) (active_pointer_grabs (ord_ids env) (grabs s)) (1, gtk s);
         sc = release_keyboards env (objects s) (active_keyboard_grabs (ord_ids env) (grabs s)) sc
     in s\<lparr>gtk := snd sc, grabs := clear_grabs (grabs s)\<rparr>)"

end
