(* ===== verification/RelayFacts.thy ===== *)
theory RelayFacts
  imports Relay
begin

text \<open>
  What relaying guarantees. The locale \<open>relay_frame\<close> collects what a relation needs to be carried
  through a whole relay pass; its interpretations show that generations are stable and that the
  clipboard cache is not written while relaying. The second part characterises the translation
  of a payload.
\<close>

section \<open>Frames of a relay pass\<close>

lemma handle_synthetic_objects [simp]:
  "objects (handle_synthetic_clipboard_event env msg opc s) = objects s"
  "graph (handle_synthetic_clipboard_event env msg opc s) = graph s"
  "dst (handle_synthetic_clipboard_event env msg opc s) = dst s"
  for s :: "'b relay_state"
  by (simp_all add: handle_synthetic_clipboard_event_def Let_def split: option.split list.split)

lemma process_message_cases:
  assumes "process_message env dir msg s = (d, s')"
  obtains (short) "parse_header (endian env) msg = None" "d = DroppedUnknown" "s' = s"
    | (synthetic) h where "parse_header (endian env) msg = Some h" "dir = HostToClient"
        "Some (sender_id h) = active_source_host_id (reclaim s)" "d = Intercepted"
        "s' = handle_synthetic_clipboard_event env msg (opcode h) s"
    | (stopped) h where "parse_header (endian env) msg = Some h"
        "\<not> (dir = HostToClient \<and> Some (sender_id h) = active_source_host_id (reclaim s))"
        "relay_message env dir h msg s = (Inl d, s')"
    | (through) h where "parse_header (endian env) msg = Some h"
        "\<not> (dir = HostToClient \<and> Some (sender_id h) = active_source_host_id (reclaim s))"
        "relay_message env dir h msg s = (Inr d, s')"
  using assms
  by (auto simp: process_message_def split: option.splits if_splits prod.splits sum.splits)

text \<open>An invariant of the loop is an invariant of its step.\<close>

lemma relay_ready_messages_frame:
  assumes "framing R" "\<And>s d s'. relay_step env dir s = Some (d, s') \<Longrightarrow> R s s'"
  shows "R s (relay_ready_messages env dir s)"
  using assms
proof (induction env dir s rule: relay_ready_messages.induct)
  case (1 env dir s)
  show ?case
  proof (cases "relay_step env dir s")
    case None
    then show ?thesis
      by (subst relay_ready_messages.simps) (simp add: framing.stay [OF 1(2)])
  next
    case (Some p)
    obtain d s1 where p: "p = (d, s1)" by fastforce
    have "R s s1" using Some unfolding p by (rule 1(3))
    moreover have "R s1 (relay_ready_messages env dir s1)" by (rule 1(1) [OF Some p [symmetric] 1(2,3)])
    ultimately have "R s (relay_ready_messages env dir s1)" by (rule framing.trans [OF 1(2)])
    then show ?thesis by (subst relay_ready_messages.simps) (simp add: Some p)
  qed
qed

text \<open>What a relation between states needs to be carried through a whole relay pass.\<close>

locale relay_frame = framing R for R :: "'b relay_state \<Rightarrow> 'b relay_state \<Rightarrow> bool" +
  assumes quiet: "quiet s s' \<Longrightarrow> R s s'"
    and writes: "only_writes s s' \<Longrightarrow> R s s'"
    and new_id: "keeps R (map_new_id env dir ctx walk originals msg)"
    and delete_id: "keeps R (apply_delete_id env dir ctx msg)"
    and roll_back: "R s (roll_back_new_id env dir g s)"
    and answer_stale: "R s (answer_stale_sender env dir ctx g s)"
    and input: "R s (s\<lparr>src := c\<rparr>)"
    and forwarding: "keeps R (forward env dir ctx walk other m fds)"
    and synthetic: "R s (handle_synthetic_clipboard_event env msg opc s)"
begin

lemma keeps_observe: "keeps R (observe_message env dir ctx originals new_guest msg)"
  unfolding observe_message_def
  by (intro keeps_and_then keeps_modify keeps_go quiet quiet_observers writes maybe_reclaim_writes
      keeps_weaken [OF keeps_quiet_toplevel] keeps_weaken [OF keeps_quiet_stale])

lemma keeps_deliver: "keeps R (deliver env dir ctx walk new_guest msg)"
proof -
  have r: "keeps R (readdress env dir ctx new_guest m)" for m
    using trans [OF answer_stale roll_back]
    by (intro keepsI) (auto simp: readdress_def stay split: option.splits sum.splits)
  have t: "keeps R (take_fds n)" for n
    by (rule keepsI) (auto simp: take_fds_def input)
  show ?thesis unfolding deliver_def
    by (intro keeps_and_then keeps_modify keeps_go quiet
        quiet_observers keeps_weaken [OF keeps_quiet_tee] r t forwarding | clarsimp split: prod.splits)+
qed

lemma keeps_relay: "keeps R (relay_message env dir h msg)"
  unfolding relay_message_def Let_def
  by (intro keeps_and_then keeps_weaken [OF keeps_quiet_resolve] keeps_weaken [OF keeps_quiet_walk]
      keeps_weaken [OF keeps_quiet_translate] new_id delete_id
      keeps_observe keeps_deliver quiet | clarsimp split: prod.splits)+

lemma process: "process_message env dir msg s = (d, s') \<Longrightarrow> R s s'"
  by (erule process_message_cases) (auto simp: stay synthetic intro: keepsD [OF keeps_relay])

lemma pass: "R s (relay_ready_messages env dir s)"
proof (rule relay_ready_messages_frame)
  fix s s' :: "'b relay_state" and d assume "relay_step env dir s = Some (d, s')"
  then show "R s s'" by (auto simp: relay_step_def drain_input_def dest!: process split: option.splits prod.splits intro: trans [OF _ input])
qed (rule framing_axioms)

end

section \<open>Generations are stable while relaying\<close>

definition steady :: "('b, 'm) session_scheme \<Rightarrow> ('b, 'm) session_scheme \<Rightarrow> bool" where
  "steady s s' \<longleftrightarrow> generation (objects s') = generation (objects s) \<and> (gens_ok (objects s) \<longrightarrow> gens_ok (objects s'))"

lemma steady_refl: "steady s s" and steady_trans: "steady s1 s2 \<Longrightarrow> steady s2 s3 \<Longrightarrow> steady s1 s3"
  by (simp_all add: steady_def)

lemma unallocate_gens [simp]:
  "generation (unallocate_host_id h t) = generation t" "gens_ok t \<Longrightarrow> gens_ok (unallocate_host_id h t)"
  "interfaces (unallocate_host_id h t) = interfaces t"
  by (simp_all add: unallocate_host_id_def gens_ok_ops)

interpretation steady: relay_frame "steady :: 'b relay_state \<Rightarrow> _ \<Rightarrow> bool"
proof unfold_locales
  show "keeps steady (map_new_id env dir ctx walk originals msg :: ('b, _) relay_phase)" for env dir ctx walk originals msg
    by (rule keepsI)
      (auto simp: map_new_id_def go_def drop_known_def record_new_recipe_def steady_def Let_def new_id_pair_def
        allocate_host_id_def allocate_guest_server_id_def gens_ok_ops
        split: option.splits prod.splits direction.splits if_splits)
  show "keeps steady (apply_delete_id env dir ctx msg :: ('b, _) relay_phase)" for env dir ctx msg
    by (rule keepsI) (auto simp: apply_delete_id_def drop_known_def steady_def gens_ok_ops split: if_splits option.splits)
  show "keeps steady (forward env dir ctx walk other m fds :: ('b, _) relay_phase)" for env dir ctx walk other m fds
    by (rule keepsI) (auto simp: forward_def steady_def Let_def split: option.splits)
qed (auto simp: steady_def quiet_def only_writes_def gens_ok_ops roll_back_new_id_def answer_stale_sender_def Let_def split: option.split)

section \<open>The clipboard cache is only written by its tasks\<close>

definition same_cache :: "'b relay_state \<Rightarrow> 'b relay_state \<Rightarrow> bool" where
  "same_cache s s' \<longleftrightarrow> cache s' = cache s"

interpretation same_cache: relay_frame "same_cache :: 'b relay_state \<Rightarrow> _ \<Rightarrow> bool"
proof unfold_locales
  show "keeps same_cache (map_new_id env dir ctx walk originals msg :: ('b, _) relay_phase)" for env dir ctx walk originals msg
    by (rule keepsI)
      (auto simp: map_new_id_def go_def drop_known_def record_new_recipe_def same_cache_def Let_def
        split: option.splits prod.splits direction.splits if_splits)
  show "keeps same_cache (apply_delete_id env dir ctx msg :: ('b, _) relay_phase)" for env dir ctx msg
    by (rule keepsI) (auto simp: apply_delete_id_def drop_known_def same_cache_def split: if_splits option.splits)
  show "keeps same_cache (forward env dir ctx walk other m fds :: ('b, _) relay_phase)" for env dir ctx walk other m fds
    by (rule keepsI) (auto simp: forward_def same_cache_def Let_def split: option.splits)
qed (auto simp: same_cache_def quiet_def only_writes_def roll_back_new_id_def answer_stale_sender_def Let_def
    handle_synthetic_clipboard_event_def split: option.split list.split)

section \<open>Translating a payload\<close>

lemma word_at_overwrite:
  "pos + 4 \<le> length msg \<Longrightarrow> word_at en (overwrite msg pos (to_ne_bytes en v)) pos = v"
  by (simp add: word_at_def overwrite_def)

lemma take_drop_eqI:
  assumes "length xs = length ys" "a + n \<le> length xs" "\<And>i. a \<le> i \<Longrightarrow> i < a + n \<Longrightarrow> xs ! i = ys ! i"
  shows "take n (drop a xs) = take n (drop a ys)"
  using assms by (intro nth_equalityI) auto

lemma word_at_eqI:
  assumes "length xs = length ys" "a + 4 \<le> length xs" "\<And>i. a \<le> i \<Longrightarrow> i < a + 4 \<Longrightarrow> xs ! i = ys ! i"
  shows "word_at en xs a = word_at en ys a"
  unfolding word_at_def using take_drop_eqI [OF assms] by simp

lemma word_at_overwrite_other:
  assumes "pos + 4 \<le> length msg" "p + 4 \<le> length msg" "p + 4 \<le> pos \<or> pos + 4 \<le> p"
  shows "word_at en (overwrite msg pos (to_ne_bytes en v)) p = word_at en msg p"
  using assms by (intro word_at_eqI) (auto simp: overwrite_nth)

lemma word_at_eqD:
  assumes "a + 4 \<le> length xs" "a + 4 \<le> length ys" "word_at en xs a = word_at en ys a" "a \<le> i" "i < a + 4"
  shows "xs ! i = ys ! i"
proof -
  have "take 4 (drop a zs) = to_ne_bytes en (word_at en zs a)" if "a + 4 \<le> length zs" for zs
    unfolding word_at_def using that by (subst to_ne_from_ne) simp_all
  with assms have "take 4 (drop a xs) ! (i - a) = take 4 (drop a ys) ! (i - a)" by simp
  then show ?thesis using assms by simp
qed

text \<open>The bytes of a payload word, by its offset.\<close>

definition in_word :: "nat \<Rightarrow> nat \<Rightarrow> bool" where
  "in_word offset i \<longleftrightarrow> HEADER_LEN + offset \<le> i \<and> i < HEADER_LEN + offset + 4"

definition spaced :: "nat \<Rightarrow> nat list \<Rightarrow> bool" where
  "spaced len offsets \<longleftrightarrow> sorted_wrt (\<lambda>a b. a + 4 \<le> b) offsets \<and> (\<forall>o1 \<in> set offsets. HEADER_LEN + o1 + 4 \<le> len)"

lemma spaced_Cons: "spaced len (o1 # os) \<longleftrightarrow>
    HEADER_LEN + o1 + 4 \<le> len \<and> (\<forall>p \<in> set os. o1 + 4 \<le> p) \<and> spaced len os"
  by (auto simp: spaced_def)

definition words_translated :: "endianness \<Rightarrow> (u32 \<Rightarrow> u32 option) \<Rightarrow> nat list \<Rightarrow> byte list \<Rightarrow> byte list \<Rightarrow> bool" where
  "words_translated en tr offsets msg msg' \<longleftrightarrow> length msg' = length msg \<and>
     (\<forall>o1 \<in> set offsets. tr (word_at en msg (HEADER_LEN + o1)) = Some (word_at en msg' (HEADER_LEN + o1))) \<and>
     (\<forall>i < length msg. (\<forall>o1 \<in> set offsets. \<not> in_word o1 i) \<longrightarrow> msg' ! i = msg ! i)"

lemma translate_objects_spec:
  assumes "translate_objects en tr offsets msg = Inr msg'" "spaced (length msg) offsets"
  shows "words_translated en tr offsets msg msg'"
  using assms
proof (induction offsets arbitrary: msg)
  case (Cons o1 os)
  let ?pos = "HEADER_LEN + o1"
  from Cons.prems(1) obtain t where t: "tr (word_at en msg ?pos) = Some t"
    and r: "translate_objects en tr os (overwrite msg ?pos (to_ne_bytes en t)) = Inr msg'"
    by (auto simp: Let_def split: option.splits)
  let ?m = "overwrite msg ?pos (to_ne_bytes en t)"
  have sp: "?pos + 4 \<le> length msg" "\<forall>p \<in> set os. o1 + 4 \<le> p" "spaced (length msg) os"
    using Cons.prems(2) by (simp_all add: spaced_Cons)
  have len: "length ?m = length msg" using sp(1) by simp
  have IH: "length msg' = length msg"
    "\<forall>p \<in> set os. tr (word_at en ?m (HEADER_LEN + p)) = Some (word_at en msg' (HEADER_LEN + p))"
    "\<forall>i < length msg. (\<forall>p \<in> set os. \<not> in_word p i) \<longrightarrow> msg' ! i = ?m ! i"
    using Cons.IH [OF r] sp(3) len by (simp_all add: words_translated_def)
  have bytes: "msg' ! i = ?m ! i" if "i < length msg" "\<forall>p \<in> set os. \<not> in_word p i" for i
    using IH(3) that by simp
  have "word_at en msg' ?pos = word_at en ?m ?pos"
  proof (rule word_at_eqI)
    fix i assume i: "?pos \<le> i" "i < ?pos + 4"
    then have "\<forall>p \<in> set os. \<not> in_word p i" using sp(2) by (fastforce simp: in_word_def)
    then show "msg' ! i = ?m ! i" using bytes i sp(1) by simp
  qed (use sp len IH in simp_all)
  then have first: "tr (word_at en msg ?pos) = Some (word_at en msg' ?pos)"
    using t sp(1) by (simp add: word_at_overwrite)
  have "word_at en ?m (HEADER_LEN + p) = word_at en msg (HEADER_LEN + p)" if "p \<in> set os" for p
    using sp that by (intro word_at_overwrite_other) (auto simp: spaced_def)
  then have "\<forall>o1 \<in> set (o1 # os). tr (word_at en msg (HEADER_LEN + o1)) = Some (word_at en msg' (HEADER_LEN + o1))"
    using first IH(2) by simp
  moreover have "\<forall>i < length msg. (\<forall>p \<in> set (o1 # os). \<not> in_word p i) \<longrightarrow> msg' ! i = msg ! i"
    using bytes sp(1) by (auto simp: overwrite_nth in_word_def)
  ultimately show ?case using IH(1) by (simp add: words_translated_def)
qed (simp add: words_translated_def)

text \<open>A message is refused for the first untranslatable id, and only then.\<close>

lemma translate_objects_Inl:
  assumes "translate_objects en tr offsets msg = Inl x" "spaced (length msg) offsets"
  shows "\<exists>o1 \<in> set offsets. x = word_at en msg (HEADER_LEN + o1) \<and> tr x = None"
  using assms
proof (induction offsets arbitrary: msg)
  case (Cons o1 os)
  let ?pos = "HEADER_LEN + o1"
  have sp: "?pos + 4 \<le> length msg" "\<forall>p \<in> set os. o1 + 4 \<le> p" "spaced (length msg) os"
    using Cons.prems(2) by (simp_all add: spaced_Cons)
  show ?case
  proof (cases "tr (word_at en msg ?pos)")
    case None
    then show ?thesis using Cons.prems(1) by (auto simp: Let_def)
  next
    case (Some t)
    let ?m = "overwrite msg ?pos (to_ne_bytes en t)"
    have "translate_objects en tr os ?m = Inl x" "spaced (length ?m) os"
      using Cons.prems(1) Some sp by (simp_all add: Let_def)
    then have "\<exists>p \<in> set os. x = word_at en ?m (HEADER_LEN + p) \<and> tr x = None" by (rule Cons.IH)
    moreover have "word_at en ?m (HEADER_LEN + p) = word_at en msg (HEADER_LEN + p)" if "p \<in> set os" for p
      using sp that by (intro word_at_overwrite_other) (auto simp: spaced_def)
    ultimately show ?thesis by auto
  qed
qed simp

lemma translate_objects_complete:
  assumes "\<forall>o1 \<in> set offsets. tr (word_at en msg (HEADER_LEN + o1)) \<noteq> None" "spaced (length msg) offsets"
  shows "\<exists>msg'. translate_objects en tr offsets msg = Inr msg'"
  using translate_objects_Inl [OF _ assms(2), of en tr] assms(1)
  by (cases "translate_objects en tr offsets msg") fastforce+

text \<open>The offsets of a successful walk are spaced out inside the message.\<close>

lemma walk_spaced:
  assumes "walk_signature en (drop HEADER_LEN msg) sig = Inr walk" "HEADER_LEN \<le> length msg"
  shows "spaced (length msg) (object_offsets walk)"
    and "new_id_offset walk = Some n \<Longrightarrow> HEADER_LEN + n + 4 \<le> length msg \<and>
      (\<forall>o1 \<in> set (object_offsets walk). o1 + 4 \<le> n \<or> n + 4 \<le> o1)"
  using walk_signature_within [OF assms(1)] assms(2) by (auto simp: walk_within_def spaced_def)

context id_translation
begin

text \<open>Translating there and ret restores every message whose objects have a live counterpart.\<close>

lemma translate_there_and_back:
  assumes "translate_objects en (to_host t) offsets msg = Inr msg'" "spaced (length msg) offsets"
    and live: "\<forall>o1 \<in> set offsets. word_at en msg (HEADER_LEN + o1) \<noteq> 0 \<longrightarrow> word_at en msg' (HEADER_LEN + o1) \<noteq> 0"
  shows "translate_objects en (to_guest t) offsets msg' = Inr msg"
proof -
  note there = translate_objects_spec [OF assms(1,2), unfolded words_translated_def]
  have ret: "to_guest t (word_at en msg' (HEADER_LEN + o1)) = Some (word_at en msg (HEADER_LEN + o1))"
    if "o1 \<in> set offsets" for o1
    using there live that agree null_host null_guest
    by (cases "word_at en msg (HEADER_LEN + o1) = 0") (fastforce, metis)
  have sp: "spaced (length msg') offsets" using there assms(2) by simp
  obtain m2 where m2: "translate_objects en (to_guest t) offsets msg' = Inr m2"
    using translate_objects_complete [of offsets "to_guest t" en msg'] ret sp by fastforce
  note again = translate_objects_spec [OF m2 sp, unfolded words_translated_def]
  have "m2 ! i = msg ! i" if i: "i < length msg" for i
  proof (cases "\<exists>o1 \<in> set offsets. in_word o1 i")
    case True
    then obtain o1 where o1: "o1 \<in> set offsets" "in_word o1 i" by blast
    have "word_at en m2 (HEADER_LEN + o1) = word_at en msg (HEADER_LEN + o1)"
      using again ret [OF o1(1)] o1(1) by fastforce
    moreover have "HEADER_LEN + o1 + 4 \<le> length msg" using assms(2) o1(1) by (simp add: spaced_def)
    ultimately show ?thesis using o1(2) again there
      by (intro word_at_eqD [of "HEADER_LEN + o1"]) (simp_all add: in_word_def)
  next
    case False
    then show ?thesis using again there i by simp
  qed
  then have "m2 = msg" using again there by (intro nth_equalityI) simp_all
  then show ?thesis using m2 by simp
qed

end

context bimap
begin

lemma table_there_and_back:
  assumes "translate_objects en (host_id B t) offsets msg = Inr msg'" "spaced (length msg) offsets"
    and "\<forall>o1 \<in> set offsets. word_at en msg (HEADER_LEN + o1) \<noteq> 0 \<longrightarrow> word_at en msg' (HEADER_LEN + o1) \<noteq> 0"
  shows "translate_objects en (guest_id B t) offsets msg' = Inr msg"
  using assms by (rule ids.translate_there_and_back)

end

end
