(* ===== verification/RecoveryFacts.thy ===== *)
theory RecoveryFacts
  imports Recovery RelayFacts
begin

text \<open>
  What recovery guarantees. One frame relation, \<open>recovering\<close>, is carried through every phase: a
  recovery stays in its generation, keeps the graph and the grabs, does not unfreeze the
  connection by itself, and makes current only the ids it was asked to recreate. The second
  part says what the replayed requests are; the third, what the client is told.
\<close>

section \<open>Frames that allow reading and writing\<close>

text \<open>
  What the replayed requests and the waits of a recovery do to the two connections: the host is
  read, which leaves its send script alone, and written by \<open>write_message\<close>; the client's
  connection may change in any way. A frame that allows this holds across all of them.
\<close>

locale host_frame = framing R for R :: "'b proxy \<Rightarrow> 'b proxy \<Rightarrow> bool" +
  assumes host_read: "send_script c = send_script (host s) \<Longrightarrow> R s (s\<lparr>host := c\<rparr>)"
    and host_written: "R s (s\<lparr>host := snd (write_message msg fds (host s))\<rparr>)"
    and gtk_free: "R s (s\<lparr>gtk := c\<rparr>)"
begin

lemma keeps_write_host: "keeps R (write_host msg fds)"
  using host_written [of _ msg fds] by (intro keepsI) (auto simp: write_host_def split_beta)

lemma keeps_must_write: "keeps R (must_write_host msg)"
  unfolding must_write_host_def by (intro keeps_and_then keeps_write_host keeps_if keeps_go keeps_halt)

lemma keeps_send_request: "keeps R (send_request env sender opc desc vs)"
  unfolding send_request_def by (auto intro: keeps_go keeps_write_host split: sum.splits prod.splits)

lemma keeps_replay_setter: "keeps R (replay_setter env iface h name vs)"
  unfolding replay_setter_def
  by (auto intro!: keeps_go keeps_and_then keeps_send_request split: option.split)

lemma keeps_add_planes: "keeps R (add_planes env ph opc desc planes)"
  by (induction planes) (auto intro!: keeps_go keeps_and_then keeps_send_request)

lemma keeps_force_commit: "keeps R (force_commit env g p)"
  using keepsD [OF keeps_write_host]
  by (intro keepsI) (auto simp: force_commit_def stay split: option.splits recreatable.splits prod.splits)

lemma next_read: "next_message en timed (host s) = (r, c) \<Longrightarrow> R s (s\<lparr>host := c\<rparr>)"
  by (rule host_read) (rule next_message_send_script)

lemma keeps_fetch_globals: "keeps R (fetch_globals env rh sh globals)"
proof -
  have "R s (snd (fetch_globals env rh sh globals s))" for s
  proof (induction env rh sh globals s rule: fetch_globals.induct)
    case (1 env rh sh globals s)
    obtain r c where n: "next_message (endian env) False (host s) = (r, c)" by fastforce
    note rd = next_read [OF n]
    show ?case
    proof (cases r)
      case (NextMsg h msg)
      note n = n [unfolded NextMsg]
      show ?thesis
      proof (cases "sender_id h = rh \<and> opcode h = 0 \<or> \<not> (sender_id h = sh \<and> opcode h = 0)")
        case True
        have "R (s\<lparr>host := c\<rparr>) (snd (fetch_globals env rh sh globals s))"
          using 1 [OF n [symmetric] refl] True n
          by (subst fetch_globals.simps) (auto simp: n)
        with rd show ?thesis by (rule trans)
      next
        case False
        then show ?thesis using rd by (subst fetch_globals.simps) (auto simp: n)
      qed
    qed (subst fetch_globals.simps, simp add: n rd)+
  qed
  then show ?thesis by (simp add: keeps_def)
qed

lemma wait_configure_frame: "R s (snd (wait_configure env g h tc p ph sc s))"
proof (induction env g h tc p ph sc s rule: wait_configure.induct)
  case (1 env g h tc p ph sc s)
  obtain r c where n: "next_message (endian env) True (host s) = (r, c)" by fastforce
  note rd = next_read [OF n]
  have both: "R s (s\<lparr>host := c, gtk := c2\<rparr>)" for c2
    using trans [OF rd gtk_free] by simp
  show ?case
  proof (cases r)
    case (NextMsg hd1 msg)
    note n = n [unfolded NextMsg]
    obtain ok c2 where w: "write_message (build_message (endian env) g (opcode hd1) (drop HEADER_LEN msg)) [] (gtk s) = (ok, c2)"
      by fastforce
    note IH = 1 [OF n [symmetric] refl]
    show ?thesis
    proof (cases "sender_id hd1 = h \<and> Some (opcode hd1) = tc")
      case True
      then show ?thesis
      proof (cases ok)
        case ok: True
        have "R s (snd (wait_configure env g h tc p ph sc (s\<lparr>host := c, gtk := c2\<rparr>)))"
          using IH(1) [OF True w [symmetric]] ok by (intro trans [OF both]) simp
        then show ?thesis using True w ok by (subst wait_configure.simps) (simp add: n)
      qed (use w both in \<open>subst wait_configure.simps, simp add: n\<close>)
    next
      case False
      note nt = this
      show ?thesis
      proof (cases "sender_id hd1 = ph \<and> Some (opcode hd1) = sc")
        case True
        then show ?thesis using nt by (subst wait_configure.simps) (auto simp: n both split: prod.split)
      next
        case False
        have "R s (snd (wait_configure env g h tc p ph sc (s\<lparr>host := c\<rparr>)))"
          using IH(2) [OF nt False] by (intro trans [OF rd]) simp
        then show ?thesis using nt False by (subst wait_configure.simps) (auto simp: n)
      qed
    qed
  qed (subst wait_configure.simps, simp add: n rd)+
qed

lemma wait_ack_frame: "R s (snd (wait_ack env p ph ac s))"
proof (induction env p ph ac s rule: wait_ack.induct)
  case (1 env p ph ac s)
  obtain r c where n: "next_message (endian env) True (gtk s) = (r, c)" by fastforce
  note rd = gtk_free [of s c]
  have both: "R s (s\<lparr>gtk := c, host := snd (write_message m fds (host s))\<rparr>)" for m fds
    using trans [OF rd host_written [of "s\<lparr>gtk := c\<rparr>" m fds]] by simp
  show ?case
  proof (cases r)
    case (NextMsg hd1 msg)
    note n = n [unfolded NextMsg]
    show ?thesis
    proof (cases "sender_id hd1 = p \<and> Some (opcode hd1) = ac")
      case True
      then show ?thesis using both by (subst wait_ack.simps) (simp add: n split_beta)
    next
      case False
      have "R s (snd (wait_ack env p ph ac (s\<lparr>gtk := c\<rparr>)))"
        using 1 [OF n [symmetric] refl False] by (intro trans [OF rd]) simp
      then show ?thesis using False by (subst wait_ack.simps) (auto simp: n)
    qed
  qed (subst wait_ack.simps, simp add: n rd)+
qed

lemma keeps_handshake: "keeps R (configure_handshake env g h child p pi ph)"
proof (rule keepsI)
  fix s r s' assume a: "configure_handshake env g h child p pi ph s = (r, s')"
  obtain w s1 where w: "wait_configure env g h (event_opcode child ''configure'') p ph (event_opcode pi ''configure'') s = (w, s1)"
    by fastforce
  have "R s s1" using wait_configure_frame [of s env g h _ p ph _] w by (metis snd_conv)
  moreover have "R s1 s'"
    using a w wait_ack_frame by (auto simp: configure_handshake_def stay split: wait_result.splits)
  ultimately show "R s s'" by (rule trans)
qed

end

section \<open>The frame of a recovery\<close>

definition recovering :: "u32 set \<Rightarrow> 'b proxy \<Rightarrow> 'b proxy \<Rightarrow> bool" where
  "recovering K s s' \<longleftrightarrow> steady s s' \<and> graph s' = graph s \<and> grabs s' = grabs s \<and> frozen s' = frozen s \<and>
     notifications s' = notifications s \<and> tasks s' = tasks s \<and> cache s' = cache s \<and>
     (\<forall>g. is_current_generation (objects s') g \<longrightarrow> is_current_generation (objects s) g \<or> g \<in> K) \<and>
     (\<forall>g. st_interface (objects s) g \<noteq> None \<longrightarrow> st_interface (objects s') g \<noteq> None)"

text \<open>Connections and reclaim state may change freely.\<close>

lemma recovering_conns:
  "recovering K s (s\<lparr>host := c\<rparr>)" "recovering K s (s\<lparr>gtk := c\<rparr>)" "recovering K s (s\<lparr>reclaim := r\<rparr>)"
  "recovering K s (s\<lparr>buffer_flow := bf\<rparr>)" "recovering K s (s\<lparr>pending_frames := pf\<rparr>)"
  by (simp_all add: recovering_def steady_def)

interpretation recovering: host_frame "recovering K :: 'b proxy \<Rightarrow> _ \<Rightarrow> bool" for K
proof unfold_locales
  show "recovering K s s" for s :: "'b proxy" by (simp add: recovering_def steady_refl)
  show "recovering K s1 s2 \<Longrightarrow> recovering K s2 s3 \<Longrightarrow> recovering K s1 s3" for s1 s2 s3 :: "'b proxy"
    unfolding recovering_def using steady_trans [of s1 s2 s3] by (elim conjE) (intro conjI; simp; blast)
qed (rule recovering_conns)+

lemma keeps_fresh_host_id: "keeps (recovering K) fresh_host_id"
  by (rule keepsI) (auto simp: fresh_host_id_def allocate_host_id_def recovering_def steady_def gens_ok_ops st_interface_def)

lemma keeps_map_object: "g \<in> K \<Longrightarrow> keeps (recovering K) (map_object env g h iface)"
  unfolding map_object_def
  by (intro recovering.keeps_modify) (simp add: recovering_def steady_def gens_ok_ops)

lemma keeps_replay_create: "keeps (recovering K) (replay_create env parent ph name vs)"
  unfolding replay_create_def Let_def
  by (auto intro!: recovering.keeps_go recovering.keeps_halt recovering.keeps_and_then keeps_fresh_host_id
      recovering.keeps_send_request split: option.split)

lemma keeps_replay_child: "g \<in> K \<Longrightarrow> keeps (recovering K) (replay_child env g parent name vs)"
proof (rule keepsI)
  fix s r s' assume g: "g \<in> K" and a: "replay_child env g parent name vs s = (r, s')"
  have k: "keeps (recovering K) (and_then (replay_create env pi ph name v) (\<lambda>r. case r of None \<Rightarrow> go None
      | Some (child, h) \<Rightarrow> and_then (map_object env g h child) (\<lambda>_. go (Some (child, h)))))" for pi ph v
    by (auto intro!: recovering.keeps_and_then keeps_replay_create recovering.keeps_go keeps_map_object g
        split: option.split)
  show "recovering K s s'"
    using a keepsD [OF k] by (auto simp: replay_child_def recovering.stay split: option.splits prod.splits)
qed

lemma keeps_replay_global: "g \<in> K \<Longrightarrow> keeps (recovering K) (replay_global env globals ri rh g iface v)"
  unfolding replay_global_def
  by (auto intro!: recovering.keeps_and_then recovering.keeps_if recovering.keeps_go recovering.keeps_halt
      keeps_fresh_host_id recovering.keeps_send_request keeps_map_object split: option.split list.split)

lemma keeps_replay_toplevel: "g \<in> K \<Longrightarrow> keeps (recovering K) (replay_toplevel env g parent title app_id)"
proof (rule keepsI)
  fix s r s' assume g: "g \<in> K" and a: "replay_toplevel env g parent title app_id s = (r, s')"
  have k: "keeps (recovering K) (and_then (replay_child env g parent ''get_toplevel'' (\<lambda>_. Some (\<lambda>h. [VNewId h]))) (\<lambda>r.
        (case r of
           None \<Rightarrow> go ()
         | Some (child, h) \<Rightarrow>
            and_then (case title of None \<Rightarrow> go () | Some t \<Rightarrow> replay_setter env child h ''set_title'' [VString t]) (\<lambda>_.
            and_then (case app_id of None \<Rightarrow> go () | Some a \<Rightarrow> replay_setter env child h ''set_app_id'' [VString a]) (\<lambda>_.
            and_then (force_commit env g parent) (\<lambda>sent.
            if sent then configure_handshake env g h child parent pi ph else go ()))))))" for pi ph
    by (auto intro!: recovering.keeps_and_then keeps_replay_child recovering.keeps_go recovering.keeps_force_commit
        recovering.keeps_handshake recovering.keeps_replay_setter recovering.keeps_if g split: option.split)
  show "recovering K s s'"
    using a keepsD [OF k] by (auto simp: replay_toplevel_def recovering.stay split: option.splits prod.splits)
qed

lemma keeps_replay_dmabuf: "g \<in> K \<Longrightarrow> keeps (recovering K) (replay_dmabuf env g dmabuf w h f fl planes)"
proof (rule keepsI)
  fix s r s' assume g: "g \<in> K" and a: "replay_dmabuf env g dmabuf w h f fl planes s = (r, s')"
  have k: "keeps (recovering K) (and_then (replay_create env di dh ''create_params'' (\<lambda>h. [VNewId h])) (\<lambda>r.
        (case r of
           None \<Rightarrow> go ()
         | Some (params_iface, params_host) \<Rightarrow>
            (case request_opcode params_iface ''add'' of
               None \<Rightarrow> go ()
             | Some add_opcode \<Rightarrow>
                and_then (add_planes env params_host add_opcode (requests params_iface ! unat add_opcode) planes) (\<lambda>added.
                if \<not> added then go ()
                else and_then (replay_create env params_iface params_host ''create_immed''
                       (\<lambda>h1. [VNewId h1, VInt w, VInt h, VUint f, VUint fl])) (\<lambda>b.
                (case b of
                   None \<Rightarrow> go ()
                 | Some (buffer_iface, buffer_host) \<Rightarrow> map_object env g buffer_host buffer_iface)))))))" for di dh
    by (auto intro!: recovering.keeps_and_then keeps_replay_create recovering.keeps_go recovering.keeps_add_planes
        keeps_map_object recovering.keeps_if g split: option.split)
  show "recovering K s s'"
    using a keepsD [OF k] by (auto simp: replay_dmabuf_def recovering.stay split: option.splits prod.splits)
qed

lemma keeps_skip_result: "keeps (recovering K) m \<Longrightarrow> keeps (recovering K) (skip_result m)"
  unfolding skip_result_def by (intro recovering.keeps_and_then recovering.keeps_go)

lemma keeps_replay_recipe: "g \<in> K \<Longrightarrow> keeps (recovering K) (replay_recipe env globals ri rh g recipe)"
  by (cases recipe)
    (auto simp: replay_viewport_def replay_request_defs intro!: keeps_replay_global keeps_skip_result keeps_replay_child keeps_replay_toplevel
      keeps_replay_dmabuf recovering.keeps_and_then recovering.keeps_go recovering.keeps_replay_setter split: option.split prod.split)

lemma keeps_replay_graph: "fst ` set g \<subseteq> K \<Longrightarrow> keeps (recovering K) (replay_graph env globals ri rh g)"
  by (induction g) (auto intro!: recovering.keeps_go recovering.keeps_and_then keeps_replay_recipe)

lemma recovering_release_buffers: "recovering K s (release_buffers env bs s)"
proof (induction bs arbitrary: s)
  case (Cons b bs)
  have "recovering K s (case live env b s of None \<Rightarrow> s | Some (iface, _) \<Rightarrow>
      (case event_opcode iface ''release'' of None \<Rightarrow> s
       | Some opc \<Rightarrow> s\<lparr>gtk := snd (write_message (build_message (endian env) b opc []) [] (gtk s))\<rparr>))"
    by (auto simp: recovering.stay recovering_conns split: option.split)
  from recovering.trans [OF this Cons] show ?case by simp
qed (simp add: recovering.stay)

lemma recovering_answer_callbacks: "recovering K s (answer_callbacks env cs s)"
proof (induction cs arbitrary: s)
  case (Cons c cs)
  have "recovering K s (if st_interface (objects s) c = None then s
      else s\<lparr>gtk := synthesize_frame_done env (objects s) c (gtk s)\<rparr>)"
    by (simp add: recovering.stay recovering_conns)
  from recovering.trans [OF this Cons] show ?case by simp
qed (simp add: recovering.stay)

lemma recovering_overdue:
  "recovering K s (release_in_flight env s)" "recovering K s (answer_awaiting env s)"
  using recovering.trans [OF recovering_conns(4) recovering_release_buffers]
    recovering.trans [OF recovering_conns(5) recovering_answer_callbacks]
  by (auto simp: release_in_flight_def answer_awaiting_def split: prod.split)

text \<open>The ids a recovery may make current: the registry's and those of the recipes.\<close>

definition recreated_ids :: "'b env \<Rightarrow> 'b proxy \<Rightarrow> u32 set" where
  "recreated_ids env s = fst ` set (graph s) \<union>
     set_option (find_guest_id_by_interface_name (ord_ids env) (objects s) ''wl_registry'')"

lemma recovering_recover:
  assumes "recover_state_after_reconnect env s = (r, s')"
  shows "recovering (recreated_ids env s) s s'"
proof -
  let ?K = "recreated_ids env s" and ?s = "s\<lparr>reclaim := (reclaim s)\<lparr>active_source_host_id := None\<rparr>\<rparr>"
  have reg: "keeps (recovering ?K) (recover_registry env g i)" if "g \<in> ?K" for g i
    unfolding recover_registry_def Let_def
    by (intro recovering.keeps_and_then keeps_fresh_host_id recovering.keeps_must_write recovering.keeps_fetch_globals keeps_map_object
        recovering.keeps_go that)
  have rest: "keeps (recovering ?K) (and_then (replay_graph env globals i rh g) (\<lambda>_.
      and_then (modify (release_in_flight env)) (\<lambda>_.
      and_then (modify (answer_awaiting env)) (\<lambda>_.
      modify (\<lambda>s. s\<lparr>reclaim := (reclaim s)\<lparr>data_device_manager_global := hm_get globals ''wl_data_device_manager'',
                                  reclaim_pending := True\<rparr>\<rparr>)))))" if "fst ` set g \<subseteq> ?K" for globals i rh g
    by (intro recovering.keeps_and_then recovering.keeps_modify keeps_replay_graph that recovering_overdue recovering_conns)
  have s0: "recovering ?K s ?s" by (rule recovering_conns)
  have "recovering ?K ?s s'"
  proof (cases "find_guest_id_by_interface_name (ord_ids env) (objects s) ''wl_registry''")
    case None
    then show ?thesis using assms
      by (simp add: recover_state_after_reconnect_def and_then_def modify_def recovering.stay)
  next
    case (Some g)
    then obtain i where i: "st_interface (objects s) g = Some i" using find_guest_id_SomeD by blast
    obtain r1 s1 where r1: "recover_registry env g i ?s = (r1, s1)" by fastforce
    have "g \<in> ?K" using Some by (simp add: recreated_ids_def)
    then have k1: "recovering ?K ?s s1" using keepsD [OF reg r1] by simp
    then have g1: "fst ` set (graph s1) \<subseteq> ?K" by (simp add: recovering_def recreated_ids_def)
    show ?thesis
    proof (cases r1)
      case (Inl d)
      then have "s' = s1" using assms Some i r1
        by (simp add: recover_state_after_reconnect_def and_then_def modify_def)
      then show ?thesis using k1 by simp
    next
      case (Inr p)
      obtain rh globals where p: "p = (rh, globals)" by fastforce
      have e: "(r, s') = and_then (replay_graph env globals i rh (graph s1)) (\<lambda>_.
          and_then (modify (release_in_flight env)) (\<lambda>_.
          and_then (modify (answer_awaiting env)) (\<lambda>_.
          modify (\<lambda>s. s\<lparr>reclaim := (reclaim s)\<lparr>data_device_manager_global := hm_get globals ''wl_data_device_manager'',
                                      reclaim_pending := True\<rparr>\<rparr>)))) s1"
        using assms Some i r1 Inr p by (simp add: recover_state_after_reconnect_def and_then_def modify_def)
      have "recovering ?K s1 s'" by (rule keepsD [OF rest [OF g1]], rule e [symmetric])
      with k1 show ?thesis by (rule recovering.trans)
    qed
  qed
  with s0 show ?thesis by (rule recovering.trans)
qed

section \<open>Requests to a willing compositor\<close>

text \<open>A connection whose kernel takes everything at once; messages appended to its log.\<close>

definition willing :: "conn \<Rightarrow> bool" where
  "willing c \<longleftrightarrow> send_script c = []"

definition post :: "(byte list \<times> fd list) list \<Rightarrow> conn \<Rightarrow> conn" where
  "post msgs c = c\<lparr>sent_log := sent_log c @ map (\<lambda>(m, fds). (m, send_cmsgs fds)) msgs\<rparr>"

lemma post_simps [simp]:
  "post [] c = c" "post b (post a c) = post (a @ b) c" "willing (post a c) = willing c"
  "read_buf (post a c) = read_buf c" "recv_script (post a c) = recv_script c" "read_fds (post a c) = read_fds c"
  by (simp_all add: post_def willing_def)

lemma build_message_not_Nil [simp]: "build_message en s opc p \<noteq> []"
  using length_build_message [of en s opc p] by (auto simp: HEADER_LEN_def simp del: length_build_message)

lemma write_message_post: "willing c \<Longrightarrow> msg \<noteq> [] \<Longrightarrow> write_message msg fds c = (True, post [(msg, fds)] c)"
  by (simp add: willing_def write_message_willing post_def)

lemma sent_bytes_post: "sent_bytes (post msgs c) = sent_bytes c @ concat (map fst msgs)"
  by (simp add: sent_bytes_def post_def comp_def split_beta)

lemma sent_fds_post: "sent_fds (post msgs c) = sent_fds c @ concat (map snd msgs)"
  by (simp add: sent_fds_def post_def comp_def split_beta)

lemma send_request_willing:
  assumes "encode_arguments (endian env) (signature desc) vs = Inr (payload, fds)" "willing (host s)"
  shows "send_request env sender opc desc vs s =
    (Inr True, s\<lparr>host := post [(build_message (endian env) sender opc payload, fds)] (host s)\<rparr>)"
  using assms by (simp add: send_request_def write_host_def write_message_post)

text \<open>A replayed global is bound under the fresh name, at the version the client asked for or the
  compositor's, whichever is lower.\<close>

lemma replay_global_willing:
  assumes "if_name iface \<in> set recreatable_globals" "hm_get globals (if_name iface) = Some (name, fresh_max)"
    and "requests ri = bind # rest" "signature bind = [ATUint, ATStr a, ATUint, ATNewId]" "willing (host s)"
  shows "replay_global env globals ri rh g iface requested s = (Inr (), s\<lparr>
     objects := st_map (bim env) g (next_host_id (objects s)) iface
       ((objects s)\<lparr>next_host_id := next_host_id (objects s) + 1\<rparr>),
     host := post [(build_message (endian env) rh 0
       (bind_payload (endian env) name (if_name iface) (min requested fresh_max) (next_host_id (objects s))), [])] (host s)\<rparr>)"
proof -
  have "encode_arguments (endian env) [ATUint, ATStr a, ATUint, ATNewId]
      [VUint name, VString (if_name iface), VUint (min requested fresh_max), VNewId (next_host_id (objects s))] =
    Inr (bind_payload (endian env) name (if_name iface) (min requested fresh_max) (next_host_id (objects s)), [])"
    by (simp add: encode_arguments_def bind_payload_def)
  then show ?thesis using assms
    by (simp add: replay_global_def and_then_def fresh_host_id_def allocate_host_id_def send_request_willing
        map_object_def modify_def)
qed

text \<open>A replayed child is created on its parent's host id with the next host id, and mapped to it.\<close>

lemma replay_child_willing:
  assumes "live env parent s = Some (pi, ph)" "vs s = Some v" "request_opcode pi name = Some opc"
    and "child_interface (requests pi ! unat opc) = Some child"
    and "encode_arguments (endian env) (signature (requests pi ! unat opc)) (v (next_host_id (objects s))) = Inr (payload, fds)"
    and "willing (host s)"
  shows "replay_child env g parent name vs s = (Inr (Some (child, next_host_id (objects s))), s\<lparr>
     objects := st_map (bim env) g (next_host_id (objects s)) child
       ((objects s)\<lparr>next_host_id := next_host_id (objects s) + 1\<rparr>),
     host := post [(build_message (endian env) ph opc payload, fds)] (host s)\<rparr>)"
  using assms
  by (simp add: replay_child_def replay_create_def Let_def and_then_def fresh_host_id_def allocate_host_id_def
      send_request_willing map_object_def modify_def go_def)

text \<open>A dead parent means that nothing is sent and nothing is mapped.\<close>

lemma replay_child_dead:
  "live env parent s = None \<or> vs s = None \<Longrightarrow> replay_child env g parent name vs s = (Inr None, s)"
  by (auto simp: replay_child_def split: option.splits)

section \<open>What the client is told\<close>

definition release_message :: "'b env \<Rightarrow> 'b proxy \<Rightarrow> u32 \<Rightarrow> byte list list" where
  "release_message env s buffer =
    (case live env buffer s of
       None \<Rightarrow> []
     | Some (iface, _) \<Rightarrow>
        (case event_opcode iface ''release'' of None \<Rightarrow> [] | Some opc \<Rightarrow> [build_message (endian env) buffer opc []]))"

definition without_fds :: "byte list list \<Rightarrow> (byte list \<times> fd list) list" where
  "without_fds = map (\<lambda>m. (m, []))"

lemma without_fds_simps [simp]: "without_fds [] = []" "without_fds (a @ b) = without_fds a @ without_fds b" "without_fds (m # ms) = (m, []) # without_fds ms"
  by (simp_all add: without_fds_def)

lemma live_conns [simp]: "live env g (s\<lparr>gtk := c\<rparr>) = live env g s" "live env g (s\<lparr>buffer_flow := b\<rparr>) = live env g s"
  by (simp_all add: live_def split: option.split)

lemma release_message_conns [simp]:
  "release_message env (s\<lparr>gtk := c\<rparr>) = release_message env s"
  "release_message env (s\<lparr>buffer_flow := b\<rparr>) = release_message env s"
  by (simp_all add: fun_eq_iff release_message_def)

lemma release_buffers_willing:
  "willing (gtk s) \<Longrightarrow> release_buffers env bs s =
     s\<lparr>gtk := post (without_fds (concat (map (release_message env s) bs))) (gtk s)\<rparr>"
proof (induction bs arbitrary: s)
  case (Cons b bs)
  show ?case
    using Cons by (auto simp: release_message_def [of env s b] write_message_post split: option.split)
qed simp

text \<open>Every buffer that was in flight and lives again is released once; afterwards none is in flight.\<close>

lemma release_in_flight_willing:
  assumes "willing (gtk s)"
  shows "gtk (release_in_flight env s) =
      post (without_fds (concat (map (release_message env s) (ord_ids env (hs_elems (in_flight (buffer_flow s))))))) (gtk s)"
    and "in_flight (buffer_flow (release_in_flight env s)) = []"
  using assms by (simp_all add: release_in_flight_def drain_in_flight_def release_buffers_willing)

text \<open>Stuck grabs: the abstract events, numbered with serials from one.\<close>

datatype grab_event = LeaveEvent u32 u16 u32 | ReleaseEvent u32 u16 u32

fun grab_message :: "endianness \<Rightarrow> u32 \<Rightarrow> grab_event \<Rightarrow> byte list" where
  "grab_message en serial (LeaveEvent device opc surface) = leave_message en device opc serial surface"
| "grab_message en serial (ReleaseEvent device opc button) = button_release_message en device opc serial button"

definition pointer_events :: "'b shadow_table \<Rightarrow> u32 \<times> u32 option \<times> u32 list \<Rightarrow> grab_event list" where
  "pointer_events t g = (case g of (pointer, entered, pressed) \<Rightarrow>
     (case st_interface t pointer of
        None \<Rightarrow> []
      | Some iface \<Rightarrow>
         (case (entered, event_opcode iface ''leave'') of
            (Some surface, Some opc) \<Rightarrow> [LeaveEvent pointer opc surface] | _ \<Rightarrow> []) @
         (case event_opcode iface ''button'' of
            None \<Rightarrow> [] | Some opc \<Rightarrow> map (ReleaseEvent pointer opc) pressed)))"

definition keyboard_events :: "'b shadow_table \<Rightarrow> u32 \<times> u32 \<Rightarrow> grab_event list" where
  "keyboard_events t g = (case g of (keyboard, surface) \<Rightarrow>
     (case Option.bind (st_interface t keyboard) (\<lambda>iface. event_opcode iface ''leave'') of
        None \<Rightarrow> [] | Some opc \<Rightarrow> [LeaveEvent keyboard opc surface]))"

fun numbered :: "endianness \<Rightarrow> u32 \<Rightarrow> grab_event list \<Rightarrow> byte list list" where
  "numbered en serial [] = []"
| "numbered en serial (e # es) = grab_message en serial e # numbered en (serial + 1) es"

lemma numbered_append: "numbered en n (a @ b) = numbered en n a @ numbered en (n + word_of_nat (length a)) b"
  by (induction a arbitrary: n) (simp_all add: ac_simps)

lemma grab_message_not_Nil [simp]: "leave_message en d opc n x \<noteq> []" "button_release_message en d opc n x \<noteq> []"
  by (simp_all add: leave_message_def button_release_message_def)

lemma write_event_willing: "willing c \<Longrightarrow> m \<noteq> [] \<Longrightarrow> write_event m c = post (without_fds [m]) c"
  by (simp add: write_event_def write_message_post)

lemma release_buttons_willing:
  "willing c \<Longrightarrow> release_buttons en d opc bs (n, c) =
     (n + word_of_nat (length bs), post (without_fds (numbered en n (map (ReleaseEvent d opc) bs))) c)"
  by (induction bs arbitrary: n c) (simp_all add: write_event_willing ac_simps)

lemma release_pointers_willing:
  "willing c \<Longrightarrow> release_pointers env t gs (n, c) =
     (n + word_of_nat (length (concat (map (pointer_events t) gs))),
      post (without_fds (numbered (endian env) n (concat (map (pointer_events t) gs)))) c)"
proof (induction gs arbitrary: n c)
  case (Cons g gs)
  obtain p e bs where g: "g = (p, e, bs)" by (cases g) auto
  have step: "release_pointers env t (g # gs) (n, c) =
    release_pointers env t gs (n + word_of_nat (length (pointer_events t g)),
      post (without_fds (numbered (endian env) n (pointer_events t g))) c)"
    using Cons.prems
    by (cases bs) (auto simp: g pointer_events_def write_event_willing release_buttons_willing Let_def ac_simps
        split: option.split)
  show ?case unfolding step using Cons by (simp add: numbered_append ac_simps)
qed simp

lemma release_keyboards_willing:
  "willing c \<Longrightarrow> release_keyboards env t gs (n, c) =
     (n + word_of_nat (length (concat (map (keyboard_events t) gs))),
      post (without_fds (numbered (endian env) n (concat (map (keyboard_events t) gs)))) c)"
proof (induction gs arbitrary: n c)
  case (Cons g gs)
  obtain k x where g: "g = (k, x)" by fastforce
  have step: "release_keyboards env t (g # gs) (n, c) =
    release_keyboards env t gs (n + word_of_nat (length (keyboard_events t g)),
      post (without_fds (numbered (endian env) n (keyboard_events t g))) c)"
    using Cons.prems by (auto simp: g keyboard_events_def write_event_willing split: option.split)
  show ?case unfolding step using Cons by (simp add: numbered_append ac_simps)
qed simp

definition grab_events :: "'b env \<Rightarrow> 'b proxy \<Rightarrow> grab_event list" where
  "grab_events env s = concat (map (pointer_events (objects s)) (active_pointer_grabs (ord_ids env) (grabs s))) @
     concat (map (keyboard_events (objects s)) (active_keyboard_grabs (ord_ids env) (grabs s)))"

lemma synthesize_grab_releases_willing:
  "willing (gtk s) \<Longrightarrow> synthesize_grab_releases env s =
     s\<lparr>gtk := post (without_fds (numbered (endian env) 1 (grab_events env s))) (gtk s), grabs := clear_grabs (grabs s)\<rparr>"
  by (simp add: synthesize_grab_releases_def Let_def release_pointers_willing release_keyboards_willing
      grab_events_def numbered_append)

text \<open>Which events these are and how often each comes, read off the tracker.\<close>

lemma count_release: "count_list (map (ReleaseEvent d opc) bs) (ReleaseEvent d opc b) = count_list bs b"
  "count_list (map (ReleaseEvent d' opc') bs) (LeaveEvent d opc x) = 0"
  "(d', opc') \<noteq> (d, opc) \<Longrightarrow> count_list (map (ReleaseEvent d' opc') bs) (ReleaseEvent d opc b) = 0"
  by (induction bs) auto

lemma count_pointer_events:
  "count_list (pointer_events t (p, f, bs)) (LeaveEvent d opc x) =
    (if d = p \<and> f = Some x \<and> Option.bind (st_interface t p) (\<lambda>i. event_opcode i ''leave'') = Some opc then 1 else 0)"
  "count_list (pointer_events t (p, f, bs)) (ReleaseEvent d opc b) =
    (if d = p \<and> Option.bind (st_interface t p) (\<lambda>i. event_opcode i ''button'') = Some opc then count_list bs b else 0)"
  by (cases "st_interface t p"; cases f; auto simp: pointer_events_def count_release split: option.splits)+

lemma count_keyboard_events:
  "count_list (keyboard_events t (k, s)) (LeaveEvent d opc x) =
    (if d = k \<and> s = x \<and> Option.bind (st_interface t k) (\<lambda>i. event_opcode i ''leave'') = Some opc then 1 else 0)"
  "count_list (keyboard_events t (k, s)) (ReleaseEvent d opc b) = 0"
  by (cases "st_interface t k"; auto simp: keyboard_events_def split: option.splits)+

lemma count_list_concat: "count_list (concat xss) x = sum_list (map (\<lambda>xs. count_list xs x) xss)"
  by (induction xss) auto

text \<open>Where every element counts for its own key only, the sum has one summand.\<close>

lemma sum_list_one_key:
  assumes "distinct ks" "\<And>k. k \<noteq> d \<Longrightarrow> f k = (0 :: nat)"
  shows "sum_list (map f ks) = (if d \<in> set ks then f d else 0)"
  using assms(1)
proof (induction ks)
  case (Cons k ks)
  then show ?case by (cases "k = d") (auto simp: assms(2))
qed simp

lemma count_pointer_grabs:
  assumes "permutes_keys ord"
    and "\<And>p f bs. p \<noteq> d \<Longrightarrow> count_list (pointer_events t (p, f, bs)) e = 0" "count_list (pointer_events t (d, None, [])) e = 0"
  shows "count_list (concat (map (pointer_events t) (active_pointer_grabs ord g))) e =
    count_list (pointer_events t (d, pointer_focus g d, held_buttons g d)) e"
proof -
  let ?active = "\<lambda>p. pointer_focus g p \<noteq> None \<or> held_buttons g p \<noteq> []"
  let ?ks = "filter ?active (ord (hm_keys (pointers g)))"
  have "active_pointer_grabs ord g = map (\<lambda>p. (p, pointer_focus g p, held_buttons g p)) ?ks"
    by (simp add: active_pointer_grabs_def Let_def pointer_focus_def held_buttons_def)
  then have "count_list (concat (map (pointer_events t) (active_pointer_grabs ord g))) e =
    sum_list (map (\<lambda>p. count_list (pointer_events t (p, pointer_focus g p, held_buttons g p)) e) ?ks)"
    by (simp add: count_list_concat comp_def)
  also have "\<dots> = (if d \<in> set ?ks then count_list (pointer_events t (d, pointer_focus g d, held_buttons g d)) e else 0)"
    using permutes_keys_distinct [OF assms(1)] assms(2) by (intro sum_list_one_key) simp_all
  also have "\<dots> = count_list (pointer_events t (d, pointer_focus g d, held_buttons g d)) e"
  proof (cases "?active d")
    case True
    have "?active d \<Longrightarrow> d \<in> set ?ks"
    using permutes_keys_set [OF assms(1)]
    by (auto simp: set_hm_keys grab_view_defs pointer_default_def split: option.splits)
    then show ?thesis using True by simp
  next
    case False
    then show ?thesis using assms(3) by simp
  qed
  finally show ?thesis .
qed

lemma map_filter_image:
  "concat (map h (List.map_filter (\<lambda>k. map_option (Pair k) (f k)) ks)) =
    concat (map (\<lambda>k. case f k of None \<Rightarrow> [] | Some x \<Rightarrow> h (k, x)) ks)"
  by (induction ks) (auto simp: map_filter_simps split: option.split)

lemma count_keyboard_grabs:
  assumes "permutes_keys ord" "\<And>k x. k \<noteq> d \<Longrightarrow> count_list (keyboard_events t (k, x)) e = 0"
  shows "count_list (concat (map (keyboard_events t) (active_keyboard_grabs ord g))) e =
    (case keyboard_focus g d of None \<Rightarrow> 0 | Some x \<Rightarrow> count_list (keyboard_events t (d, x)) e)"
proof -
  let ?f = "\<lambda>k. count_list (case keyboard_focus g k of None \<Rightarrow> [] | Some x \<Rightarrow> keyboard_events t (k, x)) e"
  have "distinct (ord (hm_keys (keyboards g)))" using permutes_keys_distinct [OF assms(1)] by simp
  then have "sum_list (map ?f (ord (hm_keys (keyboards g)))) = (if d \<in> set (ord (hm_keys (keyboards g))) then ?f d else 0)"
    by (rule sum_list_one_key) (auto simp: assms(2) split: option.split)
  moreover have "keyboard_focus g d \<noteq> None \<Longrightarrow> d \<in> set (ord (hm_keys (keyboards g)))"
    using permutes_keys_set [OF assms(1)]
    by (auto simp: set_hm_keys grab_view_defs keyboard_default_def split: option.splits)
  ultimately show ?thesis
    unfolding active_keyboard_grabs_def keyboard_focus_def [symmetric] map_filter_image count_list_concat
    by (auto simp: comp_def split: option.split)
qed

lemma grab_events_count:
  assumes "permutes_keys (ord_ids env)"
  shows "count_list (grab_events env s) (LeaveEvent d opc x) =
      (if Option.bind (st_interface (objects s) d) (\<lambda>i. event_opcode i ''leave'') = Some opc
       then (if pointer_focus (grabs s) d = Some x then 1 else 0) + (if keyboard_focus (grabs s) d = Some x then 1 else 0) else 0)"
    and "count_list (grab_events env s) (ReleaseEvent d opc b) =
      (if Option.bind (st_interface (objects s) d) (\<lambda>i. event_opcode i ''button'') = Some opc
       then count_list (held_buttons (grabs s) d) b else 0)"
proof -
  note counts = count_pointer_grabs [OF assms, where d = d] count_keyboard_grabs [OF assms, where d = d]
    count_pointer_events count_keyboard_events
  show "count_list (grab_events env s) (LeaveEvent d opc x) =
      (if Option.bind (st_interface (objects s) d) (\<lambda>i. event_opcode i ''leave'') = Some opc
       then (if pointer_focus (grabs s) d = Some x then 1 else 0) + (if keyboard_focus (grabs s) d = Some x then 1 else 0) else 0)"
    unfolding grab_events_def count_list_append by (simp add: counts split: option.split)
  show "count_list (grab_events env s) (ReleaseEvent d opc b) =
      (if Option.bind (st_interface (objects s) d) (\<lambda>i. event_opcode i ''button'') = Some opc
       then count_list (held_buttons (grabs s) d) b else 0)"
    unfolding grab_events_def count_list_append by (simp add: counts split: option.split)
qed

section \<open>Callbacks\<close>

definition done_messages :: "'b env \<Rightarrow> 'b shadow_table \<Rightarrow> u32 \<Rightarrow> byte list list" where
  "done_messages env t callback =
    (case st_interface t callback of
       None \<Rightarrow> []
     | Some iface \<Rightarrow>
        (case event_opcode iface ''done'' of
           None \<Rightarrow> [] | Some opc \<Rightarrow> [build_message (endian env) callback opc (put_u32 (endian env) [] 0)]) @
        (case delete_id_opcode t of None \<Rightarrow> [] | Some opc \<Rightarrow> [delete_id_message env opc callback]))"

lemma synthesize_frame_done_willing:
  "willing c \<Longrightarrow> synthesize_frame_done env t cb c = post (without_fds (done_messages env t cb)) c"
  by (simp add: synthesize_frame_done_def synthesize_delete_id_def done_messages_def write_message_post
      delete_id_message_def split: option.split)

lemma answer_callbacks_willing:
  "willing (gtk s) \<Longrightarrow> answer_callbacks env cs s =
     s\<lparr>gtk := post (without_fds (concat (map (done_messages env (objects s)) cs))) (gtk s)\<rparr>"
proof (induction cs arbitrary: s)
  case (Cons c cs)
  then show ?case
    by (cases "st_interface (objects s) c") (auto simp: synthesize_frame_done_willing done_messages_def [of env _ c])
qed simp

text \<open>Every callback still waiting is answered once; afterwards none is waiting.\<close>

lemma answer_awaiting_willing:
  assumes "willing (gtk s)"
  shows "gtk (answer_awaiting env s) = post (without_fds (concat (map (done_messages env (objects s))
      (ord_ids env (hs_elems (awaiting_done (pending_frames s))))))) (gtk s)"
    and "awaiting_done (pending_frames (answer_awaiting env s)) = []"
  using assms by (simp_all add: answer_awaiting_def drain_awaiting_done_def answer_callbacks_willing)

section \<open>Orphans\<close>

text \<open>A recipe with a parent that has no host id is skipped before anything is sent or allocated.\<close>

lemma live_None: "host_id (bim env) (objects s) p = None \<Longrightarrow> live env p s = None"
  by (simp add: live_def split: option.split)

lemma replay_child_orphan: "host_id (bim env) (objects s) p = None \<or> vs s = None \<Longrightarrow> replay_child env g p name vs s = (Inr None, s)"
  by (auto simp: replay_child_def live_None split: option.split)

lemma replay_orphan:
  assumes "p \<in> set (parents r)" "host_id (bim env) (objects s) p = None"
  shows "replay_recipe env globals ri rh g r s = (Inr (), s)"
  using assms
  by (cases r) (auto simp: replay_request_defs skip_result_def and_then_def go_def replay_child_orphan with_surface_def live_None
      replay_toplevel_def replay_dmabuf_def replay_viewport_def)

end
