(* ===== verification/RelayShape.thy ===== *)
theory RelayShape
  imports RelayFacts
begin

text \<open>
  The shape of what the relay does with one message: which phases a relayed message went
  through, what leaves the proxy byte by byte, and what is left behind when a message is
  dropped. The lemmas here are what the properties of the relay rest on.
\<close>

section \<open>Phases of a message\<close>

lemma resolve_messageD:
  "resolve_message env dir h msg s = (Inr ctx, s') \<Longrightarrow> s' = s \<and> resolve_context env dir (objects s) h = Some ctx"
  by (auto simp: resolve_message_def split: option.splits)

lemma walk_messageD:
  "walk_message env dir ctx msg s = (Inr walk, s') \<Longrightarrow>
   s' = s \<and> walk_signature (endian env) (drop HEADER_LEN msg) (signature (mc_desc ctx)) = Inr walk"
  by (auto simp: walk_message_def go_def drop_known_def split: sum.splits)

lemma translate_argumentsD:
  "translate_arguments env dir ctx walk msg s = (Inr msg', s') \<Longrightarrow>
   s' = s \<and> translate_objects (endian env) (translate_id env dir (objects s)) (object_offsets walk) msg = Inr msg'"
  by (auto simp: translate_arguments_def Let_def drop_known_def split: sum.splits)

text \<open>A message that goes all the way, with the state before each phase that changes it.\<close>

lemma relay_message_through:
  assumes "relay_message env dir h msg s = (Inr d, s')"
  obtains ctx walk m1 new m2 s2 m3 s3 m4 s4 where
    "resolve_context env dir (objects s) h = Some ctx"
    "walk_signature (endian env) (drop HEADER_LEN msg) (signature (mc_desc ctx)) = Inr walk"
    "translate_objects (endian env) (translate_id env dir (objects s)) (object_offsets walk) msg = Inr m1"
    "map_new_id env dir ctx walk (original_object_values (endian env) msg (object_offsets walk)) m1 s = (Inr (new, m2), s2)"
    "apply_delete_id env dir ctx m2 s2 = (Inr m3, s3)"
    "observe_message env dir ctx (original_object_values (endian env) msg (object_offsets walk)) new m3 s3 = (Inr m4, s4)"
    "deliver env dir ctx walk new m4 s4 = (Inr d, s')"
  using assms unfolding relay_message_def Let_def
  by (elim and_then_InrE)
    (auto split: prod.splits elim!: and_then_InrE dest!: resolve_messageD walk_messageD translate_argumentsD intro: that)

lemma resolve_contextD:
  assumes "resolve_context env dir t h = Some ctx"
  shows "mc_header ctx = h" "guest_sender env dir t (sender_id h) = Some (mc_sender ctx)"
    "st_interface t (mc_sender ctx) = Some (mc_iface ctx)"
    "desc_at (message_table dir (mc_iface ctx)) (opcode h) = Some (mc_desc ctx)"
  using assms by (auto simp: resolve_context_def split: option.splits)

section \<open>What each phase does when it goes on\<close>

lemma record_new_recipe_frame [simp]:
  "objects (record_new_recipe env dir ctx msg off os child g s) = objects s"
  "src (record_new_recipe env dir ctx msg off os child g s) = src s"
  "dst (record_new_recipe env dir ctx msg off os child g s) = dst s"
  "cache (record_new_recipe env dir ctx msg off os child g s) = cache s"
  "reclaim (record_new_recipe env dir ctx msg off os child g s) = reclaim s"
  "tasks (record_new_recipe env dir ctx msg off os child g s) = tasks s"
  "grabs (record_new_recipe env dir ctx msg off os child g s) = grabs s"
  "pending_frames (record_new_recipe env dir ctx msg off os child g s) = pending_frames s"
  "buffer_flow (record_new_recipe env dir ctx msg off os child g s) = buffer_flow s"
  by (simp_all add: record_new_recipe_def split: prod.split)

lemma map_new_idD:
  assumes "map_new_id env dir ctx walk os msg s = (Inr (new, msg'), s')"
  obtains (none) "new_id_offset walk = None" "new = None" "msg' = msg" "s' = s"
  | (client) off child v where "dir = ClientToHost" "new_id_offset walk = Some off"
      "resolve_child_interface (statics env) (mc_desc ctx) (dynamic_interface_name walk) = Some (child, v)"
      "new = Some (word_at (endian env) msg (HEADER_LEN + off))"
      "msg' = overwrite msg (HEADER_LEN + off) (to_ne_bytes (endian env) (next_host_id (objects s)))"
      "objects s' = st_map (bim env) (word_at (endian env) msg (HEADER_LEN + off)) (next_host_id (objects s)) child
        ((objects s)\<lparr>next_host_id := next_host_id (objects s) + 1\<rparr>)"
      "src s' = src s" "dst s' = dst s"
      "s' = record_new_recipe env dir ctx msg off os child (word_at (endian env) msg (HEADER_LEN + off))
        (s\<lparr>objects := objects s'\<rparr>)"
  | (server) off child v where "dir = HostToClient" "new_id_offset walk = Some off"
      "resolve_child_interface (statics env) (mc_desc ctx) (dynamic_interface_name walk) = Some (child, v)"
      "new = Some (next_guest_server_id (objects s))"
      "msg' = overwrite msg (HEADER_LEN + off) (to_ne_bytes (endian env) (next_guest_server_id (objects s)))"
      "objects s' = st_map (bim env) (next_guest_server_id (objects s)) (word_at (endian env) msg (HEADER_LEN + off)) child
        ((objects s)\<lparr>next_guest_server_id := next_guest_server_id (objects s) + 1\<rparr>)"
      "src s' = src s" "dst s' = dst s"
proof (cases "new_id_offset walk")
  case None
  then show thesis using assms that(1) by (simp add: map_new_id_def go_def)
next
  case (Some off)
  then obtain child v where c: "resolve_child_interface (statics env) (mc_desc ctx) (dynamic_interface_name walk) = Some (child, v)"
    using assms by (auto simp: map_new_id_def drop_known_def Let_def split: option.splits)
  show thesis
  proof (cases dir)
    case ClientToHost
    show thesis using assms Some c
      by (intro that(2) [OF ClientToHost Some c])
        (auto simp: map_new_id_def new_id_pair_def allocate_host_id_def Let_def ClientToHost)
  next
    case HostToClient
    show thesis using assms Some c
      by (intro that(3) [OF HostToClient Some c])
        (auto simp: map_new_id_def new_id_pair_def allocate_guest_server_id_def Let_def HostToClient)
  qed
qed

lemma apply_delete_id_other:
  "\<not> is_message ctx ''wl_display'' ''delete_id'' \<Longrightarrow> apply_delete_id env dir ctx msg s = (Inr msg, s)"
  by (simp add: apply_delete_id_def)

text \<open>What the observers may change besides the trackers: the id allocator, through the splice.\<close>

definition observed :: "'b relay_state \<Rightarrow> 'b relay_state \<Rightarrow> bool" where
  "observed s s' \<longleftrightarrow> (\<exists>n. objects s' = (objects s)\<lparr>next_host_id := n\<rparr>) \<and> dst s' = dst s \<and>
     read_fds (src s') = read_fds (src s) \<and> cache s' = cache s"

interpretation observed: framing "observed :: 'b relay_state \<Rightarrow> _ \<Rightarrow> bool"
proof
  show "observed s s" for s :: "'b relay_state"
    unfolding observed_def by (auto intro: exI [of _ "next_host_id (objects s)"])
  show "observed s1 s2 \<Longrightarrow> observed s2 s3 \<Longrightarrow> observed s1 s3" for s1 s2 s3 :: "'b relay_state"
    unfolding observed_def by auto
qed

lemma quiet_observed: "quiet s s' \<Longrightarrow> observed s s'"
  unfolding quiet_def observed_def by (auto intro: exI [of _ "next_host_id (objects s)"])

lemma only_writes_observed: "only_writes s s' \<Longrightarrow> observed s s'"
  by (auto simp: only_writes_def observed_def)

lemma keeps_observed: "keeps observed (observe_message env dir ctx originals new_guest msg)"
  unfolding observe_message_def
  by (intro observed.keeps_and_then observed.keeps_modify observed.keeps_go quiet_observed
      quiet_observers only_writes_observed maybe_reclaim_writes
      keeps_weaken [OF keeps_quiet_toplevel] keeps_weaken [OF keeps_quiet_stale])

lemma keeps_quiet_observe_client: "keeps quiet (observe_message env ClientToHost ctx originals new_guest msg)"
proof -
  have "maybe_reclaim env ClientToHost ctx m s = s" for m s
    by (simp add: maybe_reclaim_def)
  then have r: "quiet s (maybe_reclaim env ClientToHost ctx m s)" for m s
    by (simp add: quiet.stay)
  show ?thesis unfolding observe_message_def
    by (intro quiet.keeps_and_then quiet.keeps_modify quiet.keeps_go quiet_observers r
        keeps_quiet_toplevel keeps_quiet_stale)
qed

lemma modify_InrE: "modify f s = (Inr a, s') \<Longrightarrow> s' = f s"
  by (simp add: modify_def)

lemma observe_toplevel_msg:
  assumes "observe_toplevel env dir ctx msg s = (Inr msg', s')"
  shows "msg' = msg \<or> (\<exists>corrected. dir = ClientToHost \<and> is_message ctx ''xdg_toplevel'' ''set_app_id'' \<and>
    msg' = build_message (endian env) (sender_id (mc_header ctx)) (opcode (mc_header ctx))
      (put_str (endian env) [] corrected))"
  using assms by (auto simp: observe_toplevel_def split: if_splits option.splits prod.splits)

text \<open>Only an application id is ever replaced.\<close>

lemma observe_message_msg:
  assumes "observe_message env dir ctx os new msg s = (Inr msg', s')"
    and "\<not> (dir = ClientToHost \<and> is_message ctx ''xdg_toplevel'' ''set_app_id'')"
  shows "msg' = msg"
  using assms unfolding observe_message_def
  by (elim and_then_InrE) (auto simp: go_def dest!: observe_toplevel_msg)

lemma readdressD:
  assumes "readdress env dir ctx new msg s = (Inr (other, msg'), s')" "4 \<le> length msg"
  shows "s' = s" "other_side_sender env dir (objects s) (mc_sender ctx) = Some other"
    "msg' = overwrite msg 0 (to_ne_bytes (endian env) other)"
proof -
  have "\<exists>b. get_range msg 0 4 = Some b" using assms(2) by (simp add: get_range_def)
  then show "s' = s" "other_side_sender env dir (objects s) (mc_sender ctx) = Some other"
    "msg' = overwrite msg 0 (to_ne_bytes (endian env) other)"
    using assms(1) by (auto simp: readdress_def write_sender_id_def split: option.splits)
qed

lemma tee_clipboard_other:
  "\<not> (dir = HostToClient \<and> is_message ctx ''wl_data_source'' ''send'') \<Longrightarrow>
   tee_clipboard env dir ctx msg fds s = (Inr fds, s)"
  unfolding tee_clipboard_def by argo

lemma tee_clipboard_goes_on: "\<exists>fds' s'. tee_clipboard env dir ctx msg fds s = (Inr fds', s') \<and> quiet s s'"
  by (auto simp: tee_clipboard_def quiet_def split: option.splits)

text \<open>The descriptors that go out with a message, of those it took off the queue: all of them, in order,
  except that of a clipboard transfer in a cacheable type the last one is replaced by the one the
  tee hands to the client, or lost when the tee cannot be set up.\<close>

definition outgoing_fds :: "'b env \<Rightarrow> direction \<Rightarrow> msg_ctx \<Rightarrow> byte list \<Rightarrow> fd list \<Rightarrow> fd list \<Rightarrow> bool" where
  "outgoing_fds env dir ctx msg taken fds \<longleftrightarrow>
     (if dir = HostToClient \<and> is_message ctx ''wl_data_source'' ''send'' \<and> taken \<noteq> [] \<and>
         (\<exists>mime k. read_str (endian env) (drop HEADER_LEN msg) 0 = Some (mime, k) \<and> is_cacheable_mime mime)
      then \<exists>mime k. read_str (endian env) (drop HEADER_LEN msg) 0 = Some (mime, k) \<and>
        fds = butlast taken @ (case start_tee (pipes env) (last taken) mime of Some (client_fd, _) \<Rightarrow> [client_fd] | None \<Rightarrow> [])
      else fds = taken)"

lemma tee_clipboard_outgoing:
  "tee_clipboard env dir ctx msg taken s = (Inr fds, s') \<Longrightarrow> outgoing_fds env dir ctx msg taken fds"
  by (auto simp: tee_clipboard_def outgoing_fds_def split: if_splits option.splits)

lemma forward_goes_on:
  "forward env dir ctx walk other msg fds s = (Inr (if dst s = None then DroppedFrozen else Relayed),
     record_message env dir (if dst s = None then DroppedFrozen else Relayed) (i_name ctx) (d_name ctx) other
       (opcode (mc_header ctx)) (if dst s = None then fd_count walk else length fds) msg s
     \<lparr>dst := map_option (\<lambda>c. snd (write_message msg fds c)) (dst s)\<rparr>)"
  by (auto simp: forward_def Let_def record_message_def split: option.splits)

text \<open>What a delivery does: the descriptors are taken from the front of the queue, and the message,
  addressed from the sender's counterpart, is written once when there is a destination.\<close>

lemma deliver_through:
  assumes "deliver env dir ctx walk new msg s = (Inr d, s')" "4 \<le> length msg"
  obtains other fds where
    "other_side_sender env dir (objects s) (mc_sender ctx) = Some other"
    "objects s' = objects s" "src s' = (src s)\<lparr>read_fds := drop (fd_count walk) (read_fds (src s))\<rparr>"
    "d = (if dst s = None then DroppedFrozen else Relayed)"
    "dst s' = map_option (\<lambda>c. snd (write_message (overwrite msg 0 (to_ne_bytes (endian env) other)) fds c)) (dst s)"
    "outgoing_fds env dir ctx (overwrite msg 0 (to_ne_bytes (endian env) other)) (take (fd_count walk) (read_fds (src s))) fds"
proof -
  from assms(1) obtain other m1 s1 where r: "readdress env dir ctx new msg s = (Inr (other, m1), s1)"
    and rest: "and_then (take_fds (fd_count walk)) (\<lambda>fds.
      and_then (tee_clipboard env dir ctx m1 fds) (\<lambda>fds.
      and_then (forward env dir ctx walk other m1 fds) (\<lambda>d.
      and_then (modify (retain_pool_fd env dir ctx walk new m1 fds)) (\<lambda>_.
      and_then (modify (retain_plane_fd env dir ctx m1 fds)) (\<lambda>_. go d))))) s1 = (Inr d, s')"
    unfolding deliver_def by (elim and_then_InrE [of "readdress env dir ctx new msg"]) (auto split: prod.splits)
  note rd = readdressD [OF r assms(2)]
  let ?fds = "take (fd_count walk) (read_fds (src s))"
  let ?s2 = "s\<lparr>src := (src s)\<lparr>read_fds := drop (fd_count walk) (read_fds (src s))\<rparr>\<rparr>"
  obtain fds s3 where t: "tee_clipboard env dir ctx m1 ?fds ?s2 = (Inr fds, s3)" "quiet ?s2 s3"
    using tee_clipboard_goes_on by blast
  have "outgoing_fds env dir ctx m1 ?fds fds" using t(1) by (rule tee_clipboard_outgoing)
  moreover have "dst s3 = dst s" "objects s3 = objects s" "src s3 = src ?s2" using t(2) by (auto simp: quiet_def)
  moreover from rest rd(1) t(1) have "d = (if dst s3 = None then DroppedFrozen else Relayed) \<and>
    quiet (snd (forward env dir ctx walk other m1 fds s3)) s'"
    using quiet.trans [OF quiet_observers(6) quiet_observers(7)]
    by (auto simp: and_then_def take_fds_def modify_def go_def forward_goes_on)
  ultimately show thesis using rd
    by (intro that [of other fds]) (auto simp: quiet_def forward_goes_on)
qed

section \<open>Where a message stops\<close>

lemma resolve_message_stop:
  "resolve_message env dir h msg s = (Inl d, s') \<Longrightarrow>
   d = DroppedUnknown \<and> resolve_context env dir (objects s) h = None \<and> quiet s s'"
  by (auto simp: resolve_message_def quiet_record split: option.splits)

lemma walk_message_stop:
  "walk_message env dir ctx msg s = (Inl d, s') \<Longrightarrow>
   d = DroppedParseError \<and> (\<exists>e. walk_signature (endian env) (drop HEADER_LEN msg) (signature (mc_desc ctx)) = Inl e) \<and> quiet s s'"
  by (auto simp: walk_message_def go_def drop_known_def quiet_record split: sum.splits)

lemma translate_arguments_stop:
  "translate_arguments env dir ctx walk msg s = (Inl d, s') \<Longrightarrow>
   (\<exists>x. d = DroppedUntranslatable x \<and>
     translate_objects (endian env) (translate_id env dir (objects s)) (object_offsets walk) msg = Inl x) \<and> quiet s s'"
  by (auto simp: translate_arguments_def Let_def drop_known_def quiet_record split: sum.splits)

lemma map_new_id_stop:
  assumes "map_new_id env dir ctx walk os msg s = (Inl d, s')"
  shows "d = DroppedUnresolvableChild \<and> new_id_offset walk \<noteq> None \<and>
    resolve_child_interface (statics env) (mc_desc ctx) (dynamic_interface_name walk) = None \<and>
    src s' = src s \<and> dst s' = dst s \<and> graph s' = graph s \<and>
    (objects s' = objects s \<or> (\<exists>g nm. objects s' = remember_unresolvable_interface g nm (objects s)))"
  using assms
  by (auto simp: map_new_id_def go_def drop_known_def Let_def
      split: option.splits prod.splits direction.splits if_splits) blast

lemma apply_delete_id_stop:
  "apply_delete_id env dir ctx msg s = (Inl d, s') \<Longrightarrow>
   d = DroppedUntrackedDeleteId \<and> is_message ctx ''wl_display'' ''delete_id'' \<and> quiet s s'"
  by (auto simp: apply_delete_id_def drop_known_def quiet_record split: if_splits option.splits)

lemma observe_message_stop:
  "observe_message env dir ctx os new msg s = (Inl d, s') \<Longrightarrow>
   d = DroppedStaleGeneration \<and> dir = HostToClient \<and> is_message ctx ''wl_buffer'' ''release'' \<and> observed s s'"
proof (intro conjI)
  assume o: "observe_message env dir ctx os new msg s = (Inl d, s')"
  then show "observed s s'" by (rule keepsD [OF keeps_observed])
  from o show "d = DroppedStaleGeneration" "dir = HostToClient" "is_message ctx ''wl_buffer'' ''release''"
    unfolding observe_message_def
    by (auto elim!: and_then_InlE simp: modify_def go_def drop_stale_release_def drop_known_def observe_toplevel_def
        split: if_splits option.splits)
qed

lemma deliver_stop:
  "deliver env dir ctx walk new msg s = (Inl d, s') \<Longrightarrow>
   d = DroppedNoSender \<and> other_side_sender env dir (objects s) (mc_sender ctx) = None \<and>
   s' = roll_back_new_id env dir new (answer_stale_sender env dir ctx new s)"
proof -
  assume o: "deliver env dir ctx walk new msg s = (Inl d, s')"
  have "tee_clipboard env dir ctx m fds s1 \<noteq> (Inl d, s2)" for m fds s1 s2
    using tee_clipboard_goes_on [of env dir ctx m fds s1] by auto
  then have "readdress env dir ctx new msg s = (Inl d, s')"
    using o unfolding deliver_def
    by (elim and_then_InlE) (auto simp: take_fds_def modify_def go_def forward_goes_on
        split: prod.splits elim!: and_then_InlE)
  then show ?thesis by (auto simp: readdress_def split: option.splits sum.splits)
qed

lemma same_dst_new_id: "keeps same_dst (map_new_id env dir ctx walk os msg)"
proof (rule keepsI)
  fix s r s' assume m: "map_new_id env dir ctx walk os msg s = (r, s')"
  show "same_dst s s'"
  proof (cases r)
    case (Inl d)
    then show ?thesis using map_new_id_stop [of env dir ctx walk os msg s d s'] m by (auto simp: quiet_def same_dst_def)
  next
    case (Inr p)
    then obtain new m' where "map_new_id env dir ctx walk os msg s = (Inr (new, m'), s')" using m by (cases p) auto
    then show ?thesis by (rule map_new_idD) (simp_all add: same_dst_def)
  qed
qed

lemma same_dst_delete_id: "keeps same_dst (apply_delete_id env dir ctx msg)"
  by (rule keepsI) (auto simp: apply_delete_id_def drop_known_def same_dst_def split: if_splits option.splits)

lemma observed_same_dst: "observed s s' \<Longrightarrow> same_dst s s'"
  by (simp add: observed_def same_dst_def)

lemma quiet_same_dst: "quiet s s' \<Longrightarrow> same_dst s s'"
  by (simp add: quiet_def same_dst_def)

text \<open>A stopped message has one of the drop outcomes, and the destination has not been touched.\<close>

definition drop_outcomes :: "disposition \<Rightarrow> bool" where
  "drop_outcomes d \<longleftrightarrow> d \<notin> {Relayed, DroppedFrozen, Intercepted}"

text \<open>Every way to stop, with what led there.\<close>

lemma relay_message_stop_cases:
  assumes "relay_message env dir h msg s = (Inl d, s')"
  obtains (unknown) "d = DroppedUnknown" "resolve_context env dir (objects s) h = None" "quiet s s'"
  | (unparsed) ctx e where "d = DroppedParseError" "resolve_context env dir (objects s) h = Some ctx"
      "walk_signature (endian env) (drop HEADER_LEN msg) (signature (mc_desc ctx)) = Inl e" "quiet s s'"
  | (untranslatable) ctx walk x where "d = DroppedUntranslatable x" "resolve_context env dir (objects s) h = Some ctx"
      "walk_signature (endian env) (drop HEADER_LEN msg) (signature (mc_desc ctx)) = Inr walk"
      "translate_objects (endian env) (translate_id env dir (objects s)) (object_offsets walk) msg = Inl x" "quiet s s'"
  | (unresolvable) ctx walk m1 os where "d = DroppedUnresolvableChild" "resolve_context env dir (objects s) h = Some ctx"
      "walk_signature (endian env) (drop HEADER_LEN msg) (signature (mc_desc ctx)) = Inr walk"
      "map_new_id env dir ctx walk os m1 s = (Inl d, s')"
  | (untracked) ctx walk m1 os new m2 s2 where "d = DroppedUntrackedDeleteId" "resolve_context env dir (objects s) h = Some ctx"
      "map_new_id env dir ctx walk os m1 s = (Inr (new, m2), s2)"
      "is_message ctx ''wl_display'' ''delete_id''" "quiet s2 s'"
  | (stale_release) ctx walk m1 os new m2 s2 m3 s3 where "d = DroppedStaleGeneration" "dir = HostToClient"
      "resolve_context env dir (objects s) h = Some ctx" "map_new_id env dir ctx walk os m1 s = (Inr (new, m2), s2)"
      "apply_delete_id env dir ctx m2 s2 = (Inr m3, s3)" "is_message ctx ''wl_buffer'' ''release''" "observed s3 s'"
  | (no_sender) ctx walk m1 new m2 s2 m3 s3 m4 s4 where "d = DroppedNoSender" "resolve_context env dir (objects s) h = Some ctx"
      "walk_signature (endian env) (drop HEADER_LEN msg) (signature (mc_desc ctx)) = Inr walk"
      "translate_objects (endian env) (translate_id env dir (objects s)) (object_offsets walk) msg = Inr m1"
      "map_new_id env dir ctx walk (original_object_values (endian env) msg (object_offsets walk)) m1 s = (Inr (new, m2), s2)"
      "apply_delete_id env dir ctx m2 s2 = (Inr m3, s3)"
      "observe_message env dir ctx (original_object_values (endian env) msg (object_offsets walk)) new m3 s3 = (Inr m4, s4)"
      "other_side_sender env dir (objects s4) (mc_sender ctx) = None"
      "s' = roll_back_new_id env dir new (answer_stale_sender env dir ctx new s4)"
proof -
  note ends = resolve_messageD walk_messageD translate_argumentsD resolve_message_stop walk_message_stop
    translate_arguments_stop apply_delete_id_stop observe_message_stop deliver_stop
  show thesis
    using assms unfolding relay_message_def Let_def
    apply (elim and_then_InlE)
    subgoal by (auto dest!: resolve_message_stop intro: unknown)
    subgoal by (auto dest!: resolve_messageD walk_message_stop intro: unparsed)
    subgoal by (auto dest!: resolve_messageD walk_messageD translate_arguments_stop intro: untranslatable)
    subgoal by (frule map_new_id_stop) (auto dest!: resolve_messageD walk_messageD translate_argumentsD intro: unresolvable)
    subgoal
      apply (clarsimp split: prod.splits)
      apply (erule and_then_InlE)
      subgoal by (auto dest!: ends intro: untracked)
      apply (erule and_then_InlE)
      subgoal by (auto dest!: ends intro: stale_release)
      subgoal by (drule deliver_stop) (auto dest!: resolve_messageD walk_messageD translate_argumentsD intro: no_sender)
      done
    done
qed

lemma relay_message_stopped:
  assumes "relay_message env dir h msg s = (Inl d, s')"
  shows "drop_outcomes d" "dst s' = dst s"
proof -
  have nid: "dst s2 = dst s" if "map_new_id env di ctx walk os m1 s = (r, s2)" for di ctx walk os m1 r s2
    using keepsD [OF same_dst_new_id that] by (simp add: same_dst_def)
  have del: "dst s3 = dst s2" if "apply_delete_id env di ctx m2 s2 = (r, s3)" for di ctx m2 s2 r s3
    using keepsD [OF same_dst_delete_id that] by (simp add: same_dst_def)
  have obs: "dst s4 = dst s3" if "observe_message env di ctx os new m3 s3 = (r, s4)" for di ctx os new m3 s3 r s4
    using keepsD [OF keeps_observed that] by (simp add: observed_def)
  from assms show "drop_outcomes d"
    by (rule relay_message_stop_cases) (simp_all add: drop_outcomes_def)
  from assms show "dst s' = dst s"
    by (rule relay_message_stop_cases) (auto simp: quiet_def observed_def dest!: nid del obs map_new_id_stop)
qed

section \<open>What leaves the proxy\<close>

text \<open>The specification of a forwarded message, word by word: the sender is its counterpart, every
  object argument its translation, the new id the one allocated for the receiving side, and every
  other byte is as it was.\<close>

definition translated_message :: "endianness \<Rightarrow> (u32 \<Rightarrow> u32 option) \<Rightarrow> signature_walk \<Rightarrow> u32 \<Rightarrow> u32
    \<Rightarrow> byte list \<Rightarrow> byte list \<Rightarrow> bool" where
  "translated_message en tr walk other fresh msg msg' \<longleftrightarrow>
     length msg' = length msg \<and> word_at en msg' 0 = other \<and>
     (\<forall>o1 \<in> set (object_offsets walk). tr (word_at en msg (HEADER_LEN + o1)) = Some (word_at en msg' (HEADER_LEN + o1))) \<and>
     (\<forall>n. new_id_offset walk = Some n \<longrightarrow> word_at en msg' (HEADER_LEN + n) = fresh) \<and>
     (\<forall>i < length msg. 4 \<le> i \<longrightarrow> (\<forall>o1 \<in> set (object_offsets walk). \<not> in_word o1 i) \<longrightarrow>
        (\<forall>n. new_id_offset walk = Some n \<longrightarrow> \<not> in_word n i) \<longrightarrow> msg' ! i = msg ! i)"

text \<open>The id a message's new object gets on the receiving side.\<close>

definition fresh_id :: "direction \<Rightarrow> 'b shadow_table \<Rightarrow> u32" where
  "fresh_id dir t = (case dir of ClientToHost \<Rightarrow> next_host_id t | HostToClient \<Rightarrow> next_guest_server_id t)"

text \<open>The two messages whose other bytes change: \<open>delete_id\<close> carries an id as a plain number, and an
  application id may be corrected.\<close>

definition ordinary :: "direction \<Rightarrow> msg_ctx \<Rightarrow> bool" where
  "ordinary dir ctx \<longleftrightarrow> \<not> is_message ctx ''wl_display'' ''delete_id'' \<and>
     \<not> (dir = ClientToHost \<and> is_message ctx ''xdg_toplevel'' ''set_app_id'')"

lemma word_at_overwrite_sender:
  "4 \<le> length msg \<Longrightarrow> word_at en (overwrite msg 0 (to_ne_bytes en v)) 0 = v"
  using word_at_overwrite [of 0 msg en v] by simp

lemma translated_message_build:
  assumes w: "words_translated en tr (object_offsets walk) msg m1"
    and sp: "spaced (length msg) (object_offsets walk)" "HEADER_LEN \<le> length msg"
    and n: "\<And>n. new_id_offset walk = Some n \<Longrightarrow> HEADER_LEN + n + 4 \<le> length msg \<and>
      (\<forall>o1 \<in> set (object_offsets walk). o1 + 4 \<le> n \<or> n + 4 \<le> o1)"
    and m2: "m2 = (case new_id_offset walk of None \<Rightarrow> m1
      | Some n \<Rightarrow> overwrite m1 (HEADER_LEN + n) (to_ne_bytes en fresh))"
  shows "translated_message en tr walk other fresh msg (overwrite m2 0 (to_ne_bytes en other))"
proof -
  let ?m = "overwrite m2 0 (to_ne_bytes en other)"
  have l1: "length m1 = length msg" using w by (simp add: words_translated_def)
  then have l2: "length m2 = length msg" using n m2 by (auto split: option.splits)
  then have l: "length ?m = length msg" using sp(2) by (simp add: HEADER_LEN_def)
  have b: "?m ! i = m2 ! i" if "4 \<le> i" "i < length msg" for i
    using that l2 by (simp add: overwrite_nth)
  have c: "m2 ! i = m1 ! i" if "i < length msg" "\<forall>n. new_id_offset walk = Some n \<longrightarrow> \<not> in_word n i" for i
    using that l1 n m2 by (auto simp: overwrite_nth in_word_def split: option.splits)
  have ow: "word_at en ?m (HEADER_LEN + o1) = word_at en m1 (HEADER_LEN + o1)" if o1: "o1 \<in> set (object_offsets walk)" for o1
  proof (rule word_at_eqI)
    show "length ?m = length m1" using l l1 by simp
    show le: "HEADER_LEN + o1 + 4 \<le> length ?m" using sp(1) o1 l by (simp add: spaced_def)
    fix i assume i: "HEADER_LEN + o1 \<le> i" "i < HEADER_LEN + o1 + 4"
    then have "\<forall>n. new_id_offset walk = Some n \<longrightarrow> \<not> in_word n i"
      using n o1 by (fastforce simp: in_word_def)
    then show "?m ! i = m1 ! i" using b c i le l by (simp add: HEADER_LEN_def)
  qed
  have nw: "word_at en ?m (HEADER_LEN + k) = fresh" if k: "new_id_offset walk = Some k" for k
  proof -
    have "word_at en ?m (HEADER_LEN + k) = word_at en m2 (HEADER_LEN + k)"
      using n [OF k] l l2 b by (intro word_at_eqI) (simp_all add: HEADER_LEN_def)
    also have "\<dots> = fresh" using n [OF k] m2 k l1 by (simp add: word_at_overwrite)
    finally show ?thesis .
  qed
  show ?thesis unfolding translated_message_def
    using l ow nw b c w sp(2) l2
    by (auto simp: words_translated_def word_at_overwrite_sender HEADER_LEN_def)
qed

lemma relayed_shape:
  assumes "relay_message env dir h msg s = (Inr d, s')" "HEADER_LEN \<le> length msg"
  obtains ctx walk other fds msg' where
    "resolve_context env dir (objects s) h = Some ctx"
    "walk_signature (endian env) (drop HEADER_LEN msg) (signature (mc_desc ctx)) = Inr walk"
    "other_side_sender env dir (objects s') (mc_sender ctx) = Some other"
    "d = (if dst s = None then DroppedFrozen else Relayed)"
    "dst s' = map_option (\<lambda>c. snd (write_message msg' fds c)) (dst s)"
    "read_fds (src s') = drop (fd_count walk) (read_fds (src s))"
    "outgoing_fds env dir ctx msg' (take (fd_count walk) (read_fds (src s))) fds"
    "ordinary dir ctx \<longrightarrow> translated_message (endian env) (translate_id env dir (objects s)) walk other
       (fresh_id dir (objects s)) msg msg'"
  using assms(1)
proof (rule relay_message_through)
  fix ctx and walk :: signature_walk and m1 new m2 s2 m3 s3 m4 s4
  let ?os = "original_object_values (endian env) msg (object_offsets walk)"
  assume ctx: "resolve_context env dir (objects s) h = Some ctx"
    and walk: "walk_signature (endian env) (drop HEADER_LEN msg) (signature (mc_desc ctx)) = Inr walk"
    and tr: "translate_objects (endian env) (translate_id env dir (objects s)) (object_offsets walk) msg = Inr m1"
    and nid: "map_new_id env dir ctx walk ?os m1 s = (Inr (new, m2), s2)"
    and del: "apply_delete_id env dir ctx m2 s2 = (Inr m3, s3)"
    and obs: "observe_message env dir ctx ?os new m3 s3 = (Inr m4, s4)"
    and dlv: "deliver env dir ctx walk new m4 s4 = (Inr d, s')"
  note sp = walk_spaced [OF walk assms(2)]
  have w: "words_translated (endian env) (translate_id env dir (objects s)) (object_offsets walk) msg m1"
    by (rule translate_objects_spec [OF tr sp(1)])
  then have l1: "length m1 = length msg" by (simp add: words_translated_def)
  have m2: "m2 = (case new_id_offset walk of None \<Rightarrow> m1
      | Some n \<Rightarrow> overwrite m1 (HEADER_LEN + n) (to_ne_bytes (endian env) (fresh_id dir (objects s))))"
    and s2: "src s2 = src s" "dst s2 = dst s"
    using nid by (rule map_new_idD; simp add: fresh_id_def)+
  have l2: "length m2 = length msg" using m2 l1 sp(2) by (auto split: option.splits)
  have s3: "src s3 = src s2" "dst s3 = dst s2" and l3: "length m3 = length msg"
    using del l2 assms(2)
    by (auto simp: apply_delete_id_def drop_known_def get_range_Some_iff split: if_splits option.splits)
  have s4: "read_fds (src s4) = read_fds (src s3)" "dst s4 = dst s3"
    using keepsD [OF keeps_observed obs] by (simp_all add: observed_def)
  have l4: "4 \<le> length m4"
  proof (cases "dir = ClientToHost \<and> is_message ctx ''xdg_toplevel'' ''set_app_id''")
    case True
    then show ?thesis using obs l3 assms(2) unfolding observe_message_def
      by (elim and_then_InrE) (auto simp: go_def HEADER_LEN_def dest!: observe_toplevel_msg)
  next
    case False
    then show ?thesis using observe_message_msg [OF obs] l3 assms(2) by (simp add: HEADER_LEN_def)
  qed
  from deliver_through [OF dlv l4] obtain other fds where d:
    "other_side_sender env dir (objects s4) (mc_sender ctx) = Some other" "objects s' = objects s4"
    "src s' = (src s4)\<lparr>read_fds := drop (fd_count walk) (read_fds (src s4))\<rparr>"
    "d = (if dst s4 = None then DroppedFrozen else Relayed)"
    "dst s' = map_option (\<lambda>c. snd (write_message (overwrite m4 0 (to_ne_bytes (endian env) other)) fds c)) (dst s4)"
    "outgoing_fds env dir ctx (overwrite m4 0 (to_ne_bytes (endian env) other)) (take (fd_count walk) (read_fds (src s4))) fds"
    by metis
  have t: "translated_message (endian env) (translate_id env dir (objects s)) walk other (fresh_id dir (objects s)) msg
      (overwrite m4 0 (to_ne_bytes (endian env) other))" if "ordinary dir ctx"
  proof -
    have "m4 = m2" using that observe_message_msg [OF obs] del by (auto simp: ordinary_def apply_delete_id_other)
    then show ?thesis using translated_message_build [OF w sp(1) assms(2) sp(2) m2] by simp
  qed
  show thesis
  proof (rule that [OF ctx walk])
    show "other_side_sender env dir (objects s') (mc_sender ctx) = Some other" using d(1,2) by simp
    show "d = (if dst s = None then DroppedFrozen else Relayed)" using d(4) s2 s3 s4 by simp
    show "dst s' = map_option (\<lambda>c. snd (write_message (overwrite m4 0 (to_ne_bytes (endian env) other)) fds c)) (dst s)"
      using d(5) s2 s3 s4 by simp
    show "read_fds (src s') = drop (fd_count walk) (read_fds (src s))" using d(3) s2 s3 s4 by simp
    show "outgoing_fds env dir ctx (overwrite m4 0 (to_ne_bytes (endian env) other)) (take (fd_count walk) (read_fds (src s))) fds"
      using d(6) s2 s3 s4 by simp
  qed (use t in blast)
qed

section \<open>What a drop leaves behind\<close>

lemma quiet_fds: "quiet s s' \<Longrightarrow> read_fds (src s') = read_fds (src s)"
  by (simp add: quiet_def)

lemma map_new_id_src: "map_new_id env dir ctx walk os msg s = (r, s') \<Longrightarrow> src s' = src s"
  by (auto simp: map_new_id_def go_def drop_known_def Let_def
      split: option.splits prod.splits direction.splits if_splits)

lemma apply_delete_id_src: "apply_delete_id env dir ctx msg s = (r, s') \<Longrightarrow> src s' = src s"
  by (auto simp: apply_delete_id_def drop_known_def split: if_splits option.splits)

text \<open>A dropped message takes no descriptor off the queue, even when its signature declares some.\<close>

lemma stopped_keeps_fds:
  assumes "relay_message env dir h msg s = (Inl d, s')"
  shows "read_fds (src s') = read_fds (src s)"
  using assms
proof (rule relay_message_stop_cases)
  fix ctx and walk :: signature_walk and m1 os new m2 s2 m3 s3
  assume "map_new_id env dir ctx walk os m1 s = (Inr (new, m2), s2)" "apply_delete_id env dir ctx m2 s2 = (Inr m3, s3)"
    "observed s3 s'"
  then show ?thesis by (auto simp: observed_def dest!: map_new_id_src apply_delete_id_src)
next
  fix ctx and walk :: signature_walk and m1 new m2 s2 m3 s3 m4 s4
  let ?os = "original_object_values (endian env) msg (object_offsets walk)"
  assume "map_new_id env dir ctx walk ?os m1 s = (Inr (new, m2), s2)" "apply_delete_id env dir ctx m2 s2 = (Inr m3, s3)"
    and o: "observe_message env dir ctx ?os new m3 s3 = (Inr m4, s4)"
    and s': "s' = roll_back_new_id env dir new (answer_stale_sender env dir ctx new s4)"
  then have "src s3 = src s" by (auto dest!: map_new_id_src apply_delete_id_src)
  moreover have "read_fds (src s4) = read_fds (src s3)"
    using keepsD [OF keeps_observed o] by (simp add: observed_def)
  ultimately show ?thesis by (simp add: s')
qed (auto dest!: quiet_fds map_new_id_src)

text \<open>The id a client chose for its new object, before and after the object arguments are translated.\<close>

lemma word_at_translated:
  assumes w: "words_translated en tr offsets msg m1"
    and n: "HEADER_LEN + n + 4 \<le> length msg" "\<forall>o1 \<in> set offsets. o1 + 4 \<le> n \<or> n + 4 \<le> o1"
  shows "word_at en m1 (HEADER_LEN + n) = word_at en msg (HEADER_LEN + n)"
proof (rule word_at_eqI)
  show "length m1 = length msg" using w by (simp add: words_translated_def)
  show "HEADER_LEN + n + 4 \<le> length m1" using w n(1) by (simp add: words_translated_def)
  fix i assume i: "HEADER_LEN + n \<le> i" "i < HEADER_LEN + n + 4"
  have "\<not> in_word o1 i" if "o1 \<in> set offsets" for o1
    using n(2) that i by (fastforce simp: in_word_def)
  then show "m1 ! i = msg ! i" using w i n(1) by (simp add: words_translated_def)
qed

text \<open>A delivery that goes on changes no translation.\<close>

definition same_objects :: "'b relay_state \<Rightarrow> 'b relay_state \<Rightarrow> bool" where
  "same_objects s s' \<longleftrightarrow> objects s' = objects s"

interpretation same_objects: framing "same_objects :: 'b relay_state \<Rightarrow> _ \<Rightarrow> bool"
  by unfold_locales (simp_all add: same_objects_def)

lemma quiet_same_objects: "quiet s s' \<Longrightarrow> same_objects s s'"
  by (simp add: quiet_def same_objects_def)

lemma deliver_objects:
  assumes "deliver env dir ctx walk new msg s = (Inr d, s')"
  shows "objects s' = objects s"
proof -
  from assms obtain other m1 s1 where r: "readdress env dir ctx new msg s = (Inr (other, m1), s1)"
    and rest: "and_then (take_fds (fd_count walk)) (\<lambda>fds.
      and_then (tee_clipboard env dir ctx m1 fds) (\<lambda>fds.
      and_then (forward env dir ctx walk other m1 fds) (\<lambda>d.
      and_then (modify (retain_pool_fd env dir ctx walk new m1 fds)) (\<lambda>_.
      and_then (modify (retain_plane_fd env dir ctx m1 fds)) (\<lambda>_. go d))))) s1 = (Inr d, s')"
    unfolding deliver_def by (elim and_then_InrE [of "readdress env dir ctx new msg"]) (auto split: prod.splits)
  have s1: "s1 = s" using r by (auto simp: readdress_def split: option.splits sum.splits)
  have t: "keeps same_objects (take_fds n)" for n
    by (rule keepsI) (auto simp: take_fds_def same_objects_def)
  have f: "keeps same_objects (forward env dir ctx walk other m1 fds)" for fds
    by (simp add: keeps_def forward_goes_on same_objects_def)
  have "keeps same_objects (and_then (take_fds (fd_count walk)) (\<lambda>fds.
      and_then (tee_clipboard env dir ctx m1 fds) (\<lambda>fds.
      and_then (forward env dir ctx walk other m1 fds) (\<lambda>d.
      and_then (modify (retain_pool_fd env dir ctx walk new m1 fds)) (\<lambda>_.
      and_then (modify (retain_plane_fd env dir ctx m1 fds)) (\<lambda>_. go d))))))"
    by (intro same_objects.keeps_and_then same_objects.keeps_modify same_objects.keeps_go t f
        keeps_weaken [OF keeps_quiet_tee] quiet_same_objects quiet_observers)
  from this [unfolded keeps_def, THEN spec, of s1] show ?thesis
    unfolding rest by (simp add: same_objects_def s1)
qed

text \<open>The new object's host id is given back, so the next request that creates one gets the same; a null
  new id translates to null, so its host id is not found and stays used up.\<close>

lemma roll_back_allocator:
  assumes B: "bimap (bim env)" and g: "g \<noteq> mc_sender ctx"
    and o: "objects s = st_map (bim env) g (next_host_id t) child (t\<lparr>next_host_id := next_host_id t + 1\<rparr>)"
  shows "next_host_id (objects (roll_back_new_id env ClientToHost (Some g) (answer_stale_sender env ClientToHost ctx (Some g) s)))
      = next_host_id t + (if g = 0 \<and> next_host_id t \<noteq> 0 then 1 else 0)" (is "?A")
    and "g \<noteq> 0 \<Longrightarrow> host_id (bim env) (objects (roll_back_new_id env ClientToHost (Some g) (answer_stale_sender env ClientToHost ctx (Some g) s))) g
      = None" (is "_ \<Longrightarrow> ?B")
proof -
  let ?a = "answer_stale_sender env ClientToHost ctx (Some g) s"
  have a: "objects ?a = objects s \<or> objects ?a = remove_guest (bim env) (mc_sender ctx) (objects s)"
    by (auto simp: answer_stale_sender_def)
  have h: "host_id (bim env) (objects s) g = Some (next_host_id t)" if "g \<noteq> 0"
    unfolding o using that by (simp add: bimap.host_id_st_map [OF B])
  have ha: "host_id (bim env) (objects ?a) g = Some (next_host_id t)" if z: "g \<noteq> 0"
  proof (cases "mc_sender ctx = 0")
    case True
    have "host_id (bim env) (remove_guest (bim env) 0 (objects s)) g = host_id (bim env) (objects s) g"
      using z by (simp add: host_id_def bimap.left_remove [OF B] remove_guest_def is_current_generation_def)
    then show ?thesis using a h [OF z] True by auto
  next
    case False
    then show ?thesis using a h [OF z] g z by (auto simp: bimap.host_id_remove_guest [OF B])
  qed
  have na: "next_host_id (objects ?a) = next_host_id t + 1" using a o by auto
  show ?A
  proof (cases "g = 0")
    case True
    have "host_id (bim env) (objects ?a) 0 = Some 0" by (simp add: host_id_def)
    then show ?thesis using True na by (auto simp: roll_back_new_id_def Let_def unallocate_host_id_def)
  next
    case False
    then show ?thesis by (simp add: roll_back_new_id_def ha Let_def unallocate_host_id_def na)
  qed
  show ?B if "g \<noteq> 0" using that by (simp add: roll_back_new_id_def Let_def bimap.host_id_remove_guest [OF B])
qed

lemma apply_delete_id_next:
  "apply_delete_id env dir ctx msg s = (r, s') \<Longrightarrow> next_host_id (objects s') = next_host_id (objects s)"
  by (auto simp: apply_delete_id_def drop_known_def split: if_splits option.splits)

text \<open>The new object a request asks for with the null id.\<close>

definition null_new_id :: "endianness \<Rightarrow> signature_walk \<Rightarrow> byte list \<Rightarrow> bool" where
  "null_new_id en walk msg \<longleftrightarrow> (\<exists>n. new_id_offset walk = Some n \<and> word_at en msg (HEADER_LEN + n) = 0)"

lemma request_drop_keeps_allocator:
  assumes B: "bimap (bim env)" and r: "relay_message env ClientToHost h msg s = (Inl d, s')" "HEADER_LEN \<le> length msg"
    and ctx0: "resolve_context env ClientToHost (objects s) h = Some ctx0"
    and walk0: "walk_signature (endian env) (drop HEADER_LEN msg) (signature (mc_desc ctx0)) = Inr walk0"
    and ord: "\<not> is_message ctx0 ''wl_display'' ''delete_id''"
  shows "next_host_id (objects s') = next_host_id (objects s) +
    (if d = DroppedNoSender \<and> null_new_id (endian env) walk0 msg \<and> next_host_id (objects s) \<noteq> 0 then 1 else 0)"
  using r(1)
proof (rule relay_message_stop_cases)
  fix ctx and walk :: signature_walk and m1 nw m2 s2 m3 s3 m4 s4
  let ?os = "original_object_values (endian env) msg (object_offsets walk)"
  assume ctx: "resolve_context env ClientToHost (objects s) h = Some ctx"
    and walk: "walk_signature (endian env) (drop HEADER_LEN msg) (signature (mc_desc ctx)) = Inr walk"
    and tr: "translate_objects (endian env) (translate_id env ClientToHost (objects s)) (object_offsets walk) msg = Inr m1"
    and nid: "map_new_id env ClientToHost ctx walk ?os m1 s = (Inr (nw, m2), s2)"
    and del: "apply_delete_id env ClientToHost ctx m2 s2 = (Inr m3, s3)"
    and obs: "observe_message env ClientToHost ctx ?os nw m3 s3 = (Inr m4, s4)"
    and d: "d = DroppedNoSender"
    and lost: "other_side_sender env ClientToHost (objects s4) (mc_sender ctx) = None"
    and s': "s' = roll_back_new_id env ClientToHost nw (answer_stale_sender env ClientToHost ctx nw s4)"
  have e: "ctx = ctx0" "walk = walk0" using ctx walk ctx0 walk0 by auto
  have "apply_delete_id env ClientToHost ctx m2 s2 = (Inr m2, s2)"
    using ord e by (intro apply_delete_id_other) blast
  then have o4: "objects s4 = objects s2" using del keepsD [OF keeps_quiet_observe_client obs] by (simp add: quiet_def)
  note sp = walk_spaced [OF walk r(2)]
  have w: "words_translated (endian env) (translate_id env ClientToHost (objects s)) (object_offsets walk) msg m1"
    by (rule translate_objects_spec [OF tr sp(1)])
  from nid show ?thesis
  proof (rule map_new_idD)
    assume "nw = None" "s2 = s" "new_id_offset walk = None"
    then show ?thesis using o4 e by (auto simp: s' roll_back_new_id_def answer_stale_sender_def null_new_id_def)
  next
    fix off child v
    let ?g = "word_at (endian env) m1 (HEADER_LEN + off)"
    assume off: "new_id_offset walk = Some off" and nw: "nw = Some ?g"
      and o2: "objects s2 = st_map (bim env) ?g (next_host_id (objects s)) child
        ((objects s)\<lparr>next_host_id := next_host_id (objects s) + 1\<rparr>)"
    have g: "?g = word_at (endian env) msg (HEADER_LEN + off)"
      using word_at_translated [OF w] sp(2) [OF off] by blast
    have "?g \<noteq> mc_sender ctx"
    proof
      assume "?g = mc_sender ctx"
      then have "host_id (bim env) (objects s4) (mc_sender ctx) \<noteq> None"
        using o2 o4 by (cases "mc_sender ctx = 0") (simp_all add: bimap.host_id_st_map [OF B] host_id_zero)
      then show False using lost by (simp add: other_side_sender_def)
    qed
    from roll_back_allocator(1) [OF B this, of s4 "objects s" child] show ?thesis
      using o2 o4 g off e d by (simp add: s' nw null_new_id_def)
  qed simp
next
  fix ctx and walk :: signature_walk and m1 os
  assume "map_new_id env ClientToHost ctx walk os m1 s = (Inl d, s')"
  then show ?thesis by (auto dest!: map_new_id_stop)
qed (use ord ctx0 in \<open>auto simp: quiet_def\<close>)

lemma relayed_request_allocates:
  assumes "relay_message env ClientToHost h msg s = (Inr d, s')"
    and "resolve_context env ClientToHost (objects s) h = Some ctx"
    and "walk_signature (endian env) (drop HEADER_LEN msg) (signature (mc_desc ctx)) = Inr walk"
    and l: "HEADER_LEN \<le> length msg"
  shows "next_host_id (objects s') = next_host_id (objects s) + (if new_id_offset walk = None then 0 else 1)"
  using assms(1)
proof (rule relay_message_through)
  fix ctx' and walk' :: signature_walk and m1 nw m2 s2 m3 s3 m4 s4
  let ?os = "original_object_values (endian env) msg (object_offsets walk')"
  assume c: "resolve_context env ClientToHost (objects s) h = Some ctx'"
    "walk_signature (endian env) (drop HEADER_LEN msg) (signature (mc_desc ctx')) = Inr walk'"
    and tr: "translate_objects (endian env) (translate_id env ClientToHost (objects s)) (object_offsets walk') msg = Inr m1"
    and nid: "map_new_id env ClientToHost ctx' walk' ?os m1 s = (Inr (nw, m2), s2)"
    and del: "apply_delete_id env ClientToHost ctx' m2 s2 = (Inr m3, s3)"
    and obs: "observe_message env ClientToHost ctx' ?os nw m3 s3 = (Inr m4, s4)"
    and dlv: "deliver env ClientToHost ctx' walk' nw m4 s4 = (Inr d, s')"
  have w: "walk' = walk" using c assms(2,3) by simp
  have "next_host_id (objects s2) = next_host_id (objects s) + (if new_id_offset walk = None then 0 else 1)"
    using nid by (rule map_new_idD) (auto simp: w)
  moreover have "next_host_id (objects s4) = next_host_id (objects s2)"
    using apply_delete_id_next [OF del] keepsD [OF keeps_quiet_observe_client obs] by (simp add: quiet_def)
  moreover have "objects s' = objects s4"
    using dlv by (rule deliver_objects)
  ultimately show ?thesis by simp
qed

section \<open>Requests on a stale object\<close>

lemma relay_message_eq:
  assumes "resolve_context env dir (objects s) h = Some ctx"
    and "walk_signature (endian env) (drop HEADER_LEN msg) (signature (mc_desc ctx)) = Inr walk"
    and "translate_objects (endian env) (translate_id env dir (objects s)) (object_offsets walk) msg = Inr m1"
  shows "relay_message env dir h msg s =
    and_then (map_new_id env dir ctx walk (original_object_values (endian env) msg (object_offsets walk)) m1) (\<lambda>(new, msg1).
    and_then (apply_delete_id env dir ctx msg1) (\<lambda>msg2.
    and_then (observe_message env dir ctx (original_object_values (endian env) msg (object_offsets walk)) new msg2) (\<lambda>msg3.
    deliver env dir ctx walk new msg3))) s"
proof -
  have r: "resolve_message env dir h msg s = (Inr ctx, s)" using assms(1) by (simp add: resolve_message_def)
  have w: "walk_message env dir ctx msg = go walk" using assms(2) by (simp add: walk_message_def)
  have t: "translate_arguments env dir ctx walk msg s = (Inr m1, s)"
    using assms(3) by (simp add: translate_arguments_def)
  show ?thesis by (simp add: relay_message_def and_then_def go_def r w t Let_def)
qed

text \<open>A request without a new object whose sender the host does not know: it stops, and a destructor
  is answered and forgotten.\<close>

lemma stale_request:
  assumes c: "resolve_context env ClientToHost (objects s) h = Some ctx"
    and w: "walk_signature (endian env) (drop HEADER_LEN msg) (signature (mc_desc ctx)) = Inr walk"
    and t: "translate_objects (endian env) (translate_id env ClientToHost (objects s)) (object_offsets walk) msg = Inr m1"
    and n: "new_id_offset walk = None" and ord: "\<not> is_message ctx ''wl_display'' ''delete_id''"
    and stale: "host_id (bim env) (objects s) (mc_sender ctx) = None"
    and frame: "\<not> is_message ctx ''wl_surface'' ''frame''"
  obtains s4 where "quiet s s4" "relay_message env ClientToHost h msg s = (Inl DroppedNoSender,
      if is_destructor (mc_desc ctx) then s4\<lparr>src := synthesize_delete_id env (objects s) (mc_sender ctx) (src s),
         objects := remove_guest (bim env) (mc_sender ctx) (objects s), graph := remove_recipes (mc_sender ctx) (graph s4)\<rparr>
      else s4)"
proof -
  let ?os = "original_object_values (endian env) msg (object_offsets walk)"
  obtain r s4 where o: "observe_message env ClientToHost ctx ?os None m1 s = (r, s4)" by fastforce
  then have q: "quiet s s4" by (rule keepsD [OF keeps_quiet_observe_client])
  obtain m4 where r: "r = Inr m4" using o observe_message_stop [of env ClientToHost ctx ?os None m1 s] by (cases r) auto
  have "map_new_id env ClientToHost ctx walk ?os m1 = go (None, m1)" using n by (simp add: map_new_id_def)
  moreover have "readdress env ClientToHost ctx None m4 s4 =
    (Inl DroppedNoSender, roll_back_new_id env ClientToHost None (answer_stale_sender env ClientToHost ctx None s4))"
    using stale q by (simp add: readdress_def other_side_sender_def quiet_def)
  then have "deliver env ClientToHost ctx walk None m4 s4 =
    (Inl DroppedNoSender, roll_back_new_id env ClientToHost None (answer_stale_sender env ClientToHost ctx None s4))"
    by (simp add: deliver_def and_then_eq)
  ultimately have "relay_message env ClientToHost h msg s =
    (Inl DroppedNoSender, roll_back_new_id env ClientToHost None (answer_stale_sender env ClientToHost ctx None s4))"
    by (simp add: relay_message_eq [OF c w t] and_then_def go_def apply_delete_id_other [OF ord] o [unfolded r])
  then show thesis using q frame
    by (intro that [OF q]) (simp add: answer_stale_sender_def roll_back_new_id_def quiet_def)
qed

text \<open>A frame request on a stale surface: the callback is answered on the spot and forgotten, but the
  tracker of pending callbacks still lists it.\<close>

lemma stale_frame_request:
  assumes B: "bimap (bim env)"
    and c: "resolve_context env ClientToHost (objects s) h = Some ctx"
    and w: "walk_signature (endian env) (drop HEADER_LEN msg) (signature (mc_desc ctx)) = Inr walk"
    and n: "new_id_offset walk = Some off" "object_offsets walk = []"
    and ch: "resolve_child_interface (statics env) (mc_desc ctx) (dynamic_interface_name walk) = Some (child, v)"
    and m: "is_message ctx ''wl_surface'' ''frame''" "\<not> is_destructor (mc_desc ctx)"
    and stale: "host_id (bim env) (objects s) (mc_sender ctx) = None"
    and g: "g = word_at (endian env) msg (HEADER_LEN + off)" "g \<noteq> 0" "g \<noteq> mc_sender ctx"
  obtains s' where "relay_message env ClientToHost h msg s = (Inl DroppedNoSender, s')"
    "g \<in> set (awaiting_done (pending_frames s'))" "host_id (bim env) (objects s') g = None"
    "next_host_id (objects s') = next_host_id (objects s)"
    "src s' = synthesize_frame_done env (st_map (bim env) g (next_host_id (objects s)) child
       ((objects s)\<lparr>next_host_id := next_host_id (objects s) + 1\<rparr>)) g (src s)"
proof -
  let ?t = "(objects s)\<lparr>next_host_id := next_host_id (objects s) + 1\<rparr>"
  let ?t2 = "st_map (bim env) g (next_host_id (objects s)) child ?t"
  have tr: "translate_objects (endian env) (translate_id env ClientToHost (objects s)) (object_offsets walk) msg = Inr msg"
    using n by simp
  have nm: "i_name ctx = ''wl_surface''" "d_name ctx = ''frame''" using m by (simp_all add: is_message_def)
  obtain m2 s2 where nid: "map_new_id env ClientToHost ctx walk [] msg s = (Inr (Some g, m2), s2)"
    and s2: "objects s2 = ?t2" "src s2 = src s"
    using ch n by (auto simp: map_new_id_def new_id_pair_def allocate_host_id_def Let_def g(1))
  have obs: "observe_message env ClientToHost ctx [] (Some g) m2 s2 =
      (Inr m2, s2\<lparr>pending_frames := on_frame_requested g (pending_frames s2)\<rparr>)"
    by (simp add: observe_message_def and_then_def modify_def go_def observe_grabs_def maybe_reclaim_def
        observe_resize_def observe_toplevel_def observe_destination_def drop_stale_release_def observe_buffers_def
        observe_callbacks_def is_message_def nm Let_def)
  let ?s4 = "s2\<lparr>pending_frames := on_frame_requested g (pending_frames s2)\<rparr>"
  let ?a = "answer_stale_sender env ClientToHost ctx (Some g) ?s4"
  have st: "host_id (bim env) ?t2 (mc_sender ctx) = None"
  proof -
    have "mc_sender ctx \<noteq> 0" using stale by (auto simp: host_id_def)
    then show ?thesis
      using stale g by (simp add: bimap.host_id_st_map [OF B] bimap.host_id_cong [OF B])
  qed
  have del: "apply_delete_id env ClientToHost ctx m2 s2 = (Inr m2, s2)"
    by (simp add: apply_delete_id_def is_message_def nm)
  have "readdress env ClientToHost ctx (Some g) m2 ?s4 = (Inl DroppedNoSender, roll_back_new_id env ClientToHost (Some g) ?a)"
    using st s2 by (simp add: readdress_def other_side_sender_def)
  then have dlv: "deliver env ClientToHost ctx walk (Some g) m2 ?s4 =
    (Inl DroppedNoSender, roll_back_new_id env ClientToHost (Some g) ?a)"
    unfolding deliver_def by (rule and_then_eq)
  have "relay_message env ClientToHost h msg s = (Inl DroppedNoSender, roll_back_new_id env ClientToHost (Some g) ?a)"
    unfolding relay_message_eq [OF c w tr] n original_object_values_def list.map
    by (simp add: and_then_def nid del obs dlv)
  then show thesis
  proof (rule that)
    have a: "?a = ?s4\<lparr>src := synthesize_frame_done env ?t2 g (src s)\<rparr>"
      using m s2 by (simp add: answer_stale_sender_def)
    have o4: "objects ?s4 = st_map (bim env) g (next_host_id (objects s)) child
        ((objects s)\<lparr>next_host_id := next_host_id (objects s) + 1\<rparr>)" using s2 by simp
    note rb = roll_back_allocator [OF B g(3) o4]
    show "host_id (bim env) (objects (roll_back_new_id env ClientToHost (Some g) ?a)) g = None"
      "next_host_id (objects (roll_back_new_id env ClientToHost (Some g) ?a)) = next_host_id (objects s)"
      using rb g(2) by simp_all
    show "g \<in> set (awaiting_done (pending_frames (roll_back_new_id env ClientToHost (Some g) ?a)))"
      unfolding a by (simp add: roll_back_new_id_def Let_def on_frame_requested_def)
    show "src (roll_back_new_id env ClientToHost (Some g) ?a) = synthesize_frame_done env ?t2 g (src s)"
      unfolding a by simp
  qed
qed

section \<open>Deleted ids\<close>

lemma delete_id_event:
  assumes c: "resolve_context env HostToClient (objects s) h = Some ctx"
    and m: "is_message ctx ''wl_display'' ''delete_id''" "signature (mc_desc ctx) = [ATUint]"
    and l: "HEADER_LEN + 4 \<le> length msg"
    and g: "guest_id (bim env) (objects s) (word_at (endian env) msg HEADER_LEN) = Some g"
    and d: "dst s = Some c0"
  obtains s' msg' where "relay_message env HostToClient h msg s = (Inr Relayed, s')"
    "objects s' = remove_guest (bim env) g (objects s)" "graph s' = remove_recipes g (graph s)"
    "msg' = to_ne_bytes (endian env) (mc_sender ctx) @ take 4 (drop 4 msg) @ to_ne_bytes (endian env) g
       @ drop (HEADER_LEN + 4) msg"
    "dst s' = Some (snd (write_message msg' [] c0))"
proof -
  have nm: "i_name ctx = ''wl_display''" "d_name ctx = ''delete_id''" using m by (simp_all add: is_message_def)
  have "\<exists>r. advance (drop HEADER_LEN msg) 0 4 = Inr r" using l by (auto simp: advance_Inr)
  then have w: "walk_signature (endian env) (drop HEADER_LEN msg) (signature (mc_desc ctx)) = Inr walk_init"
    using m by (auto simp: walk_signature_def)
  let ?m3 = "overwrite msg HEADER_LEN (to_ne_bytes (endian env) g)"
  let ?s3 = "s\<lparr>objects := remove_guest (bim env) g (objects s), graph := remove_recipes g (graph s)\<rparr>"
  have "get_range msg HEADER_LEN (HEADER_LEN + 4) = Some (take 4 (drop HEADER_LEN msg))" using l by (simp add: get_range_def)
  then have del: "apply_delete_id env HostToClient ctx msg s = (Inr ?m3, ?s3)"
    using m g by (simp add: apply_delete_id_def word_at_def)
  have obs: "observe_message env HostToClient ctx [] None ?m3 ?s3 = (Inr ?m3, ?s3)"
    by (simp add: observe_message_def and_then_def modify_def go_def observe_grabs_def maybe_reclaim_def carries_serial_def
        observe_resize_def observe_toplevel_def observe_destination_def drop_stale_release_def observe_buffers_def
        observe_callbacks_def is_message_def nm Let_def)
  have wr: "write_sender_id (endian env) ?m3 (mc_sender ctx) = Inr (to_ne_bytes (endian env) (mc_sender ctx) @ drop 4 ?m3)"
    using l by (intro write_sender_id_ok) simp
  let ?m4 = "to_ne_bytes (endian env) (mc_sender ctx) @ drop 4 ?m3"
  have e4: "?m4 = to_ne_bytes (endian env) (mc_sender ctx) @ take 4 (drop 4 msg) @ to_ne_bytes (endian env) g
       @ drop (HEADER_LEN + 4) msg"
    using l by (simp add: overwrite_def HEADER_LEN_def drop_take add.commute)
  have s0: "s\<lparr>objects := o1, graph := g1, src := (src s)\<lparr>read_fds := read_fds (src s)\<rparr>\<rparr> =
     s\<lparr>objects := o1, graph := g1\<rparr>" for o1 g1 by simp
  have "map_new_id env HostToClient ctx walk_init [] msg = go (None, msg)" by (simp add: map_new_id_def walk_init_def)
  then have "\<exists>s'. relay_message env HostToClient h msg s = (Inr Relayed, s') \<and>
    objects s' = remove_guest (bim env) g (objects s) \<and> graph s' = remove_recipes g (graph s) \<and>
    dst s' = Some (snd (write_message ?m4 [] c0))"
    using del obs wr d
    by (simp add: relay_message_eq [OF c w] walk_init_def original_object_values_def and_then_eq deliver_def readdress_def
        other_side_sender_def take_fds_def and_then_def tee_clipboard_other is_message_def nm forward_goes_on modify_def
        retain_pool_fd_def retain_plane_fd_def go_def)
  then show thesis using that e4 by metis
qed

section \<open>The loop\<close>

inductive relays :: "'b env \<Rightarrow> direction \<Rightarrow> 'b relay_state \<Rightarrow> byte list list \<Rightarrow> 'b relay_state \<Rightarrow> bool" for env dir where
  relays_none: "relays env dir s [] s"
| relays_one: "process_message env dir msg s = (d, s1) \<Longrightarrow>
    take_message (endian env) (read_buf (src s)) = Some (msg, length msg) \<Longrightarrow>
    relays env dir (drain_input (length msg) s1) msgs s' \<Longrightarrow> relays env dir s (msg # msgs) s'"

lemma relay_loop_done: "relay_step env dir (relay_ready_messages env dir s) = None"
proof (induction env dir s rule: relay_ready_messages.induct)
  case (1 env dir s)
  show ?case
  proof (cases "relay_step env dir s")
    case None
    then show ?thesis by (subst relay_ready_messages.simps) simp
  next
    case (Some p)
    obtain d s1 where p: "p = (d, s1)" by fastforce
    have "relay_step env dir (relay_ready_messages env dir s1) = None" by (rule 1 [OF Some p [symmetric]])
    then show ?thesis by (subst relay_ready_messages.simps) (simp add: Some p)
  qed
qed

lemma relay_loop_relays:
  "\<exists>msgs. relays env dir s msgs (relay_ready_messages env dir s) \<and>
     read_buf (src s) = concat msgs @ read_buf (src (relay_ready_messages env dir s))"
proof (induction env dir s rule: relay_ready_messages.induct)
  case (1 env dir s)
  show ?case
  proof (cases "relay_step env dir s")
    case None
    then show ?thesis
      by (subst (1 2) relay_ready_messages.simps) (auto intro!: exI [of _ "[]"] relays_none)
  next
    case (Some p)
    obtain d s1 where p: "p = (d, s1)" by fastforce
    obtain msgs where IH: "relays env dir s1 msgs (relay_ready_messages env dir s1)"
      "read_buf (src s1) = concat msgs @ read_buf (src (relay_ready_messages env dir s1))"
      using 1 [OF Some p [symmetric]] by blast
    from Some p obtain m n sp where t: "take_message (endian env) (read_buf (src s)) = Some (m, n)"
      and pr: "process_message env dir (take n (read_buf (src s))) s = (d, sp)" and s1: "s1 = drain_input n sp"
      by (auto simp: relay_step_def split: option.splits prod.splits)
    have m: "m = take n (read_buf (src s))" "length m = n" using take_message_SomeD [OF t] by auto
    have "relay_ready_messages env dir s = relay_ready_messages env dir s1"
      by (subst relay_ready_messages.simps) (simp add: Some p)
    moreover have "relays env dir s (m # msgs) (relay_ready_messages env dir s1)"
      using pr t IH(1) m s1 by (intro relays_one [of _ _ m s d sp]) simp_all
    moreover have "read_buf (src s) = m @ read_buf (src s1)"
      using process_message_input [OF pr] by (simp add: s1 drain_input_def same_input_def m)
    ultimately show ?thesis using IH(2) by (intro exI [of _ "m # msgs"]) simp
  qed
qed

end
