(* ===== verification/SpliceFacts.thy ===== *)
theory SpliceFacts
  imports RecoveryFacts RelayShape
begin

text \<open>
  The clipboard splice and the events of the data source it creates: what goes to the host when
  it succeeds, that at most one attempt follows a reconnect, and what an intercepted event does.
  The last section follows input focus through the relay.
\<close>

section \<open>The splice\<close>

lemma send_src_willing:
  "willing (src s) \<Longrightarrow> send_src env sender opc payload s =
     (True, s\<lparr>src := post (without_fds [build_message (endian env) sender opc payload]) (src s)\<rparr>)"
  by (simp add: send_src_def write_message_post)

lemma create_on_host_willing:
  "willing (src s) \<Longrightarrow> create_on_host env sender opc payload s =
     (Some (next_host_id (objects s)),
      s\<lparr>objects := (objects s)\<lparr>next_host_id := next_host_id (objects s) + 1\<rparr>,
        src := post (without_fds [build_message (endian env) sender opc (payload (next_host_id (objects s)))]) (src s)\<rparr>)"
  by (simp add: create_on_host_def allocate_host_id_def send_src_willing)

lemma offer_mime_types_willing:
  "willing (src s) \<Longrightarrow> offer_mime_types env source mimes s =
     (True, s\<lparr>src := post (without_fds (map (\<lambda>m. build_message (endian env) source 0 (put_str (endian env) [] m)) mimes)) (src s)\<rparr>)"
proof (induction mimes arbitrary: s)
  case (Cons m ms)
  then show ?case by (simp add: send_src_willing)
qed simp

text \<open>The requests of a successful reclaim, for the first free host id.\<close>

definition splice_requests :: "endianness \<Rightarrow> string list \<Rightarrow> u32 \<times> u32 \<Rightarrow> u32 \<Rightarrow> u32 \<Rightarrow> u32 \<Rightarrow> u32 \<Rightarrow> byte list list" where
  "splice_requests en mimes ddm registry_host seat_host serial n =
    [build_message en registry_host 0 (bind_payload en (fst ddm) ''wl_data_device_manager'' (snd ddm) n),
     build_message en n 0 (put_u32 en [] (n + 1))] @
    map (\<lambda>m. build_message en (n + 1) 0 (put_str en [] m)) mimes @
    [build_message en n 1 (put_u32 en (put_u32 en [] (n + 2)) seat_host),
     build_message en (n + 2) 1 (put_u32 en (put_u32 en [] (n + 1)) serial)]"

lemma splice_messages_willing:
  assumes "willing (src s)"
  shows "splice_messages env mimes ddm rh sh serial s = s\<lparr>
     objects := (objects s)\<lparr>next_host_id := next_host_id (objects s) + 3\<rparr>,
     src := post (without_fds (splice_requests (endian env) mimes ddm rh sh serial (next_host_id (objects s)))) (src s),
     reclaim := (reclaim s)\<lparr>active_source_host_id := Some (next_host_id (objects s) + 1)\<rparr>\<rparr>"
  using assms
  by (simp add: splice_messages_def Let_def create_on_host_willing offer_mime_types_willing send_src_willing
      splice_requests_def add.commute add.left_commute)

lemma send_src_pending: "send_src env sender opc payload s = (ok, s') \<Longrightarrow> reclaim s' = reclaim s"
  by (auto simp: send_src_def split: prod.splits)

lemma create_on_host_pending: "create_on_host env sender opc payload s = (r, s') \<Longrightarrow> reclaim s' = reclaim s"
  by (auto simp: create_on_host_def split: prod.splits bool.splits dest!: send_src_pending)

lemma offer_mime_types_pending: "offer_mime_types env source mimes s = (ok, s') \<Longrightarrow> reclaim s' = reclaim s"
  by (induction mimes arbitrary: s) (auto split: prod.splits bool.splits dest!: send_src_pending)

lemma splice_messages_pending:
  "reclaim_pending (reclaim (splice_messages env mimes ddm rh sh serial s)) = reclaim_pending (reclaim s)"
  unfolding splice_messages_def Let_def
  by (auto split: prod.split option.split bool.split
      dest!: create_on_host_pending offer_mime_types_pending send_src_pending)

text \<open>One attempt per reconnect, whether or not it succeeds.\<close>

lemma splice_once: "\<not> reclaim_pending (reclaim (attempt_clipboard_splice env serial s))"
  by (simp add: attempt_clipboard_splice_def Let_def splice_messages_pending split: option.split)

text \<open>A failed bind leaves the allocator as it was.\<close>

lemma splice_bind_failure:
  assumes "send_script (src s) = SendError # rest"
  shows "objects (splice_messages env mimes ddm rh sh serial s) = objects s"
    and "sent_log (src (splice_messages env mimes ddm rh sh serial s)) = sent_log (src s)"
proof -
  have w: "write_message (build_message (endian env) a opc p) [] (src s) = (False, (src s)\<lparr>send_script := rest\<rparr>)" for a opc p
    using assms length_build_message [of "endian env" a opc p]
    by (simp add: write_message_def HEADER_LEN_def)
  show "objects (splice_messages env mimes ddm rh sh serial s) = objects s"
    "sent_log (src (splice_messages env mimes ddm rh sh serial s)) = sent_log (src s)"
    by (simp_all add: splice_messages_def Let_def create_on_host_def allocate_host_id_def send_src_def w
        unallocate_host_id_def)
qed

section \<open>Input focus through the relay\<close>

text \<open>The grab tracker is touched by nothing but its observer.\<close>

definition same_grabs :: "'b relay_state \<Rightarrow> 'b relay_state \<Rightarrow> bool" where
  "same_grabs s s' \<longleftrightarrow> grabs s' = grabs s"

interpretation same_grabs: framing "same_grabs :: 'b relay_state \<Rightarrow> _ \<Rightarrow> bool"
  by unfold_locales (simp_all add: same_grabs_def)

lemma only_writes_grabs: "only_writes s s' \<Longrightarrow> same_grabs s s'"
  by (auto simp: only_writes_def same_grabs_def)

lemma observer_grabs:
  "same_grabs s (observe_resize env dir ctx msg s)" "same_grabs s (observe_destination env dir ctx msg s)"
  "same_grabs s (observe_buffers dir ctx os s)" "same_grabs s (observe_callbacks dir ctx new s)"
  "same_grabs s (retain_pool_fd env dir ctx walk new msg fds s)" "same_grabs s (retain_plane_fd env dir ctx msg fds s)"
  unfolding same_grabs_def
  by (simp_all add: observe_resize_def observe_destination_def observe_buffers_def
      observe_callbacks_def retain_pool_fd_def retain_plane_fd_def Let_def split: option.split list.split prod.split)

lemma keeps_grabs:
  "keeps same_grabs (observe_toplevel env dir ctx msg)" "keeps same_grabs (drop_stale_release env dir ctx msg)"
  "keeps same_grabs (take_fds n)" "keeps same_grabs (tee_clipboard env dir ctx msg fds)"
  "keeps same_grabs (forward env dir ctx walk other msg fds)"
  by (auto intro!: keepsI simp: observe_toplevel_def drop_stale_release_def drop_known_def take_fds_def tee_clipboard_def
      forward_def same_grabs_def Let_def split: if_splits option.splits)

lemma keeps_grabs_deliver: "deliver env dir ctx walk new msg s = (Inr d, s') \<Longrightarrow> grabs s' = grabs s"
  unfolding deliver_def
  by (elim and_then_InrE)
    (auto split: prod.splits elim!: and_then_InrE simp: modify_def go_def readdress_def same_grabs_def
      observer_grabs(5,6) [unfolded same_grabs_def]
      dest!: keepsD [OF keeps_grabs(3)] keepsD [OF keeps_grabs(4)] keepsD [OF keeps_grabs(5)]
      split: option.splits sum.splits)

lemma observe_message_grabs:
  assumes "observe_message env dir ctx os new msg s = (Inr m, s')"
  shows "grabs s' = grabs (observe_grabs env dir ctx msg s)"
  using assms unfolding observe_message_def
  by (elim and_then_InrE)
    (auto simp: modify_def go_def observer_grabs [unfolded same_grabs_def] only_writes_grabs [OF maybe_reclaim_writes, unfolded same_grabs_def]
      dest!: keepsD [OF keeps_grabs(1), unfolded same_grabs_def] keepsD [OF keeps_grabs(2), unfolded same_grabs_def])

lemma word_at_drop: "word_at en (drop n msg) k = word_at en msg (n + k)"
  by (simp add: word_at_def add.commute)

text \<open>After a relayed \<open>enter\<close> event the tracker holds the client's own id of the surface.\<close>

lemma focus_follows:
  assumes r: "relay_message env HostToClient h msg s = (Inr d, s')" and l: "HEADER_LEN \<le> length msg"
    and c: "resolve_context env HostToClient (objects s) h = Some ctx"
    and w: "walk_signature (endian env) (drop HEADER_LEN msg) (signature (mc_desc ctx)) = Inr walk"
    and o1: "4 \<in> set (object_offsets walk)"
  obtains surface where "guest_id (bim env) (objects s) (word_at (endian env) msg 12) = Some surface"
    "is_message ctx ''wl_pointer'' ''enter'' \<longrightarrow> pointer_focus (grabs s') (mc_sender ctx) = Some surface"
    "is_message ctx ''wl_keyboard'' ''enter'' \<longrightarrow> keyboard_focus (grabs s') (mc_sender ctx) = Some surface"
  using r
proof (rule relay_message_through)
  fix ctx' and walk' :: signature_walk and m1 new m2 s2 m3 s3 m4 s4
  let ?os = "original_object_values (endian env) msg (object_offsets walk')"
  assume c': "resolve_context env HostToClient (objects s) h = Some ctx'"
    and w': "walk_signature (endian env) (drop HEADER_LEN msg) (signature (mc_desc ctx')) = Inr walk'"
    and tr: "translate_objects (endian env) (translate_id env HostToClient (objects s)) (object_offsets walk') msg = Inr m1"
    and nid: "map_new_id env HostToClient ctx' walk' ?os m1 s = (Inr (new, m2), s2)"
    and del: "apply_delete_id env HostToClient ctx' m2 s2 = (Inr m3, s3)"
    and obs: "observe_message env HostToClient ctx' ?os new m3 s3 = (Inr m4, s4)"
    and dlv: "deliver env HostToClient ctx' walk' new m4 s4 = (Inr d, s')"
  have e: "ctx' = ctx" "walk' = walk" using c c' w w' by auto
  note sp = walk_spaced [OF w l]
  have wt: "words_translated (endian env) (translate_id env HostToClient (objects s)) (object_offsets walk) msg m1"
    using translate_objects_spec [OF tr] sp(1) e by simp
  obtain surface where su: "guest_id (bim env) (objects s) (word_at (endian env) msg 12) = Some surface"
    and m1: "word_at (endian env) m1 12 = surface" and l1: "length m1 = length msg"
    using wt o1 by (fastforce simp: words_translated_def translate_id_def HEADER_LEN_def)
  have long: "16 \<le> length msg" using sp(1) o1 by (auto simp: spaced_def HEADER_LEN_def)
  have m2: "word_at (endian env) m2 12 = surface \<and> length m2 = length msg"
    using nid
  proof (rule map_new_idD)
    fix off child v
    assume "new_id_offset walk' = Some off"
      and m2: "m2 = overwrite m1 (HEADER_LEN + off) (to_ne_bytes (endian env) (next_guest_server_id (objects s)))"
    then have off: "HEADER_LEN + off + 4 \<le> length msg" "4 + 4 \<le> off \<or> off + 4 \<le> 4" using sp(2) o1 e by auto
    have "word_at (endian env) m2 12 = word_at (endian env) m1 12"
      unfolding m2 using off l1 long by (intro word_at_overwrite_other) (auto simp: HEADER_LEN_def)
    then show ?thesis using m1 off l1 by (simp add: m2)
  qed (use m1 l1 in simp_all)
  show thesis
  proof (rule that [OF su])
    have g2: "grabs s2 = grabs s"
      using nid e by (auto simp: map_new_id_def go_def drop_known_def Let_def new_id_pair_def allocate_guest_server_id_def
          split: option.splits prod.splits)
    have g': "grabs s' = grabs (observe_grabs env HostToClient ctx m3 s3)"
      using keeps_grabs_deliver [OF dlv] observe_message_grabs [OF obs] e by simp
    have m3: "m3 = m2 \<and> s3 = s2" if "i_name ctx = ''wl_pointer'' \<or> i_name ctx = ''wl_keyboard''"
      using del that e by (auto simp: apply_delete_id_def is_message_def)
    have wd: "word_at (endian env) (drop HEADER_LEN m2) 4 = surface" using m2 by (simp add: word_at_drop HEADER_LEN_def)
    have ln: "8 \<le> length (drop HEADER_LEN m2)" using m2 long by (simp add: HEADER_LEN_def)
    show "is_message ctx ''wl_pointer'' ''enter'' \<longrightarrow> pointer_focus (grabs s') (mc_sender ctx) = Some surface"
      using m3 wd ln by (auto simp: g' is_message_def observe_grabs_def Let_def)
    show "is_message ctx ''wl_keyboard'' ''enter'' \<longrightarrow> keyboard_focus (grabs s') (mc_sender ctx) = Some surface"
      using m3 wd ln by (auto simp: g' is_message_def observe_grabs_def Let_def)
  qed
qed

end
