(* ===== verification/Session.thy ===== *)
theory Session
  imports Recovery
begin

text \<open>
  \<open>run_connection\<close> of \<open>src/lib.rs\<close>: the \<open>select!\<close> loop over client data, host data (while not
  frozen) and a reconnect (while frozen). Each arm is a rule of the step relation \<open>session_step\<close>;
  the environment's moves (bytes arriving, a detached clipboard task finishing, another connection
  writing the shared clipboard cache) are rules too,
  so every interleaving of the arms with them is a path of the relation. A connection is
  running, closed, panicked inside recovery, or hung in recovery, waiting for a compositor that
  never answers.
\<close>

definition to_relay :: "'b proxy \<Rightarrow> conn \<Rightarrow> conn option \<Rightarrow> 'b relay_state" where
  "to_relay p s d = session.extend (session.truncate p) (relay_state.fields s d)"

definition from_relay :: "'b proxy \<Rightarrow> conn \<Rightarrow> conn \<Rightarrow> 'b relay_state \<Rightarrow> 'b proxy" where
  "from_relay p g h r = session.extend (session.truncate r) (proxy.fields g h (frozen p) (notifications p))"

definition relay_from_client :: "'b env \<Rightarrow> 'b proxy \<Rightarrow> 'b proxy" where
  "relay_from_client env p =
    (let r = relay_ready_messages env ClientToHost (to_relay p (gtk p) (if frozen p then None else Some (host p)))
     in from_relay p (src r) (case dst r of Some c \<Rightarrow> c | None \<Rightarrow> host p) r)"

definition relay_from_host :: "'b env \<Rightarrow> 'b proxy \<Rightarrow> 'b proxy" where
  "relay_from_host env p =
    (let r = relay_ready_messages env HostToClient (to_relay p (host p) (Some (gtk p)))
     in from_relay p (case dst r of Some c \<Rightarrow> c | None \<Rightarrow> gtk p) (src r) r)"

definition begin_recovery :: "'b env \<Rightarrow> conn \<Rightarrow> 'b proxy \<Rightarrow> 'b proxy" where
  "begin_recovery env new_host p =
     p\<lparr>host := new_host, objects := bump_generation (bim env) (statics env) (objects p)\<rparr>"

definition finish_recovery :: "'b env \<Rightarrow> 'b proxy \<Rightarrow> 'b proxy" where
  "finish_recovery env p =
    (let p = synthesize_grab_releases env p in p\<lparr>frozen := False, notifications := notifications p + 1\<rparr>)"

datatype 'b status = Running "'b proxy" | Closed "'b proxy" | Panicked "'b proxy" | Hung "'b proxy"

definition session_new :: "'b env \<Rightarrow> clipboard_cache \<Rightarrow> conn \<Rightarrow> conn \<Rightarrow> 'b proxy" where
  "session_new env shared g h = \<lparr>objects = st_new (bim env) (statics env), graph = graph_new, grabs = grabs_new,
     buffer_flow = buffer_flow_new, pending_frames = pending_frames_new, pending_dmabuf_planes = [],
     reclaim = reclaim_default, cache = shared, tasks = [], recorded = [],
     gtk = g, host = h, frozen = False, notifications = 0\<rparr>"

text \<open>The reconnect arm, whatever the recovery comes to.\<close>

definition reconnect :: "'b env \<Rightarrow> conn \<Rightarrow> 'b proxy \<Rightarrow> 'b status" where
  "reconnect env new_host p =
    (case recover_state_after_reconnect env (begin_recovery env new_host p) of
       (Inr _, p') \<Rightarrow> Running (finish_recovery env p')
     | (Inl RecoveryFailed, p') \<Rightarrow> Running p'
     | (Inl RecoveryPanicked, p') \<Rightarrow> Panicked p'
     | (Inl RecoveryWaiting, p') \<Rightarrow> Hung p')"

text \<open>A detached task of the clipboard leaves the list; a pump may have filled the shared cache.\<close>

definition finish_task :: "task \<Rightarrow> (pump_read \<times> bool) list \<Rightarrow> 'b proxy \<Rightarrow> 'b proxy" where
  "finish_task t script p =
     p\<lparr>tasks := remove1 t (tasks p),
       cache := (case t of TeePump _ _ mime \<Rightarrow> cache_after_pump mime (run_pump script) (cache p)
                         | WriteCached _ _ _ \<Rightarrow> cache p)\<rparr>"

datatype label = ClientData | ClientGone | HostData | HostLost | Reconnect | Arrival | CacheShared | TaskDone

inductive session_step :: "'b env \<Rightarrow> label \<Rightarrow> 'b status \<Rightarrow> 'b status \<Rightarrow> bool" for env :: "'b env" where
  client_data: "fill False (gtk p) = (FillRead n, c) \<Longrightarrow>
     session_step env ClientData (Running p) (Running (relay_from_client env (p\<lparr>gtk := c\<rparr>)))"
| client_eof: "fill False (gtk p) = (FillEof, c) \<Longrightarrow> session_step env ClientGone (Running p) (Closed (p\<lparr>gtk := c\<rparr>))"
| client_error: "fill False (gtk p) = (FillError, c) \<Longrightarrow> session_step env ClientGone (Running p) (Closed (p\<lparr>gtk := c\<rparr>))"
| host_data: "\<not> frozen p \<Longrightarrow> fill False (host p) = (FillRead n, c) \<Longrightarrow>
     session_step env HostData (Running p) (Running (relay_from_host env (p\<lparr>host := c\<rparr>)))"
| host_eof: "\<not> frozen p \<Longrightarrow> fill False (host p) = (FillEof, c) \<Longrightarrow>
     session_step env HostLost (Running p) (Running (p\<lparr>host := c, frozen := True\<rparr>))"
| host_error: "\<not> frozen p \<Longrightarrow> fill False (host p) = (FillError, c) \<Longrightarrow>
     session_step env HostLost (Running p) (Running (p\<lparr>host := c, frozen := True\<rparr>))"
| reconnected: "frozen p \<Longrightarrow> session_step env Reconnect (Running p) (reconnect env (conn_new rs ss) p)"
| client_arrival: "session_step env Arrival (Running p)
     (Running (p\<lparr>gtk := (gtk p)\<lparr>recv_script := recv_script (gtk p) @ rs\<rparr>\<rparr>))"
| host_arrival: "session_step env Arrival (Running p)
     (Running (p\<lparr>host := (host p)\<lparr>recv_script := recv_script (host p) @ rs\<rparr>\<rparr>))"
| cache_shared: "session_step env CacheShared (Running p) (Running (p\<lparr>cache := c\<rparr>))"
| task_done: "t \<in> set (tasks p) \<Longrightarrow> session_step env TaskDone (Running p) (Running (finish_task t script p))"

inductive_cases session_step_RunningE: "session_step env l (Running p) s'"

inductive_simps session_step_stopped [simp]:
  "session_step env l (Closed p) s'" "session_step env l (Panicked p) s'" "session_step env l (Hung p) s'"

text \<open>Reachable states, with the number of reconnects on the way.\<close>

inductive reachable :: "'b env \<Rightarrow> nat \<Rightarrow> 'b status \<Rightarrow> bool" for env :: "'b env" where
  start: "reachable env 0 (Running (session_new env shared (conn_new rs ss) (conn_new rs' ss')))"
| move: "reachable env n s \<Longrightarrow> session_step env l s s' \<Longrightarrow>
     reachable env (if l = Reconnect then Suc n else n) s'"

section \<open>Waiting for the compositor\<close>

text \<open>\<open>reconnect_with_backoff\<close> over the answers of successive \<open>connect\<close> calls; \<open>slept\<close> is the time slept
  so far, in milliseconds. It has no limit: it may wait for ever, which is the value \<^const>\<open>None\<close>. The rule
  \<open>reconnected\<close> above is the moment it returns.\<close>

partial_function (option) reconnect_with_backoff :: "(nat \<Rightarrow> 'c option) \<Rightarrow> nat \<Rightarrow> nat \<Rightarrow> ('c \<times> nat) option" where
  "reconnect_with_backoff attempts k slept =
    (case attempts k of
       Some stream \<Rightarrow> Some (stream, slept)
     | None \<Rightarrow> reconnect_with_backoff attempts (Suc k) (slept + 250))"

lemma backoff_returns:
  "attempts (k + n) = Some c \<Longrightarrow> \<forall>i<n. attempts (k + i) = None \<Longrightarrow>
   reconnect_with_backoff attempts k slept = Some (c, slept + 250 * n)"
proof (induction n arbitrary: k slept)
  case 0
  then show ?case by (subst reconnect_with_backoff.simps) simp
next
  case (Suc n)
  have "attempts k = None" using Suc.prems(2) by (metis add.right_neutral zero_less_Suc)
  moreover have "reconnect_with_backoff attempts (Suc k) (slept + 250) = Some (c, slept + 250 + 250 * n)"
    using Suc.prems by (intro Suc.IH) (auto dest: spec [of _ "Suc _"])
  ultimately show ?case by (subst reconnect_with_backoff.simps) simp
qed

text \<open>It returns exactly when some attempt succeeds, with the stream of the first that does.\<close>

lemma backoff_ends_iff:
  "(\<exists>r. reconnect_with_backoff attempts k slept = Some r) \<longleftrightarrow> (\<exists>n. attempts (k + n) \<noteq> None)"
proof
  let ?P = "\<lambda>attempts k (slept :: nat) (r :: 'c \<times> nat). \<exists>n. attempts (k + n) \<noteq> None"
  assume "\<exists>r. reconnect_with_backoff attempts k slept = Some r"
  then obtain r where r: "reconnect_with_backoff attempts k slept = Some r" ..
  show "?P attempts k slept r"
  proof (rule reconnect_with_backoff.raw_induct [where P = ?P, OF _ r])
    fix loop :: "(nat \<Rightarrow> 'c option) \<Rightarrow> nat \<Rightarrow> nat \<Rightarrow> ('c \<times> nat) option" and attempts k slept r
    assume IH: "\<And>attempts k slept r. loop attempts k slept = Some r \<Longrightarrow> ?P attempts k slept r"
      and r: "(case attempts k of None \<Rightarrow> loop attempts (Suc k) (slept + 250) | Some c \<Rightarrow> Some (c, slept)) = Some r"
    show "?P attempts k slept r"
    proof (cases "attempts k")
      case None
      then obtain n where "attempts (Suc k + n) \<noteq> None" using IH r by fastforce
      then show ?thesis by (intro exI [of _ "Suc n"]) simp
    next
      case (Some c)
      then show ?thesis by (intro exI [of _ 0]) simp
    qed
  qed
next
  assume ex: "\<exists>n. attempts (k + n) \<noteq> None"
  define n where "n = (LEAST n. attempts (k + n) \<noteq> None)"
  have "attempts (k + n) \<noteq> None" using ex unfolding n_def by (rule LeastI_ex)
  then obtain c where c: "attempts (k + n) = Some c" by blast
  have "\<forall>i<n. attempts (k + i) = None" using not_less_Least unfolding n_def by blast
  from backoff_returns [OF c this] show "\<exists>r. reconnect_with_backoff attempts k slept = Some r" by (rule exI)
qed

end
