(* ===== verification/Rebuild.thy ===== *)
theory Rebuild
  imports RecoveryFacts Session
begin

text \<open>
  Recovery is complete: on a compositor that takes every request, every recipe whose interfaces
  still offer the request it needs and whose parents live again makes its object live again, under the
  id the client knows, and nothing else does.
  The proof has the shape of a progress proof over a typed world: \<open>rebuildable\<close> is the typing of
  a recipe, \<open>rebuilding\<close> the invariant of a state under recovery. When parents come first
  (\<open>parents_first\<close> of \<open>Recreation\<close>) every recorded id is restored.
\<close>

section \<open>Recipes a world can satisfy\<close>

text \<open>Argument types up to nullability.\<close>

fun erase :: "argument_type \<Rightarrow> argument_type" where
  "erase (ATStr _) = ATStr AllowNullNo"
| "erase (ATObject _) = ATObject AllowNullNo"
| "erase t = t"

definition takes_args :: "message_desc \<Rightarrow> argument_type list \<Rightarrow> bool" where
  "takes_args desc tys \<longleftrightarrow> map erase (signature desc) = map erase tys"

text \<open>\<open>iface\<close> has the request \<open>name\<close> with these arguments, and it creates an object of interface \<open>child\<close>.\<close>

definition offers :: "interface \<Rightarrow> string \<Rightarrow> argument_type list \<Rightarrow> interface \<Rightarrow> bool" where
  "offers iface name tys child \<longleftrightarrow> (\<exists>opc. request_opcode iface name = Some opc \<and>
     takes_args (requests iface ! unat opc) tys \<and> child_interface (requests iface ! unat opc) = Some child)"

type_synonym world = "u32 \<Rightarrow> interface option"

definition makes :: "world \<Rightarrow> u32 \<Rightarrow> string \<Rightarrow> argument_type list \<Rightarrow> u32 \<Rightarrow> bool" where
  "makes T parent name tys g \<longleftrightarrow> (\<exists>pi child. T parent = Some pi \<and> T g = Some child \<and> offers pi name tys child)"

fun rebuildable :: "world \<Rightarrow> (string, u32 \<times> u32) hash_map \<Rightarrow> interface \<Rightarrow> u32 \<Rightarrow> recreatable \<Rightarrow> bool" where
  "rebuildable T globals ri g (RGlobal iface _) \<longleftrightarrow> T g = Some iface \<and> if_name iface \<in> set recreatable_globals \<and>
     hm_get globals (if_name iface) \<noteq> None \<and>
     (\<exists>bind rest. requests ri = bind # rest \<and> takes_args bind [ATUint, ATStr AllowNullNo, ATUint, ATNewId])"
| "rebuildable T globals ri g (RSurface p) \<longleftrightarrow> makes T p ''create_surface'' [ATNewId] g"
| "rebuildable T globals ri g (RXdgSurface p _) \<longleftrightarrow> makes T p ''get_xdg_surface'' [ATNewId, ATObject AllowNullNo] g"
| "rebuildable T globals ri g (RXdgToplevel p _ _) \<longleftrightarrow> makes T p ''get_toplevel'' [ATNewId] g"
| "rebuildable T globals ri g (RShmPool p _ _) \<longleftrightarrow> makes T p ''create_pool'' [ATNewId, ATFd, ATInt] g"
| "rebuildable T globals ri g (RShmBuffer p _ _ _ _ _) \<longleftrightarrow>
     makes T p ''create_buffer'' [ATNewId, ATInt, ATInt, ATInt, ATInt, ATUint] g"
| "rebuildable T globals ri g (RDmabufBuffer p _ _ _ _ _) \<longleftrightarrow> (\<exists>di params buffer opc. T p = Some di \<and> T g = Some buffer \<and>
     offers di ''create_params'' [ATNewId] params \<and> request_opcode params ''add'' = Some opc \<and>
     takes_args (requests params ! unat opc) [ATFd, ATUint, ATUint, ATUint, ATUint, ATUint] \<and>
     offers params ''create_immed'' [ATNewId, ATInt, ATInt, ATUint, ATUint] buffer)"
| "rebuildable T globals ri g (RSeatDevice p kind) \<longleftrightarrow> makes T p (request_name kind) [ATNewId] g"
| "rebuildable T globals ri g (RViewport p _ _) \<longleftrightarrow> makes T p ''get_viewport'' [ATNewId, ATObject AllowNullNo] g"
| "rebuildable T globals ri g (RFractionalScale p _) \<longleftrightarrow> makes T p ''get_fractional_scale'' [ATNewId, ATObject AllowNullNo] g"

text \<open>The number of host ids a recipe uses.\<close>

fun host_ids :: "recreatable \<Rightarrow> nat" where
  "host_ids (RDmabufBuffer _ _ _ _ _ _) = 2"
| "host_ids _ = 1"

lemma erase_eq [simp]:
  "erase t = ATInt \<longleftrightarrow> t = ATInt" "erase t = ATUint \<longleftrightarrow> t = ATUint" "erase t = ATNewId \<longleftrightarrow> t = ATNewId"
  "erase t = ATFd \<longleftrightarrow> t = ATFd" "erase t = ATStr AllowNullNo \<longleftrightarrow> (\<exists>a. t = ATStr a)"
  "erase t = ATObject AllowNullNo \<longleftrightarrow> (\<exists>a. t = ATObject a)"
  by (cases t; simp)+

text \<open>Values of the right kinds are encoded.\<close>

fun type_of :: "wayland_value \<Rightarrow> argument_type" where
  "type_of (VInt _) = ATInt"
| "type_of (VUint _) = ATUint"
| "type_of (VFixed _) = ATFixed"
| "type_of (VString _) = ATStr AllowNullNo"
| "type_of (VObject _) = ATObject AllowNullNo"
| "type_of (VNewId _) = ATNewId"
| "type_of (VArray _) = ATArray"
| "type_of (VFd _) = ATFd"

lemma value_matches_iff: "value_matches t v \<longleftrightarrow> erase t = type_of v"
  by (cases t; cases v) simp_all

lemma takes_args_encodes:
  assumes "takes_args desc (map type_of vs)"
  obtains payload fds where "encode_arguments en (signature desc) vs = Inr (payload, fds)"
proof -
  have "list_all2 (\<lambda>t v. erase t = erase (type_of v)) (signature desc) vs"
    using assms by (simp add: takes_args_def list_all2_map1 list_all2_map2 list.rel_eq [symmetric] comp_def)
  moreover have "erase (type_of v) = type_of v" for v by (cases v) simp_all
  moreover have "value_matches = (\<lambda>t v. erase t = type_of v)" by (simp add: fun_eq_iff value_matches_iff)
  ultimately have "list_all2 value_matches (signature desc) vs" by simp
  then show thesis using that by (simp add: encode_arguments_Inr_iff)
qed

section \<open>The state under recovery\<close>

definition alive :: "'b env \<Rightarrow> 'b proxy \<Rightarrow> u32 \<Rightarrow> bool" where
  "alive env s g \<longleftrightarrow> host_id (bim env) (objects s) g \<noteq> None"

text \<open>The host takes everything, interfaces are those of the world, and every host id in use is below
  the next one.\<close>

definition rebuilding :: "'b env \<Rightarrow> world \<Rightarrow> 'b proxy \<Rightarrow> bool" where
  "rebuilding env T s \<longleftrightarrow> willing (host s) \<and> (\<forall>g. st_interface (objects s) g = T g) \<and>
     (\<forall>g h. g \<noteq> 0 \<longrightarrow> host_id (bim env) (objects s) g = Some h \<longrightarrow> unat h < unat (next_host_id (objects s)))"

text \<open>From one state to a later one: what was alive stays alive, the ids \<open>K\<close> come to life and nothing else, and at
  most \<open>n\<close> host ids were used.\<close>

definition rebuilt :: "'b env \<Rightarrow> world \<Rightarrow> nat \<Rightarrow> u32 set \<Rightarrow> 'b proxy \<Rightarrow> 'b proxy \<Rightarrow> bool" where
  "rebuilt env T n K s s' \<longleftrightarrow> rebuilding env T s' \<and> (\<forall>g. alive env s' g \<longleftrightarrow> alive env s g \<or> g \<in> K) \<and>
     unat (next_host_id (objects s')) \<le> unat (next_host_id (objects s)) + n \<and> graph s' = graph s"

lemma rebuilt_refl: "rebuilding env T s \<Longrightarrow> rebuilt env T 0 {} s s"
  by (simp add: rebuilt_def)

lemma rebuilt_trans:
  "rebuilt env T n K s s1 \<Longrightarrow> rebuilt env T m L s1 s2 \<Longrightarrow> rebuilt env T (n + m) (K \<union> L) s s2"
  by (auto simp: rebuilt_def)

text \<open>Steps that leave the table alone.\<close>

definition untouched :: "'b proxy \<Rightarrow> 'b proxy \<Rightarrow> bool" where
  "untouched s s' \<longleftrightarrow> objects s' = objects s \<and> graph s' = graph s \<and> (willing (host s) \<longrightarrow> willing (host s'))"

lemma write_message_stays_willing: "willing c \<Longrightarrow> willing (snd (write_message msg fds c))"
  by (cases "msg = []") (simp_all add: write_message_post, simp add: write_message_def willing_def)

interpretation untouched: host_frame "untouched :: 'b proxy \<Rightarrow> _ \<Rightarrow> bool"
  by unfold_locales (auto simp: untouched_def write_message_stays_willing, auto simp: willing_def)

lemma untouched_rebuilt: "rebuilding env T s \<Longrightarrow> untouched s s' \<Longrightarrow> rebuilt env T 0 {} s s'"
  by (auto simp: untouched_def rebuilt_def rebuilding_def alive_def)

lemma untouched_after: "rebuilt env T n K s s1 \<Longrightarrow> untouched s1 s2 \<Longrightarrow> rebuilt env T n K s s2"
  using rebuilt_trans [OF _ untouched_rebuilt, of env T n K s s1 s2] by (auto simp: rebuilt_def)

section \<open>One recipe\<close>

text \<open>Room for \<open>n\<close> more host ids.\<close>

definition room :: "'b proxy \<Rightarrow> nat \<Rightarrow> bool" where
  "room s n \<longleftrightarrow> unat (next_host_id (objects s)) + n < 2 ^ 32"

lemma room_next: "room s (Suc n) \<Longrightarrow> unat (next_host_id (objects s) + 1) = Suc (unat (next_host_id (objects s)))"
  unfolding room_def by (subst unat_plus_if') auto

lemma room_less: "room s n \<Longrightarrow> m \<le> n \<Longrightarrow> room s m"
  by (simp add: room_def)

lemma room_rebuilt: "rebuilt env T n K s s' \<Longrightarrow> room s (n + m) \<Longrightarrow> room s' m"
  by (simp add: room_def rebuilt_def)

lemma allocate_rebuilt:
  assumes "rebuilding env T s" "room s 1" "bimap (bim env)"
  shows "rebuilt env T 1 {} s (s\<lparr>objects := (objects s)\<lparr>next_host_id := next_host_id (objects s) + 1\<rparr>, host := post ms (host s)\<rparr>)"
  using assms(1) room_next [of s 0] assms(2) bimap.host_id_cong(1) [OF assms(3)]
  by (auto simp: rebuilt_def rebuilding_def alive_def st_interface_def less_Suc_eq)

lemma map_rebuilt:
  assumes "rebuilding env T s" "room s 1" "bimap (bim env)" "g \<noteq> 0" "T g = Some child"
  shows "rebuilt env T 1 {g} s (s\<lparr>objects := st_map (bim env) g (next_host_id (objects s)) child
      ((objects s)\<lparr>next_host_id := next_host_id (objects s) + 1\<rparr>), host := post ms (host s)\<rparr>)"
proof -
  let ?n = "next_host_id (objects s)"
  let ?t = "st_map (bim env) g ?n child ((objects s)\<lparr>next_host_id := ?n + 1\<rparr>)"
  have nx: "unat (?n + 1) = Suc (unat ?n)" using assms(2) room_next [of s 0] by simp
  have below: "unat h < unat ?n" if "g' \<noteq> 0" "host_id (bim env) (objects s) g' = Some h" for g' h
    using assms(1) that by (simp add: rebuilding_def)
  have hid: "host_id (bim env) ?t g' = (if g' = 0 then Some 0 else if g' = g then Some ?n else host_id (bim env) (objects s) g')" for g'
    using below [of g' ?n] by (auto simp: bimap.host_id_st_map [OF assms(3,4)] bimap.host_id_cong [OF assms(3)])
  show ?thesis
    using assms(1,5) below
    by (auto simp: rebuilt_def rebuilding_def alive_def hid nx less_Suc_eq st_interface_def hm_get_insert split: if_splits)
qed

lemma offers_creates:
  assumes "offers pi name tys child" "tys = map type_of (vs (next_host_id (objects s)))" "willing (host s)"
  obtains ms where "replay_create env pi ph name vs s = (Inr (Some (child, next_host_id (objects s))),
    s\<lparr>objects := (objects s)\<lparr>next_host_id := next_host_id (objects s) + 1\<rparr>, host := post ms (host s)\<rparr>)"
proof -
  from assms(1) obtain opc where o1: "request_opcode pi name = Some opc"
    "takes_args (requests pi ! unat opc) tys" "child_interface (requests pi ! unat opc) = Some child"
    by (auto simp: offers_def)
  obtain payload fds where "encode_arguments (endian env) (signature (requests pi ! unat opc)) (vs (next_host_id (objects s))) = Inr (payload, fds)"
    using takes_args_encodes o1(2) assms(2) by blast
  then show thesis using o1 assms(3)
    by (intro that [of "[(build_message (endian env) ph opc payload, fds)]"])
      (simp add: replay_create_def Let_def and_then_def fresh_host_id_def allocate_host_id_def send_request_willing go_def)
qed

text \<open>A child whose parent is alive is made, and alive.\<close>

lemma child_rebuilt:
  assumes "rebuilding env T s" "room s 1" "bimap (bim env)" "g \<noteq> 0" "makes T parent name tys g" "alive env s parent"
    and "vs s = Some v" "\<And>h. tys = map type_of (v h)"
  obtains child h s' where "replay_child env g parent name vs s = (Inr (Some (child, h)), s')" "rebuilt env T 1 {g} s s'"
proof -
  from assms(5) obtain pi child where m: "T parent = Some pi" "T g = Some child" "offers pi name tys child"
    by (auto simp: makes_def)
  obtain ph where ph: "host_id (bim env) (objects s) parent = Some ph" using assms(6) by (auto simp: alive_def)
  have l: "live env parent s = Some (pi, ph)" using assms(1) m(1) ph by (simp add: live_def rebuilding_def)
  have w: "willing (host s)" using assms(1) by (simp add: rebuilding_def)
  obtain ms where "replay_create env pi ph name v s = (Inr (Some (child, next_host_id (objects s))),
    s\<lparr>objects := (objects s)\<lparr>next_host_id := next_host_id (objects s) + 1\<rparr>, host := post ms (host s)\<rparr>)"
    using offers_creates [of pi name tys child v s env ph] m(3) assms(8) w by blast
  then have "replay_child env g parent name vs s = (Inr (Some (child, next_host_id (objects s))),
    s\<lparr>objects := st_map (bim env) g (next_host_id (objects s)) child
      ((objects s)\<lparr>next_host_id := next_host_id (objects s) + 1\<rparr>), host := post ms (host s)\<rparr>)"
    using l assms(7) by (simp add: replay_child_def and_then_def map_object_def modify_def go_def)
  then show thesis by (rule that) (rule map_rebuilt [OF assms(1-4) m(2)])
qed

text \<open>Setters, commits and the handshake never stop a recovery, and leave the table alone.\<close>

lemma send_request_goes: obtains ok s' where "send_request env sender opc desc vs s = (Inr ok, s')" "untouched s s'"
proof -
  have "\<exists>ok s'. send_request env sender opc desc vs s = (Inr ok, s')"
    by (auto simp: send_request_def write_host_def go_def split: sum.split prod.split)
  then show thesis using that keepsD [OF untouched.keeps_send_request] by blast
qed

lemma replay_setter_goes: obtains s' where "replay_setter env iface h name vs s = (Inr (), s')" "untouched s s'"
proof -
  have "\<exists>s'. replay_setter env iface h name vs s = (Inr (), s')"
  proof (cases "request_opcode iface name")
    case (Some opc)
    obtain ok s1 where "send_request env h opc (requests iface ! unat opc) vs s = (Inr ok, s1)" by (rule send_request_goes)
    then show ?thesis using Some by (simp add: replay_setter_def and_then_def go_def)
  qed (simp add: replay_setter_def go_def)
  then show thesis using that keepsD [OF untouched.keeps_replay_setter] by blast
qed

lemma optional_setter_goes:
  obtains s' where "(case v of None \<Rightarrow> go () | Some x \<Rightarrow> replay_setter env iface h name [VString x]) s = (Inr (), s')" "untouched s s'"
proof (cases v)
  case None
  then show thesis using that [of s] by (simp add: go_def untouched.stay)
next
  case (Some x)
  then show thesis using that replay_setter_goes [of env iface h name "[VString x]" s] by auto
qed

lemma force_commit_goes: obtains ok s' where "force_commit env g p s = (Inr ok, s')" "untouched s s'"
proof -
  have "\<exists>ok s'. force_commit env g p s = (Inr ok, s')"
    by (auto simp: force_commit_def write_host_def split: option.split recreatable.split prod.split)
  then show thesis using that keepsD [OF untouched.keeps_force_commit] by blast
qed

lemma handshake_goes: obtains s' where "configure_handshake env g h child p pi ph s = (Inr (), s')" "untouched s s'"
proof -
  have "\<exists>s'. configure_handshake env g h child p pi ph s = (Inr (), s')"
    by (auto simp: configure_handshake_def split: prod.split wait_result.split)
  then show thesis using that keepsD [OF untouched.keeps_handshake] by blast
qed

lemma toplevel_rebuilt:
  assumes "rebuilding env T s" "room s 1" "bimap (bim env)" "g \<noteq> 0" "makes T parent ''get_toplevel'' [ATNewId] g" "alive env s parent"
  obtains s' where "replay_toplevel env g parent title app s = (Inr (), s')" "rebuilt env T 1 {g} s s'"
proof -
  obtain pi ph where l: "live env parent s = Some (pi, ph)"
    using assms(1,5,6) by (auto simp: live_def rebuilding_def alive_def makes_def)
  obtain child h s1 where s1: "replay_child env g parent ''get_toplevel'' (\<lambda>_. Some (\<lambda>h. [VNewId h])) s = (Inr (Some (child, h)), s1)"
    "rebuilt env T 1 {g} s s1"
    using assms by (rule child_rebuilt [where vs = "\<lambda>_. Some (\<lambda>h. [VNewId h])"]) auto
  obtain s2 where s2: "(case title of None \<Rightarrow> go () | Some t \<Rightarrow> replay_setter env child h ''set_title'' [VString t]) s1 = (Inr (), s2)"
    "untouched s1 s2" by (rule optional_setter_goes)
  obtain s3 where s3: "(case app of None \<Rightarrow> go () | Some a \<Rightarrow> replay_setter env child h ''set_app_id'' [VString a]) s2 = (Inr (), s3)"
    "untouched s2 s3" by (rule optional_setter_goes)
  obtain sent s4 where s4: "force_commit env g parent s3 = (Inr sent, s4)" "untouched s3 s4" by (rule force_commit_goes)
  obtain s5 where s5: "configure_handshake env g h child parent pi ph s4 = (Inr (), s5)" "untouched s4 s5" by (rule handshake_goes)
  have "replay_toplevel env g parent title app s = (Inr (), if sent then s5 else s4)"
    using l s1(1) s2(1) s3(1) s4(1) s5(1) by (simp add: replay_toplevel_def and_then_def go_def)
  moreover have "untouched s1 (if sent then s5 else s4)"
    using s2(2) s3(2) s4(2) s5(2) untouched.trans by (metis (full_types))
  ultimately show thesis using that untouched_after [OF s1(2)] by blast
qed

lemma add_planes_goes:
  assumes "takes_args desc [ATFd, ATUint, ATUint, ATUint, ATUint, ATUint]" "willing (host s)"
  obtains s' where "add_planes env ph opc desc planes s = (Inr True, s')" "untouched s s'"
proof -
  have "\<exists>s'. add_planes env ph opc desc planes s = (Inr True, s')"
    using assms(2)
  proof (induction planes arbitrary: s)
    case (Cons pl planes)
    obtain payload fds where "encode_arguments (endian env) (signature desc) (plane_values pl) = Inr (payload, fds)"
      using takes_args_encodes [of desc "plane_values pl"] assms(1) by (auto simp: plane_values_def)
    with Cons show ?case by (simp add: and_then_def send_request_willing)
  qed (simp add: go_def)
  then show thesis using that keepsD [OF untouched.keeps_add_planes] by blast
qed

lemma dmabuf_rebuilt:
  assumes "rebuilding env T s" "room s 2" "bimap (bim env)" "g \<noteq> 0" "alive env s p"
    and "rebuildable T globals ri g (RDmabufBuffer p w h f fl planes)"
  obtains s' where "replay_dmabuf env g p w h f fl planes s = (Inr (), s')" "rebuilt env T 2 {g} s s'"
proof -
  from assms(6) obtain di params buffer opc where m: "T p = Some di" "T g = Some buffer"
    "offers di ''create_params'' [ATNewId] params" "request_opcode params ''add'' = Some opc"
    "takes_args (requests params ! unat opc) [ATFd, ATUint, ATUint, ATUint, ATUint, ATUint]"
    "offers params ''create_immed'' [ATNewId, ATInt, ATInt, ATUint, ATUint] buffer" by auto
  obtain dh where l: "live env p s = Some (di, dh)"
    using assms(1,5) m(1) by (auto simp: live_def rebuilding_def alive_def)
  have w0: "willing (host s)" using assms(1) by (simp add: rebuilding_def)
  obtain ms where c1: "replay_create env di dh ''create_params'' (\<lambda>h. [VNewId h]) s = (Inr (Some (params, next_host_id (objects s))),
      s\<lparr>objects := (objects s)\<lparr>next_host_id := next_host_id (objects s) + 1\<rparr>, host := post ms (host s)\<rparr>)" (is "_ = (_, ?s1)")
    by (rule offers_creates [OF m(3) _ w0]) auto
  have r1: "rebuilt env T 1 {} s ?s1" using allocate_rebuilt assms(1,3) room_less [OF assms(2)] by fastforce
  obtain s2 where s2: "add_planes env (next_host_id (objects s)) opc (requests params ! unat opc) planes ?s1 = (Inr True, s2)"
    "untouched ?s1 s2"
    by (rule add_planes_goes [OF m(5), of ?s1]) (use w0 in simp)
  have r2: "rebuilt env T 1 {} s s2" by (rule untouched_after [OF r1 s2(2)])
  then have j2: "rebuilding env T s2" by (simp add: rebuilt_def)
  have rm: "room s2 1" using room_rebuilt [OF r2, of 1] assms(2) by (simp add: numeral_2_eq_2)
  obtain ms2 where c2: "replay_create env params (next_host_id (objects s)) ''create_immed''
        (\<lambda>h1. [VNewId h1, VInt w, VInt h, VUint f, VUint fl]) s2 = (Inr (Some (buffer, next_host_id (objects s2))),
      s2\<lparr>objects := (objects s2)\<lparr>next_host_id := next_host_id (objects s2) + 1\<rparr>, host := post ms2 (host s2)\<rparr>)"
    by (rule offers_creates [OF m(6)]) (use j2 in \<open>auto simp: rebuilding_def\<close>)
  have "replay_dmabuf env g p w h f fl planes s = (Inr (), s2\<lparr>objects := st_map (bim env) g (next_host_id (objects s2)) buffer
      ((objects s2)\<lparr>next_host_id := next_host_id (objects s2) + 1\<rparr>), host := post ms2 (host s2)\<rparr>)"
    using l c1 m(4) s2(1) c2 by (simp add: replay_dmabuf_def and_then_def map_object_def modify_def)
  moreover have "rebuilt env T (1 + 1) ({} \<union> {g}) s (s2\<lparr>objects := st_map (bim env) g (next_host_id (objects s2)) buffer
      ((objects s2)\<lparr>next_host_id := next_host_id (objects s2) + 1\<rparr>), host := post ms2 (host s2)\<rparr>)"
    by (rule rebuilt_trans [OF r2 map_rebuilt [OF j2 rm assms(3,4) m(2)]])
  ultimately show thesis using that by (simp add: numeral_2_eq_2)
qed

lemma viewport_rebuilt:
  assumes "rebuilding env T s" "room s 1" "bimap (bim env)" "g \<noteq> 0"
    and "makes T p ''get_viewport'' [ATNewId, ATObject AllowNullNo] g" "alive env s p" "alive env s surface"
  obtains s' where "replay_viewport env g p surface destination s = (Inr (), s')" "rebuilt env T 1 {g} s s'"
proof -
  obtain sh where ws: "with_surface env surface s = Some (\<lambda>h. [VNewId h, VObject sh])"
    using assms(7) by (auto simp: with_surface_def alive_def)
  obtain child h s1 where s1: "replay_child env g p ''get_viewport'' (with_surface env surface) s = (Inr (Some (child, h)), s1)"
    "rebuilt env T 1 {g} s s1" by (rule child_rebuilt [where vs = "with_surface env surface" and v = "\<lambda>h. [VNewId h, VObject sh]", OF assms(1-6) ws]) simp
  show thesis
  proof (cases destination)
    case None
    then show thesis using that s1 by (simp add: replay_viewport_def and_then_def go_def)
  next
    case (Some wh)
    obtain w ht where d: "destination = Some (w, ht)" using Some by (cases wh) simp
    obtain s2 where "replay_setter env child h ''set_destination'' [VInt w, VInt ht] s1 = (Inr (), s2)" "untouched s1 s2"
      by (rule replay_setter_goes)
    then show thesis using that s1 untouched_after [OF s1(2)] d by (simp add: replay_viewport_def and_then_def)
  qed
qed

lemma global_rebuilt:
  assumes "rebuilding env T s" "room s 1" "bimap (bim env)" "g \<noteq> 0" "rebuildable T globals ri g (RGlobal iface v)"
  obtains s' where "replay_global env globals ri rh g iface v s = (Inr (), s')" "rebuilt env T 1 {g} s s'"
proof -
  from assms(5) obtain name mx bind rest where m: "T g = Some iface" "if_name iface \<in> set recreatable_globals"
    "hm_get globals (if_name iface) = Some (name, mx)" "requests ri = bind # rest"
    "takes_args bind [ATUint, ATStr AllowNullNo, ATUint, ATNewId]" by auto
  from m(5) obtain a where sg: "signature bind = [ATUint, ATStr a, ATUint, ATNewId]"
    by (auto simp: takes_args_def map_eq_Cons_conv)
  show thesis
    by (rule that [OF replay_global_willing [OF m(2-4) sg] map_rebuilt [OF assms(1-4) m(1)]])
      (use assms(1) in \<open>simp add: rebuilding_def\<close>)
qed

text \<open>The request that makes one child, as the arms of the match issue it.\<close>

lemma request_rebuilt:
  assumes "rebuilding env T s" "room s 1" "bimap (bim env)" "g \<noteq> 0" "makes T p name tys g" "alive env s p"
    and "vs s = Some v" "\<And>h. tys = map type_of (v h)"
  obtains s' where "skip_result (replay_child env g p name vs) s = (Inr (), s')" "rebuilt env T 1 {g} s s'"
proof -
  obtain child h s' where "replay_child env g p name vs s = (Inr (Some (child, h)), s')" "rebuilt env T 1 {g} s s'"
    by (rule child_rebuilt [where vs = vs and v = v, OF assms(1-7)]) (rule assms(8))
  then show thesis using that by (simp add: skip_result_def and_then_def go_def)
qed

lemma recipe_rebuilt:
  assumes "rebuilding env T s" "room s (host_ids r)" "bimap (bim env)" "g \<noteq> 0" "rebuildable T globals ri g r"
    and "\<forall>p \<in> set (parents r). alive env s p"
  shows "\<exists>s'. replay_recipe env globals ri rh g r s = (Inr (), s') \<and> rebuilt env T (host_ids r) {g} s s'"
proof -
  have rq: "\<exists>s'. skip_result (replay_child env g p name vs) s = (Inr (), s') \<and> rebuilt env T 1 {g} s s'"
    if "host_ids r = 1" "makes T p name tys g" "p \<in> set (parents r)" "vs s = Some v" "\<And>h. tys = map type_of (v h)"
    for p name tys vs v
  proof -
    note given = that
    have rm: "room s 1" using assms(2) given(1) by simp
    have al: "alive env s p" using assms(6) given(3) by blast
    obtain s' where "skip_result (replay_child env g p name vs) s = (Inr (), s')" "rebuilt env T 1 {g} s s'"
      by (rule request_rebuilt [where vs = vs and v = v, OF assms(1) rm assms(3,4) given(2) al given(4)]) (rule given(5))
    then show ?thesis by blast
  qed
  have surf: "\<exists>sh. with_surface env x s = Some (\<lambda>h. [VNewId h, VObject sh])" if "x \<in> set (parents r)" for x
  proof -
    from assms(6) that have "alive env s x" by blast
    then obtain sh where "host_id (bim env) (objects s) x = Some sh" by (auto simp: alive_def)
    then show ?thesis by (auto simp: with_surface_def)
  qed
  show ?thesis
  proof (cases r)
    case (RGlobal iface v)
    obtain s' where "replay_global env globals ri rh g iface v s = (Inr (), s')" "rebuilt env T 1 {g} s s'"
      by (rule global_rebuilt [OF assms(1) _ assms(3,4)]) (use assms(2,5) RGlobal in auto)
    then show ?thesis using RGlobal by simp
  next
    case (RSurface p)
    show ?thesis using rq [of p "''create_surface''" "[ATNewId]" "\<lambda>_. Some (\<lambda>h. [VNewId h])"] assms(5)
      by (simp add: RSurface replay_surface_def)
  next
    case (RXdgSurface p x)
    obtain sh where "with_surface env x s = Some (\<lambda>h. [VNewId h, VObject sh])" using surf [of x] by (auto simp: RXdgSurface)
    then show ?thesis using rq [of p "''get_xdg_surface''" "[ATNewId, ATObject AllowNullNo]" "with_surface env x"] assms(5)
      by (simp add: RXdgSurface replay_xdg_surface_def)
  next
    case (RXdgToplevel p t a)
    obtain s' where "replay_toplevel env g p t a s = (Inr (), s')" "rebuilt env T 1 {g} s s'"
      by (rule toplevel_rebuilt [OF assms(1) _ assms(3,4)]) (use assms(2,5,6) RXdgToplevel in auto)
    then show ?thesis using RXdgToplevel by simp
  next
    case (RShmPool p f n)
    show ?thesis using rq [of p "''create_pool''" "[ATNewId, ATFd, ATInt]" "\<lambda>_. Some (\<lambda>h. [VNewId h, VFd f, VInt n])"] assms(5)
      by (simp add: RShmPool replay_shm_pool_def)
  next
    case (RShmBuffer p off w h st fm)
    show ?thesis using rq [of p "''create_buffer''" "[ATNewId, ATInt, ATInt, ATInt, ATInt, ATUint]"
        "\<lambda>_. Some (\<lambda>i. [VNewId i, VInt off, VInt w, VInt h, VInt st, VUint fm])"] assms(5)
      by (simp add: RShmBuffer replay_shm_buffer_def)
  next
    case (RDmabufBuffer p w h f fl planes)
    obtain s' where "replay_dmabuf env g p w h f fl planes s = (Inr (), s')" "rebuilt env T 2 {g} s s'"
      by (rule dmabuf_rebuilt [OF assms(1) _ assms(3,4)]) (use assms(2,5,6) RDmabufBuffer in auto)
    then show ?thesis using RDmabufBuffer by simp
  next
    case (RSeatDevice p k)
    show ?thesis using rq [of p "request_name k" "[ATNewId]" "\<lambda>_. Some (\<lambda>h. [VNewId h])"] assms(5)
      by (simp add: RSeatDevice replay_seat_device_def)
  next
    case (RViewport p x d)
    obtain s' where "replay_viewport env g p x d s = (Inr (), s')" "rebuilt env T 1 {g} s s'"
      by (rule viewport_rebuilt [where surface = x and destination = d, OF assms(1) _ assms(3,4)]) (use assms(2,5,6) RViewport in auto)
    then show ?thesis using RViewport by simp
  next
    case (RFractionalScale p x)
    obtain sh where "with_surface env x s = Some (\<lambda>h. [VNewId h, VObject sh])" using surf [of x] by (auto simp: RFractionalScale)
    then show ?thesis using rq [of p "''get_fractional_scale''" "[ATNewId, ATObject AllowNullNo]" "with_surface env x"] assms(5)
      by (simp add: RFractionalScale replay_fractional_scale_def)
  qed
qed

section \<open>The whole graph\<close>

text \<open>The ids that live after a replay which starts with \<open>K\<close> alive: a recipe counts when all its parents do.\<close>

fun restored :: "u32 set \<Rightarrow> recreation_graph \<Rightarrow> u32 set" where
  "restored K [] = K"
| "restored K ((g, r) # gr) = restored (if set (parents r) \<subseteq> K then insert g K else K) gr"

lemma restored_grows: "K \<subseteq> restored K gr"
proof (induction K gr rule: restored.induct)
  case (2 K g r gr)
  then show ?case by (auto split: if_splits)
qed simp

text \<open>When parents come first, that is every recorded id.\<close>

lemma restored_all: "parents_first K gr \<Longrightarrow> restored K gr = K \<union> fst ` set gr"
  by (induction K gr rule: restored.induct) auto

lemma graph_rebuilt:
  assumes "rebuilding env T s" "room s (sum_list (map (host_ids \<circ> snd) gr))" "bimap (bim env)" "\<forall>g. alive env s g \<longleftrightarrow> g \<in> K"
    and "\<forall>(g, r) \<in> set gr. g \<noteq> 0 \<and> (set (parents r) \<subseteq> restored K gr \<longrightarrow> rebuildable T globals ri g r)"
  shows "\<exists>s'. replay_graph env globals ri rh gr s = (Inr (), s') \<and> rebuilding env T s' \<and> graph s' = graph s \<and>
    (\<forall>g. alive env s' g \<longleftrightarrow> g \<in> restored K gr)"
  using assms
proof (induction gr arbitrary: s K)
  case Nil
  then show ?case by (simp add: go_def)
next
  case (Cons x gr)
  obtain g r where x: "x = (g, r)" by fastforce
  let ?K = "if set (parents r) \<subseteq> K then insert g K else K"
  have rm: "room s (host_ids r)" using Cons.prems(2) by (simp add: x room_def)
  have rm': "room s (sum_list (map (host_ids \<circ> snd) gr))" using Cons.prems(2) by (simp add: x room_def comp_def)
  have "K \<subseteq> restored K (x # gr)" by (rule restored_grows)
  then have rb: "g \<noteq> 0" "set (parents r) \<subseteq> K \<Longrightarrow> rebuildable T globals ri g r" using Cons.prems(5) by (auto simp: x)
  have "\<exists>s1. replay_recipe env globals ri rh g r s = (Inr (), s1) \<and> rebuilding env T s1 \<and> graph s1 = graph s \<and>
    room s1 (sum_list (map (host_ids \<circ> snd) gr)) \<and> (\<forall>g. alive env s1 g \<longleftrightarrow> g \<in> ?K)"
  proof (cases "set (parents r) \<subseteq> K")
    case True
    then have "\<forall>p \<in> set (parents r). alive env s p" using Cons.prems(4) by auto
    then obtain s1 where s1: "replay_recipe env globals ri rh g r s = (Inr (), s1)" "rebuilt env T (host_ids r) {g} s s1"
      using recipe_rebuilt [OF Cons.prems(1) rm Cons.prems(3) rb(1) rb(2) [OF True], of rh] by blast
    have "room s1 (sum_list (map (host_ids \<circ> snd) gr))" using room_rebuilt [OF s1(2)] Cons.prems(2) by (simp add: x comp_def)
    then show ?thesis using s1 Cons.prems(4) True by (auto simp: rebuilt_def)
  next
    case False
    then obtain p where "p \<in> set (parents r)" "host_id (bim env) (objects s) p = None"
      using Cons.prems(4) by (auto simp: alive_def)
    then have "replay_recipe env globals ri rh g r s = (Inr (), s)" by (rule replay_orphan)
    then show ?thesis using Cons.prems(1,4) rm' False by auto
  qed
  then obtain s1 where s1: "replay_recipe env globals ri rh g r s = (Inr (), s1)" "rebuilding env T s1" "graph s1 = graph s"
    "room s1 (sum_list (map (host_ids \<circ> snd) gr))" "\<forall>g. alive env s1 g \<longleftrightarrow> g \<in> ?K" by blast
  from Cons.prems(5) have "\<forall>(g, r) \<in> set gr. g \<noteq> 0 \<and> (set (parents r) \<subseteq> restored ?K gr \<longrightarrow> rebuildable T globals ri g r)"
    by (auto simp: x)
  then obtain s2 where "replay_graph env globals ri rh gr s1 = (Inr (), s2)" "rebuilding env T s2" "graph s2 = graph s1"
    "\<forall>g. alive env s2 g \<longleftrightarrow> g \<in> restored ?K gr"
    using Cons.IH [OF s1(2,4) Cons.prems(3) s1(5)] by blast
  then show ?case using s1(1,3) by (simp add: x and_then_def)
qed

section \<open>From a lost compositor to a new one\<close>

lemma release_buffers_table: "objects (release_buffers env bs s) = objects s"
  by (induction bs arbitrary: s) (auto split: option.split)

lemma answer_callbacks_table: "objects (answer_callbacks env cs s) = objects s"
  by (induction cs arbitrary: s) auto

lemma overdue_table: "objects (answer_awaiting env (release_in_flight env s)) = objects s"
  by (simp add: answer_awaiting_def release_in_flight_def answer_callbacks_table release_buffers_table split: prod.split)

text \<open>After the registry has been fetched, the recovery is in its invariant, with four host ids used.\<close>

lemma registry_rebuilt:
  assumes "bimap (bim env)" "gens_ok (objects p)" "generation (objects p) \<noteq> - 1" "willing c"
    and "st_interface (objects (begin_recovery env c p)) rg = Some ri" "rg \<noteq> 0"
    and "recover_registry env rg ri ((begin_recovery env c p)\<lparr>reclaim := r\<rparr>) = (Inr (rh, globals), s1)"
  shows "rebuilding env (st_interface (objects (begin_recovery env c p))) s1" "graph s1 = graph p" "\<forall>g. alive env s1 g \<longleftrightarrow> g \<in> {0, 1, rg}"
    "next_host_id (objects s1) = 4"
proof -
  let ?s0 = "(begin_recovery env c p)\<lparr>reclaim := r\<rparr>"
  let ?t0 = "bump_generation (bim env) (statics env) (objects p)"
  let ?s2 = "?s0\<lparr>objects := ?t0\<lparr>next_host_id := 4\<rparr>, host := post (without_fds [build_message (endian env) 1 1 (put_u32 (endian env) [] 2),
      build_message (endian env) 1 0 (put_u32 (endian env) [] 3)]) c\<rparr>"
  obtain g s3 where f: "fetch_globals env 2 3 [] ?s2 = (Inr g, s3)" and s1: "s1 = s3\<lparr>objects := st_map (bim env) rg 2 ri (objects s3)\<rparr>"
    using assms(4,7)
    by (auto simp: recover_registry_def Let_def and_then_def fresh_host_id_def allocate_host_id_def must_write_host_def
        write_host_def write_message_post begin_recovery_def map_object_def modify_def go_def without_fds_def
        split: prod.splits sum.splits)
  have u: "untouched ?s2 s3" by (rule keepsD [OF untouched.keeps_fetch_globals f])
  have o3: "objects s3 = ?t0\<lparr>next_host_id := 4\<rparr>" and w3: "willing (host s3)" and g3: "graph s3 = graph p"
    using u assms(4) by (simp_all add: untouched_def begin_recovery_def)
  have hid: "host_id (bim env) (objects s1) g = (if g = 0 then Some 0 else if g = rg then Some 2 else if g = 1 then Some 1 else None)" for g
    using bimap.host_id_bump [OF assms(1-3)]
    by (auto simp: s1 o3 bimap.host_id_st_map [OF assms(1,6)] bimap.host_id_cong [OF assms(1)])
  show "graph s1 = graph p" "next_host_id (objects s1) = 4" using g3 by (simp_all add: s1 o3)
  show "\<forall>g. alive env s1 g \<longleftrightarrow> g \<in> {0, 1, rg}" by (simp add: alive_def hid)
  have if1: "st_interface (objects s1) g = st_interface (objects (begin_recovery env c p)) g" for g
    using assms(5) by (auto simp: s1 o3 begin_recovery_def st_interface_def split: if_splits)
  have w1: "willing (host s1)" using w3 by (simp add: s1)
  have n1: "next_host_id (objects s1) = 4" by (simp add: s1 o3)
  show "rebuilding env (st_interface (objects (begin_recovery env c p))) s1"
    unfolding rebuilding_def if1 hid n1 using w1 by auto
qed

lemma reconnect_rebuilds:
  assumes "bimap (bim env)" "gens_ok (objects p)" "generation (objects p) \<noteq> - 1" "willing c"
    and "find_guest_id_by_interface_name (ord_ids env) (objects (begin_recovery env c p)) ''wl_registry'' = Some rg" "rg \<noteq> 0"
    and "st_interface (objects (begin_recovery env c p)) rg = Some ri"
    and "recover_registry env rg ri ((begin_recovery env c p)\<lparr>reclaim := (reclaim p)\<lparr>active_source_host_id := None\<rparr>\<rparr>) =
      (Inr (rh, globals), s1)"
    and "\<forall>(g, r) \<in> set (graph p). g \<noteq> 0 \<and> (set (parents r) \<subseteq> restored {0, 1, rg} (graph p) \<longrightarrow>
      rebuildable (st_interface (objects (begin_recovery env c p))) globals ri g r)"
    and "4 + sum_list (map (host_ids \<circ> snd) (graph p)) < 2 ^ 32"
  obtains s' where "recover_state_after_reconnect env (begin_recovery env c p) = (Inr (), s')"
    "\<forall>g. alive env s' g \<longleftrightarrow> g \<in> restored {0, 1, rg} (graph p)"
    "\<forall>g. st_interface (objects s') g = st_interface (objects (begin_recovery env c p)) g"
proof -
  note reg = registry_rebuilt [OF assms(1-4,7,6,8)]
  have rm: "room s1 (sum_list (map (host_ids \<circ> snd) (graph p)))" using assms(10) reg(4) by (simp add: room_def)
  obtain s2 where s2: "replay_graph env globals ri rh (graph p) s1 = (Inr (), s2)"
    "rebuilding env (st_interface (objects (begin_recovery env c p))) s2" "\<forall>g. alive env s2 g \<longleftrightarrow> g \<in> restored {0, 1, rg} (graph p)"
    using graph_rebuilt [OF reg(1) rm assms(1) reg(3) assms(9)] by blast
  let ?s3 = "answer_awaiting env (release_in_flight env s2)"
  have "recover_state_after_reconnect env (begin_recovery env c p) = (Inr (), ?s3\<lparr>reclaim := (reclaim ?s3)
      \<lparr>data_device_manager_global := hm_get globals ''wl_data_device_manager'', reclaim_pending := True\<rparr>\<rparr>)"
    using assms(5,7,8) s2(1) reg(2)
    by (simp add: recover_state_after_reconnect_def and_then_def modify_def begin_recovery_def)
  then show thesis
    by (rule that) (use s2(2,3) in \<open>auto simp: rebuilding_def alive_def overdue_table st_interface_def\<close>)
qed

end
