(* ===== verification/SessionFacts.thy ===== *)
theory SessionFacts
  imports Session RecoveryFacts RelayShape
begin

text \<open>
  Invariants of a whole connection, by rule induction over its reachable states: the generation
  is the number of reconnects, no table entry is ahead of it, and so right after a reconnect
  begins nothing but \<open>wl_display\<close> translates. Then what freezing means for the compositor
  connection, and what the client and the tables look like when it ends.
\<close>

section \<open>Between a connection and a relay pass\<close>

lemma relay_fields [simp]:
  "objects (to_relay p s d) = objects p" "src (to_relay p s d) = s" "dst (to_relay p s d) = d"
  "graph (to_relay p s d) = graph p" "grabs (to_relay p s d) = grabs p" "reclaim (to_relay p s d) = reclaim p"
  "cache (to_relay p s d) = cache p" "tasks (to_relay p s d) = tasks p" "recorded (to_relay p s d) = recorded p"
  "buffer_flow (to_relay p s d) = buffer_flow p" "pending_frames (to_relay p s d) = pending_frames p"
  "pending_dmabuf_planes (to_relay p s d) = pending_dmabuf_planes p"
  by (simp_all add: to_relay_def session.defs relay_state.defs)

lemma proxy_fields [simp]:
  "objects (from_relay p g h r) = objects r" "gtk (from_relay p g h r) = g" "host (from_relay p g h r) = h"
  "frozen (from_relay p g h r) = frozen p" "notifications (from_relay p g h r) = notifications p"
  "graph (from_relay p g h r) = graph r" "grabs (from_relay p g h r) = grabs r" "reclaim (from_relay p g h r) = reclaim r"
  "cache (from_relay p g h r) = cache r" "tasks (from_relay p g h r) = tasks r"
  "buffer_flow (from_relay p g h r) = buffer_flow r" "pending_frames (from_relay p g h r) = pending_frames r"
  by (simp_all add: from_relay_def session.defs proxy.defs)

lemma relay_dst_None: "dst s = None \<Longrightarrow> dst (relay_ready_messages env dir s) = None"
proof -
  have step: "dst s1 = None \<longrightarrow> dst s2 = None" if st: "relay_step env dir s1 = Some (d, s2)" for s1 d s2
  proof -
    obtain m n sp where "take_message (endian env) (read_buf (src s1)) = Some (m, n)"
      and pr: "process_message env dir (take n (read_buf (src s1))) s1 = (d, sp)" and s2: "s2 = drain_input n sp"
      using st by (auto simp: relay_step_def split: option.splits prod.splits)
    have len: "HEADER_LEN \<le> length (take n (read_buf (src s1)))"
      if "parse_header (endian env) (take n (read_buf (src s1))) = Some h" for h
      using that parse_header_None_iff [of "endian env" "take n (read_buf (src s1))"] by (metis not_le option.distinct(1))
    from pr have "dst s1 = None \<longrightarrow> dst sp = None"
      by (rule process_message_cases)
        (auto dest: relay_message_stopped(2) elim!: relayed_shape dest!: len)
    then show ?thesis by (simp add: s2 drain_input_def)
  qed
  have "dst s = None \<longrightarrow> dst (relay_ready_messages env dir s) = None"
    by (rule relay_ready_messages_frame [where R = "\<lambda>s s'. dst s = None \<longrightarrow> dst s' = None"])
      (rule framing_preserve, rule step)
  then show "dst s = None \<Longrightarrow> dst (relay_ready_messages env dir s) = None" by blast
qed

text \<open>While frozen, whatever the client sends, not a byte goes to the compositor connection.\<close>

lemma frozen_silent: "frozen p \<Longrightarrow> host (relay_from_client env p) = host p \<and> frozen (relay_from_client env p)"
  using relay_dst_None [of "to_relay p (gtk p) None" env ClientToHost]
  by (simp add: relay_from_client_def Let_def)

section \<open>Generations count reconnects\<close>

fun proxy_of :: "'b status \<Rightarrow> 'b proxy" where
  "proxy_of (Running p) = p"
| "proxy_of (Closed p) = p"
| "proxy_of (Panicked p) = p"
| "proxy_of (Hung p) = p"

lemma steady_relay_from:
  "generation (objects (relay_from_client env p)) = generation (objects p)"
  "gens_ok (objects p) \<Longrightarrow> gens_ok (objects (relay_from_client env p))"
  "generation (objects (relay_from_host env p)) = generation (objects p)"
  "gens_ok (objects p) \<Longrightarrow> gens_ok (objects (relay_from_host env p))"
  using steady.pass [of "to_relay p (gtk p) (if frozen p then None else Some (host p))" env ClientToHost]
    steady.pass [of "to_relay p (host p) (Some (gtk p))" env HostToClient]
  by (simp_all add: relay_from_client_def relay_from_host_def Let_def steady_def)

lemma reconnect_cases:
  obtains r p' where "recover_state_after_reconnect env (begin_recovery env c p) = (r, p')"
    "reconnect env c p = (case r of Inr _ \<Rightarrow> Running (finish_recovery env p') | Inl RecoveryFailed \<Rightarrow> Running p'
      | Inl RecoveryPanicked \<Rightarrow> Panicked p' | Inl RecoveryWaiting \<Rightarrow> Hung p')"
proof -
  obtain r p' where r: "recover_state_after_reconnect env (begin_recovery env c p) = (r, p')" by fastforce
  show thesis
  proof (rule that [OF r])
    show "reconnect env c p = (case r of Inr _ \<Rightarrow> Running (finish_recovery env p') | Inl RecoveryFailed \<Rightarrow> Running p'
      | Inl RecoveryPanicked \<Rightarrow> Panicked p' | Inl RecoveryWaiting \<Rightarrow> Hung p')"
      unfolding reconnect_def r by (simp split: sum.split recovery_stop.split)
  qed
qed

lemma finish_recovery_fields [simp]:
  "objects (finish_recovery env p) = objects p" "frozen (finish_recovery env p) = False"
  "graph (finish_recovery env p) = graph p" "buffer_flow (finish_recovery env p) = buffer_flow p"
  "pending_frames (finish_recovery env p) = pending_frames p" "reclaim (finish_recovery env p) = reclaim p"
  "grabs (finish_recovery env p) = clear_grabs (grabs p)" "host (finish_recovery env p) = host p"
  "notifications (finish_recovery env p) = notifications p + 1"
  by (simp_all add: finish_recovery_def synthesize_grab_releases_def Let_def)

lemma reconnect_generation:
  "generation (objects (proxy_of (reconnect env c p))) = generation (objects p) + 1"
  "gens_ok (objects p) \<Longrightarrow> generation (objects p) \<noteq> - 1 \<Longrightarrow> gens_ok (objects (proxy_of (reconnect env c p)))"
proof -
  obtain r p' where r: "recover_state_after_reconnect env (begin_recovery env c p) = (r, p')"
    "reconnect env c p = (case r of Inr _ \<Rightarrow> Running (finish_recovery env p') | Inl RecoveryFailed \<Rightarrow> Running p'
      | Inl RecoveryPanicked \<Rightarrow> Panicked p' | Inl RecoveryWaiting \<Rightarrow> Hung p')"
    by (rule reconnect_cases)
  have o: "objects (proxy_of (reconnect env c p)) = objects p'"
    by (auto simp: r(2) split: sum.split recovery_stop.split)
  have "steady (begin_recovery env c p) p'" using recovering_recover [OF r(1)] by (simp add: recovering_def)
  then show "generation (objects (proxy_of (reconnect env c p))) = generation (objects p) + 1"
    "gens_ok (objects p) \<Longrightarrow> generation (objects p) \<noteq> - 1 \<Longrightarrow> gens_ok (objects (proxy_of (reconnect env c p)))"
    unfolding o by (simp_all add: steady_def begin_recovery_def gens_ok_bump)
qed

lemma step_generation:
  assumes "session_step env l s s'"
  shows "generation (objects (proxy_of s')) = generation (objects (proxy_of s)) + (if l = Reconnect then 1 else 0)"
    and "gens_ok (objects (proxy_of s)) \<Longrightarrow> generation (objects (proxy_of s)) \<noteq> - 1 \<Longrightarrow> gens_ok (objects (proxy_of s'))"
  using assms
  by (cases rule: session_step.cases; simp add: steady_relay_from reconnect_generation finish_task_def)+

lemma word_of_nat_not_max: "Suc n < 2 ^ 64 \<Longrightarrow> word_of_nat n \<noteq> (- 1 :: u64)"
proof
  assume n: "Suc n < 2 ^ 64" and "word_of_nat n = (- 1 :: u64)"
  then have "word_of_nat (Suc n) = (0 :: u64)" by simp
  with n show False using unat_word_of_nat_small [of "Suc n", where ?'a = 64] by simp
qed

lemma reachable_generation:
  assumes "reachable env n s" "n < 2 ^ 64"
  shows "generation (objects (proxy_of s)) = word_of_nat n \<and> gens_ok (objects (proxy_of s))"
  using assms
proof (induction rule: reachable.induct)
  case (start shared rs ss rs' ss')
  then show ?case by (simp add: session_new_def gens_ok_new) (simp add: st_new_def)
next
  case (move n s l s')
  have n: "n < 2 ^ 64" using move.prems by (auto split: if_splits)
  note IH = move.IH [OF n]
  show ?case
  proof (cases "l = Reconnect")
    case True
    then have "Suc n < 2 ^ 64" using move.prems by simp
    then have "word_of_nat n \<noteq> (- 1 :: u64)" by (rule word_of_nat_not_max)
    then show ?thesis using step_generation [OF move.hyps(2)] IH True by (simp add: add.commute)
  next
    case False
    have "gens_ok (objects (proxy_of s'))"
      using move.hyps(2) IH
      by (cases rule: session_step.cases) (use False in \<open>simp_all add: steady_relay_from finish_task_def\<close>)
    then show ?thesis using step_generation(1) [OF move.hyps(2)] IH False by simp
  qed
qed

section \<open>The end of a freeze\<close>

text \<open>Only a completed recovery unfreezes, and it leaves no grab behind; what translates then was
  recreated by it.\<close>

lemma reconnect_unfrozen:
  assumes f: "frozen p" and r: "reconnect env c p = Running p'" and u: "\<not> frozen p'"
    and g: "gens_ok (objects p)" "generation (objects p) \<noteq> - 1"
  shows "\<exists>p1. recover_state_after_reconnect env (begin_recovery env c p) = (Inr (), p1) \<and> p' = finish_recovery env p1"
    and "pointer_focus (grabs p') d = None \<and> held_buttons (grabs p') d = [] \<and> keyboard_focus (grabs p') d = None"
    and "is_current_generation (objects p') i \<Longrightarrow> i = 1 \<or> i \<in> recreated_ids env (begin_recovery env c p)"
proof -
  obtain q p1 where q: "recover_state_after_reconnect env (begin_recovery env c p) = (q, p1)"
    "reconnect env c p = (case q of Inr _ \<Rightarrow> Running (finish_recovery env p1) | Inl RecoveryFailed \<Rightarrow> Running p1
      | Inl RecoveryPanicked \<Rightarrow> Panicked p1 | Inl RecoveryWaiting \<Rightarrow> Hung p1)"
    by (rule reconnect_cases)
  have k: "recovering (recreated_ids env (begin_recovery env c p)) (begin_recovery env c p) p1"
    by (rule recovering_recover [OF q(1)])
  then have "frozen p1" using f by (simp add: recovering_def begin_recovery_def)
  with q(2) r u have e: "q = Inr () \<and> p' = finish_recovery env p1"
    by (auto split: sum.splits recovery_stop.splits)
  then show "\<exists>p1. recover_state_after_reconnect env (begin_recovery env c p) = (Inr (), p1) \<and> p' = finish_recovery env p1"
    using q(1) by auto
  show "pointer_focus (grabs p') d = None \<and> held_buttons (grabs p') d = [] \<and> keyboard_focus (grabs p') d = None"
    using e by simp
  show "is_current_generation (objects p') i \<Longrightarrow> i = 1 \<or> i \<in> recreated_ids env (begin_recovery env c p)"
    using k e is_current_bump [OF g] by (auto simp: recovering_def begin_recovery_def)
qed

end
