(* ===== verification/Isolation.thy ===== *)
theory Isolation
  imports RelayShape
begin

text \<open>
  What one client request may do to the objects it does not name. The host ids in use stay below
  the allocator (or in the range the host hands out itself), so the id given to a new object
  displaces no pair of the bidirectional map; and no way to drop a request, roll-back and answer
  to a stale sender included, forgets the translation of another object.
\<close>

section \<open>Fresh host ids\<close>

definition fresh_ids :: "'b bimap_ops \<Rightarrow> 'b shadow_table \<Rightarrow> bool" where
  "fresh_ids B t \<longleftrightarrow> (\<forall>g h. g \<noteq> 0 \<longrightarrow> host_id B t g = Some h \<longrightarrow> h < next_host_id t \<or> 0xff000000 \<le> h)"

lemma fresh_idsD: "fresh_ids B t \<Longrightarrow> g \<noteq> 0 \<Longrightarrow> host_id B t g = Some h \<Longrightarrow> h < next_host_id t \<or> 0xff000000 \<le> h"
  unfolding fresh_ids_def by blast

lemma word_step: "n < 0xff000000 \<Longrightarrow> n < n + 1 \<and> (h < n \<longrightarrow> h < n + 1)" for n h :: u32
  by (simp add: word_less_nat_alt unat_word_ariths)

text \<open>The request is free to reuse a number, null included, so these hold for every \<open>g\<close>.\<close>

context bimap
begin

lemma host_id_st_map_other:
  "g' \<noteq> g \<Longrightarrow> host_id B (st_map B g h i t) g' =
    (if g' \<noteq> 0 \<and> host_id B t g' = Some h then None else host_id B t g')"
  by (auto simp: host_id_def st_map_def is_current_generation_def left_insert)

lemma host_id_remove_other: "g' \<noteq> g \<Longrightarrow> host_id B (remove_guest B g t) g' = host_id B t g'"
  by (auto simp: host_id_def remove_guest_def is_current_generation_def left_remove)

lemma host_id_remove_self: "g \<noteq> 0 \<Longrightarrow> host_id B (remove_guest B g t) g = None"
  by (simp add: host_id_remove_guest)

lemma fresh_ids_st_new: "fresh_ids B (st_new B sts)"
  by (auto simp: fresh_ids_def host_id_def st_new_def st_map_def left_insert left_new)

lemma fresh_ids_bump: "gens_ok t \<Longrightarrow> generation t \<noteq> - 1 \<Longrightarrow> fresh_ids B (bump_generation B sts t)"
  by (auto simp: fresh_ids_def host_id_bump split: if_splits)

lemma fresh_ids_remove: "fresh_ids B t \<Longrightarrow> fresh_ids B (remove_guest B g t)"
  unfolding fresh_ids_def remove_guest_fields
  by (metis host_id_remove_other host_id_remove_self option.distinct(1))

text \<open>Mapping a new object to the next host id keeps every other translation.\<close>

lemma allocate_other:
  assumes "fresh_ids B t" "next_host_id t < 0xff000000" "g' \<noteq> g"
  shows "host_id B (st_map B g (next_host_id t) i (t\<lparr>next_host_id := next_host_id t + 1\<rparr>)) g' = host_id B t g'"
  using assms fresh_idsD [OF assms(1), of g' "next_host_id t"] by (auto simp: host_id_st_map_other)

lemma allocate_fresh:
  assumes "fresh_ids B t" "next_host_id t < 0xff000000"
  shows "fresh_ids B (st_map B g (next_host_id t) i (t\<lparr>next_host_id := next_host_id t + 1\<rparr>))" (is "fresh_ids B ?t")
  unfolding fresh_ids_def st_map_fields
proof (intro allI impI)
  fix g' h assume g': "g' \<noteq> 0" "host_id B ?t g' = Some h"
  show "h < next_host_id (t\<lparr>next_host_id := next_host_id t + 1\<rparr>) \<or> 0xff000000 \<le> h"
  proof (cases "g' = g")
    case True
    then show ?thesis using g' word_step [OF assms(2)] by (simp add: host_id_st_map)
  next
    case False
    then show ?thesis
      using g' fresh_idsD [OF assms(1) g'(1), of h] allocate_other [OF assms False] word_step [OF assms(2), of h] by auto
  qed
qed

end

section \<open>One request\<close>

text \<open>The id the client gives to the object the request creates, as the relay reads it.\<close>

definition created_id :: "'b env \<Rightarrow> byte list \<Rightarrow> msg_ctx \<Rightarrow> u32 option" where
  "created_id env msg ctx =
    (case walk_signature (endian env) (drop HEADER_LEN msg) (signature (mc_desc ctx)) of
       Inl e \<Rightarrow> None
     | Inr walk \<Rightarrow> map_option (\<lambda>n. word_at (endian env) msg (HEADER_LEN + n)) (new_id_offset walk))"

text \<open>Every translation but that of \<open>new\<close> is kept, and so is every interface but those of \<open>new\<close> and the sender.\<close>

definition undisturbed :: "'b bimap_ops \<Rightarrow> u32 option \<Rightarrow> u32 \<Rightarrow> 'b shadow_table \<Rightarrow> 'b shadow_table \<Rightarrow> bool" where
  "undisturbed B new sender t t' \<longleftrightarrow>
    (\<forall>g. new \<noteq> Some g \<longrightarrow> host_id B t' g = host_id B t g \<and> (g \<noteq> sender \<longrightarrow> st_interface t' g = st_interface t g))"

lemma undisturbed_same [simp]: "undisturbed B new sender t t"
  by (simp add: undisturbed_def)

lemma mapped_request:
  assumes B: "bimap (bim env)" and f: "fresh_ids (bim env) (objects s)" "next_host_id (objects s) < 0xff000000"
    and n: "map_new_id env ClientToHost ctx walk os m1 s = (Inr (new, m2), s2)"
    and c: "new = created_id env msg ctx"
  shows "fresh_ids (bim env) (objects s2) \<and> undisturbed (bim env) (created_id env msg ctx) sender (objects s) (objects s2)"
  using n
proof (rule map_new_idD)
  fix off child v
  assume new: "new = Some (word_at (endian env) m1 (HEADER_LEN + off))"
    and o: "objects s2 = st_map (bim env) (word_at (endian env) m1 (HEADER_LEN + off)) (next_host_id (objects s)) child
        ((objects s)\<lparr>next_host_id := next_host_id (objects s) + 1\<rparr>)"
  show ?thesis unfolding o
    using bimap.allocate_fresh [OF B f] bimap.allocate_other [OF B f] c new
    by (auto simp: undisturbed_def st_interface_def)
qed (use f in simp_all)

text \<open>The new id is read after the objects of the request are translated, which leaves it alone.\<close>

lemma new_id_created:
  assumes w: "walk_signature (endian env) (drop HEADER_LEN msg) (signature (mc_desc ctx)) = Inr walk"
    and l: "HEADER_LEN \<le> length msg"
    and t: "translate_objects (endian env) (translate_id env ClientToHost (objects s)) (object_offsets walk) msg = Inr m1"
    and n: "map_new_id env ClientToHost ctx walk os m1 s = (Inr (new, m2), s2)"
  shows "new = created_id env msg ctx"
proof -
  note sp = walk_spaced [OF w l]
  have wt: "words_translated (endian env) (translate_id env ClientToHost (objects s)) (object_offsets walk) msg m1"
    by (rule translate_objects_spec [OF t sp(1)])
  from n show ?thesis
  proof (rule map_new_idD)
    fix off
    assume off: "new_id_offset walk = Some off" and new: "new = Some (word_at (endian env) m1 (HEADER_LEN + off))"
    have "word_at (endian env) m1 (HEADER_LEN + off) = word_at (endian env) msg (HEADER_LEN + off)"
      using word_at_translated [OF wt] sp(2) [OF off] by blast
    then show ?thesis using w off new by (simp add: created_id_def)
  qed (use w in \<open>simp_all add: created_id_def\<close>)
qed

text \<open>A stale sender has no translation to lose, and the roll-back takes back what the request added.\<close>

lemma answer_stale_undisturbed:
  assumes B: "bimap (bim env)" and st: "host_id (bim env) (objects s) (mc_sender ctx) = None"
    and t: "t = objects (answer_stale_sender env ClientToHost ctx new s)"
  shows "host_id (bim env) t = host_id (bim env) (objects s)" "next_host_id t = next_host_id (objects s)"
    "g \<noteq> mc_sender ctx \<Longrightarrow> st_interface t g = st_interface (objects s) g"
proof -
  have o: "t = objects s \<or> t = remove_guest (bim env) (mc_sender ctx) (objects s)"
    by (auto simp: t answer_stale_sender_def split: option.split)
  have "mc_sender ctx \<noteq> 0" using st by auto
  then have "host_id (bim env) (remove_guest (bim env) (mc_sender ctx) (objects s)) g = host_id (bim env) (objects s) g" for g
    using st by (simp add: bimap.host_id_remove_guest [OF B])
  then show "host_id (bim env) t = host_id (bim env) (objects s)" using o by auto
  show "next_host_id t = next_host_id (objects s)" using o by auto
  show "g \<noteq> mc_sender ctx \<Longrightarrow> st_interface t g = st_interface (objects s) g" using o by auto
qed

lemma rolled_back_request:
  assumes B: "bimap (bim env)" and f: "fresh_ids (bim env) (objects s)" "next_host_id (objects s) < 0xff000000"
    and n: "map_new_id env ClientToHost ctx walk os m1 s = (Inr (new, m2), s2)"
    and o4: "objects s4 = objects s2" and st: "host_id (bim env) (objects s4) (mc_sender ctx) = None"
    and s': "s' = roll_back_new_id env ClientToHost new (answer_stale_sender env ClientToHost ctx new s4)"
  shows "fresh_ids (bim env) (objects s') \<and> undisturbed (bim env) new (mc_sender ctx) (objects s) (objects s')"
proof -
  define t where "t = objects (answer_stale_sender env ClientToHost ctx new s4)"
  note a = answer_stale_undisturbed [OF B st t_def]
  from n show ?thesis
  proof (rule map_new_idD)
    assume "new = None" "s2 = s"
    then have "objects s' = t" "objects s4 = objects s" using s' o4 by (simp_all add: t_def roll_back_new_id_def)
    then show ?thesis using a f by (simp add: fresh_ids_def undisturbed_def)
  next
    fix off child v
    let ?g = "word_at (endian env) m1 (HEADER_LEN + off)" and ?n = "next_host_id (objects s)"
    assume new: "new = Some ?g"
      and o: "objects s2 = st_map (bim env) ?g ?n child ((objects s)\<lparr>next_host_id := ?n + 1\<rparr>)"
    have h2: "host_id (bim env) t g = host_id (bim env) (objects s) g" if "g \<noteq> ?g" for g
      using bimap.allocate_other [OF B f that] a(1) o4 o by simp
    obtain n' where u: "objects s' = remove_guest (bim env) ?g (t\<lparr>next_host_id := n'\<rparr>)" "n' = ?n \<or> n' = ?n + 1"
    proof -
      have nt: "next_host_id t = ?n + 1" using a(2) o4 o by simp
      have e: "objects s' = remove_guest (bim env) ?g
          (case host_id (bim env) t ?g of Some h \<Rightarrow> unallocate_host_id h t | None \<Rightarrow> t)"
        unfolding t_def by (simp add: s' new roll_back_new_id_def Let_def cong: option.case_cong)
      have "\<exists>n'. (case host_id (bim env) t ?g of Some h \<Rightarrow> unallocate_host_id h t | None \<Rightarrow> t) = t\<lparr>next_host_id := n'\<rparr>
          \<and> (n' = ?n \<or> n' = ?n + 1)"
        using nt by (cases "host_id (bim env) t ?g")
          (auto simp: unallocate_host_id_def intro: exI [of _ "next_host_id t"])
      then show thesis using that e by auto
    qed
    have h': "host_id (bim env) (objects s') g = host_id (bim env) (objects s) g" if "g \<noteq> ?g" for g
      using h2 [OF that] that by (simp add: u(1) bimap.host_id_remove_other [OF B] bimap.host_id_cong [OF B])
    have "fresh_ids (bim env) (objects s')" unfolding fresh_ids_def
    proof (intro allI impI)
      fix g h assume g: "g \<noteq> 0" "host_id (bim env) (objects s') g = Some h"
      then have "g \<noteq> ?g" by (auto simp: u(1) bimap.host_id_remove_self [OF B])
      then have "h < ?n \<or> 0xff000000 \<le> h" using g h' fresh_idsD [OF f(1) g(1)] by simp
      then show "h < next_host_id (objects s') \<or> 0xff000000 \<le> h"
        using word_step [OF f(2), of h] u by auto
    qed
    moreover have "st_interface (objects s') g = st_interface (objects s) g" if "g \<noteq> ?g" "g \<noteq> mc_sender ctx" for g
      using a(3) [OF that(2)] that o4 o by (simp add: u(1) st_interface_def)
    ultimately show ?thesis using h' by (simp add: undisturbed_def new)
  qed simp
qed

lemma relayed_request_undisturbed:
  assumes B: "bimap (bim env)" and f: "fresh_ids (bim env) (objects s)" "next_host_id (objects s) < 0xff000000"
    and l: "HEADER_LEN \<le> length msg" and c: "resolve_context env ClientToHost (objects s) h = Some ctx"
    and ord: "\<not> is_message ctx ''wl_display'' ''delete_id''"
    and r: "relay_message env ClientToHost h msg s = (Inr d, s')"
  shows "fresh_ids (bim env) (objects s') \<and>
    undisturbed (bim env) (created_id env msg ctx) (mc_sender ctx) (objects s) (objects s')"
  using r
proof (rule relay_message_through)
  fix ctx' and walk :: signature_walk and m1 nw m2 s2 m3 s3 m4 s4
  let ?os = "original_object_values (endian env) msg (object_offsets walk)"
  assume c': "resolve_context env ClientToHost (objects s) h = Some ctx'"
    and w: "walk_signature (endian env) (drop HEADER_LEN msg) (signature (mc_desc ctx')) = Inr walk"
    and tr: "translate_objects (endian env) (translate_id env ClientToHost (objects s)) (object_offsets walk) msg = Inr m1"
    and nid: "map_new_id env ClientToHost ctx' walk ?os m1 s = (Inr (nw, m2), s2)"
    and del: "apply_delete_id env ClientToHost ctx' m2 s2 = (Inr m3, s3)"
    and obs: "observe_message env ClientToHost ctx' ?os nw m3 s3 = (Inr m4, s4)"
    and dlv: "deliver env ClientToHost ctx' walk nw m4 s4 = (Inr d, s')"
  have [simp]: "ctx' = ctx" using c c' by simp
  have "objects s' = objects s2"
    using deliver_objects [OF dlv] keepsD [OF keeps_quiet_observe_client obs] del
    by (simp add: quiet_def apply_delete_id_other [OF ord])
  then show ?thesis using mapped_request [OF B f nid, of msg "mc_sender ctx"] new_id_created [OF w l tr nid] by simp
qed

lemma dropped_request_undisturbed:
  assumes B: "bimap (bim env)" and f: "fresh_ids (bim env) (objects s)" "next_host_id (objects s) < 0xff000000"
    and l: "HEADER_LEN \<le> length msg" and c: "resolve_context env ClientToHost (objects s) h = Some ctx"
    and ord: "\<not> is_message ctx ''wl_display'' ''delete_id''"
    and r: "relay_message env ClientToHost h msg s = (Inl d, s')"
  shows "fresh_ids (bim env) (objects s') \<and>
    undisturbed (bim env) (created_id env msg ctx) (mc_sender ctx) (objects s) (objects s')"
  using r
proof (rule relay_message_stop_cases)
  fix ctx' and walk :: signature_walk and m1 nw m2 s2 m3 s3 m4 s4
  let ?os = "original_object_values (endian env) msg (object_offsets walk)"
  assume c': "resolve_context env ClientToHost (objects s) h = Some ctx'"
    and w: "walk_signature (endian env) (drop HEADER_LEN msg) (signature (mc_desc ctx')) = Inr walk"
    and tr: "translate_objects (endian env) (translate_id env ClientToHost (objects s)) (object_offsets walk) msg = Inr m1"
    and nid: "map_new_id env ClientToHost ctx' walk ?os m1 s = (Inr (nw, m2), s2)"
    and del: "apply_delete_id env ClientToHost ctx' m2 s2 = (Inr m3, s3)"
    and obs: "observe_message env ClientToHost ctx' ?os nw m3 s3 = (Inr m4, s4)"
    and st: "other_side_sender env ClientToHost (objects s4) (mc_sender ctx') = None"
    and s': "s' = roll_back_new_id env ClientToHost nw (answer_stale_sender env ClientToHost ctx' nw s4)"
  have [simp]: "ctx' = ctx" using c c' by simp
  have "objects s4 = objects s2"
    using keepsD [OF keeps_quiet_observe_client obs] del
    by (simp add: quiet_def apply_delete_id_other [OF ord])
  from rolled_back_request [OF B f nid this _ s'] new_id_created [OF w l tr nid] st
  show ?thesis by (simp add: other_side_sender_def)
next
  fix ctx' and walk :: signature_walk and m1 os
  assume "map_new_id env ClientToHost ctx' walk os m1 s = (Inl d, s')"
  then show ?thesis using f
    by (auto simp: fresh_ids_def undisturbed_def bimap.host_id_cong [OF B] st_interface_def dest!: map_new_id_stop)
qed (use f ord c in \<open>auto simp: quiet_def\<close>)

end
