(* ===== verification/Recording.thy ===== *)
theory Recording
  imports SessionFacts Rebuild Isolation
begin

text \<open>
  How the recipes get into the recreation graph, and that they fit the table. A request that
  creates an object of a recreatable kind leaves, whether or not there is a compositor to hear it,
  one recipe at the end of the graph, naming the sender and the objects the request named, and
  typed so that \<open>Rebuild\<close> can replay it. No part of the relay leaves a recipe behind for an id
  the table has forgotten.
\<close>

section \<open>What the observers do to the graph\<close>

abbreviation same_graph :: "'b relay_state \<Rightarrow> 'b relay_state \<Rightarrow> bool" where
  "same_graph s s' \<equiv> graph s' = graph s"

interpretation same_graph: framing "same_graph :: 'b relay_state \<Rightarrow> _ \<Rightarrow> bool"
  by (rule framing_observe)

text \<open>The requests that rewrite a recipe.\<close>

definition rewrites_recipe :: "msg_ctx \<Rightarrow> bool" where
  "rewrites_recipe ctx \<longleftrightarrow> (i_name ctx, d_name ctx) \<in> set [(''wl_shm_pool'', ''resize''), (''xdg_toplevel'', ''set_title''),
     (''xdg_toplevel'', ''set_app_id''), (''wp_viewport'', ''set_destination'')]"

lemma splice_graph: "graph (maybe_reclaim env dir ctx msg s) = graph s"
  using maybe_reclaim_writes [of s env dir ctx msg] by (auto simp: only_writes_def)

lemma observers_graph:
  "graph (observe_grabs env dir ctx msg s) = graph s" "graph (observe_buffers dir ctx os s) = graph s"
  "graph (observe_callbacks dir ctx new s) = graph s" "graph (retain_plane_fd env dir ctx msg fds s) = graph s"
  by (simp_all add: observe_grabs_def observe_buffers_def observe_callbacks_def retain_plane_fd_def Let_def
      split: option.split list.split prod.split)

lemma keeps_graph_stale: "keeps same_graph (drop_stale_release env dir ctx msg)"
  by (rule keepsI) (auto simp: drop_stale_release_def drop_known_def split: if_splits)

lemma observe_keeps_graph:
  assumes "\<not> rewrites_recipe ctx"
  shows "keeps same_graph (observe_message env dir ctx originals new_guest msg)"
proof -
  have n: "\<not> is_message ctx ''wl_shm_pool'' ''resize''" "\<not> is_message ctx ''xdg_toplevel'' ''set_title''"
    "\<not> is_message ctx ''xdg_toplevel'' ''set_app_id''" "\<not> is_message ctx ''wp_viewport'' ''set_destination''"
    using assms by (auto simp: rewrites_recipe_def is_message_def)
  have t: "keeps same_graph (observe_toplevel env dir ctx m)" for m
    using n by (intro keepsI) (simp add: observe_toplevel_def)
  show ?thesis unfolding observe_message_def
    by (intro same_graph.keeps_and_then same_graph.keeps_modify same_graph.keeps_go t keeps_graph_stale)
      (simp_all add: observers_graph splice_graph observe_resize_def observe_destination_def n)
qed

lemma tee_graph: "keeps same_graph (tee_clipboard env dir ctx msg fds)"
  by (rule keepsI) (auto simp: tee_clipboard_def split: if_splits option.splits)

text \<open>A delivery that goes on adds the recipe of a pool and nothing else.\<close>

lemma deliver_graph:
  assumes "deliver env dir ctx walk new msg s = (Inr d, s')"
  shows "(\<exists>fds msg'. graph s' = graph (retain_pool_fd env dir ctx walk new msg' fds s) \<and>
    (dir = ClientToHost \<longrightarrow> fds = take (fd_count walk) (read_fds (src s))))"
proof -
  from assms obtain other m1 s1 where r: "readdress env dir ctx new msg s = (Inr (other, m1), s1)"
    and rest: "and_then (take_fds (fd_count walk)) (\<lambda>fds.
      and_then (tee_clipboard env dir ctx m1 fds) (\<lambda>fds.
      and_then (forward env dir ctx walk other m1 fds) (\<lambda>d.
      and_then (modify (retain_pool_fd env dir ctx walk new m1 fds)) (\<lambda>_.
      and_then (modify (retain_plane_fd env dir ctx m1 fds)) (\<lambda>_. go d))))) s1 = (Inr d, s')"
    unfolding deliver_def by (elim and_then_InrE [of "readdress env dir ctx new msg"]) (auto split: prod.splits)
  have s1: "s1 = s" using r by (auto simp: readdress_def split: option.splits sum.splits)
  let ?fds = "take (fd_count walk) (read_fds (src s))"
  let ?s2 = "s\<lparr>src := (src s)\<lparr>read_fds := drop (fd_count walk) (read_fds (src s))\<rparr>\<rparr>"
  have t: "take_fds (fd_count walk) s = (Inr ?fds, ?s2)" by (simp add: take_fds_def)
  obtain fds s3 where e: "tee_clipboard env dir ctx m1 ?fds ?s2 = (Inr fds, s3)"
    using tee_clipboard_goes_on by metis
  then have g3: "graph s3 = graph s" using keepsD [OF tee_graph e] by simp
  have f: "dir = ClientToHost \<longrightarrow> fds = ?fds" using e by (auto simp: tee_clipboard_def)
  obtain d' s4 where w: "forward env dir ctx walk other m1 fds s3 = (Inr d', s4)" "graph s4 = graph s3"
    by (cases "dst s3") (auto simp: forward_def Let_def)
  have "graph s' = graph (retain_pool_fd env dir ctx walk new m1 fds s4)"
    using rest unfolding s1
    by (simp add: and_then_def t e w(1) modify_def go_def observers_graph split: prod.splits) (auto simp: observers_graph)
  also have "\<dots> = graph (retain_pool_fd env dir ctx walk new m1 fds s)"
    using w(2) g3 by (simp add: retain_pool_fd_def Let_def split: option.split)
  finally show ?thesis using f by blast
qed

section \<open>Requests that create recreatable objects\<close>

text \<open>The requests whose objects are recreated, with their arguments in the protocol, binds and dmabuf
  buffers apart.\<close>

definition recreated_requests :: "((string \<times> string) \<times> argument_type list) list" where
  "recreated_requests =
    [((''wl_compositor'', ''create_surface''), [ATNewId]),
     ((''xdg_wm_base'', ''get_xdg_surface''), [ATNewId, ATObject AllowNullNo]),
     ((''xdg_surface'', ''get_toplevel''), [ATNewId]),
     ((''wl_shm'', ''create_pool''), [ATNewId, ATFd, ATInt]),
     ((''wl_shm_pool'', ''create_buffer''), [ATNewId, ATInt, ATInt, ATInt, ATInt, ATUint]),
     ((''wl_seat'', ''get_pointer''), [ATNewId]), ((''wl_seat'', ''get_keyboard''), [ATNewId]),
     ((''wl_seat'', ''get_touch''), [ATNewId]),
     ((''wp_viewporter'', ''get_viewport''), [ATNewId, ATObject AllowNullNo]),
     ((''wp_fractional_scale_manager_v1'', ''get_fractional_scale''), [ATNewId, ATObject AllowNullNo])]"

text \<open>The objects such a request names besides its sender.\<close>

definition named_objects :: "endianness \<Rightarrow> byte list \<Rightarrow> argument_type list \<Rightarrow> u32 list" where
  "named_objects en msg tys = (if ATObject AllowNullNo \<in> set tys then [word_at en msg (HEADER_LEN + 4)] else [])"

lemma erased_cases:
  "map erase sig = [ATNewId] \<Longrightarrow> sig = [ATNewId]"
  "map erase sig = [ATNewId, ATObject AllowNullNo] \<Longrightarrow> \<exists>n. sig = [ATNewId, ATObject n]"
  "map erase sig = [ATNewId, ATFd, ATInt] \<Longrightarrow> sig = [ATNewId, ATFd, ATInt]"
  "map erase sig = [ATNewId, ATInt, ATInt, ATInt, ATInt, ATUint] \<Longrightarrow> sig = [ATNewId, ATInt, ATInt, ATInt, ATInt, ATUint]"
  by auto

lemma recreated_types:
  assumes "(key, tys) \<in> set recreated_requests"
  obtains "tys = [ATNewId]" | "tys = [ATNewId, ATObject AllowNullNo]" | "tys = [ATNewId, ATFd, ATInt]"
    | "tys = [ATNewId, ATInt, ATInt, ATInt, ATInt, ATUint]"
  using assms by (auto simp: recreated_requests_def)

lemma walk_recreated:
  assumes "(key, tys) \<in> set recreated_requests" "map erase sig = map erase tys" "walk_signature en p sig = Inr w"
  shows "new_id_offset w = Some 0" "object_offsets w = (if ATObject AllowNullNo \<in> set tys then [4] else [])"
    "ATFd \<in> set tys \<Longrightarrow> fd_count w = 1" "length tys = 6 \<Longrightarrow> 24 \<le> length p"
proof -
  have "new_id_offset w = Some 0 \<and> object_offsets w = (if ATObject AllowNullNo \<in> set tys then [4] else []) \<and>
      (ATFd \<in> set tys \<longrightarrow> fd_count w = 1) \<and> (length tys = 6 \<longrightarrow> 24 \<le> length p)"
    using assms(1)
  proof (rule recreated_types)
    assume t: "tys = [ATNewId]"
    then have "sig = [ATNewId]" using assms(2) erased_cases(1) by simp
    then show ?thesis using assms(3) t by (auto simp: walk_signature_def walk_init_def advance_Inr split: sum.splits)
  next
    assume t: "tys = [ATNewId, ATObject AllowNullNo]"
    then obtain n where "sig = [ATNewId, ATObject n]" using assms(2) erased_cases(2) by auto
    then show ?thesis using assms(3) t by (auto simp: walk_signature_def walk_init_def advance_Inr split: sum.splits)
  next
    assume t: "tys = [ATNewId, ATFd, ATInt]"
    then have "sig = [ATNewId, ATFd, ATInt]" using assms(2) erased_cases(3) by simp
    then show ?thesis using assms(3) t by (auto simp: walk_signature_def walk_init_def advance_Inr split: sum.splits)
  next
    assume t: "tys = [ATNewId, ATInt, ATInt, ATInt, ATInt, ATUint]"
    then have "sig = [ATNewId, ATInt, ATInt, ATInt, ATInt, ATUint]" using assms(2) erased_cases(4) by simp
    then show ?thesis using assms(3) t by (auto simp: walk_signature_def walk_init_def advance_Inr split: sum.splits)
  qed
  then show "new_id_offset w = Some 0" "object_offsets w = (if ATObject AllowNullNo \<in> set tys then [4] else [])"
    "ATFd \<in> set tys \<Longrightarrow> fd_count w = 1" "length tys = 6 \<Longrightarrow> 24 \<le> length p"
    by simp_all
qed

lemma restored_append: "restored K (gr @ gr') = restored (restored K gr) gr'"
  by (induction K gr rule: restored.induct) auto

text \<open>What the relay writes down for such a request, pools apart, which it adds once the descriptor is known.\<close>

lemma words_read:
  assumes "24 \<le> length p"
  shows "\<exists>a b c d e. read_words en p [4, 8, 12, 16, 20] = Some [a, b, c, d, e]"
proof -
  have "read_u32 en p n \<noteq> None" if "n + 4 \<le> length p" for n using that by (simp add: read_u32_None_iff)
  then have "read_u32 en p 4 \<noteq> None" "read_u32 en p 8 \<noteq> None" "read_u32 en p 12 \<noteq> None" "read_u32 en p 16 \<noteq> None"
    "read_u32 en p 20 \<noteq> None" using assms by simp_all
  then show ?thesis by (auto simp: read_words_def)
qed

lemma capture_recreated:
  assumes "((i_name ctx, d_name ctx), tys) \<in> set recreated_requests" "d_name ctx \<noteq> ''create_pool''"
    and "length originals = (if ATObject AllowNullNo \<in> set tys then 1 else 0)"
    and "length tys = 6 \<Longrightarrow> HEADER_LEN + 24 \<le> length msg"
    and "T (mc_sender ctx) = Some (mc_iface ctx)" "T g = Some child" "offers (mc_iface ctx) (d_name ctx) tys child"
  obtains r planes where "capture_recipe en ctx msg 0 originals child g ps = (Some r, planes)"
    "parents r = mc_sender ctx # originals" "rebuildable T globals ri g r"
proof -
  have m: "makes T (mc_sender ctx) (d_name ctx) tys g" using assms(5-7) by (simp add: makes_def)
  have "\<exists>a b c d e. read_words en (drop HEADER_LEN msg) [4, 8, 12, 16, 20] = Some [a, b, c, d, e]" if "length tys = 6"
    using assms(4) [OF that] by (intro words_read) simp
  then show thesis
    using assms(1-3) m that
    by (auto simp: recreated_requests_def capture_recipe_def shm_buffer_recipe_def length_Suc_conv)
qed

lemma recreated_not_special:
  assumes "((i_name ctx, d_name ctx), tys) \<in> set recreated_requests"
  shows "\<not> rewrites_recipe ctx" "\<not> is_message ctx ''wl_display'' ''delete_id''"
    "d_name ctx = ''create_pool'' \<longleftrightarrow> is_message ctx ''wl_shm'' ''create_pool''"
    "is_message ctx ''wl_shm'' ''create_pool'' \<Longrightarrow> tys = [ATNewId, ATFd, ATInt]"
  using assms by (auto simp: recreated_requests_def rewrites_recipe_def is_message_def)

lemma recorded_creation:
  assumes r: "relay_message env ClientToHost h msg s = (Inr d, s')" and l: "HEADER_LEN \<le> length msg"
    and c: "resolve_context env ClientToHost (objects s) h = Some ctx"
    and k: "((i_name ctx, d_name ctx), tys) \<in> set recreated_requests"
    and ty: "takes_args (mc_desc ctx) tys" and ch: "child_interface (mc_desc ctx) = Some child"
    and op: "request_opcode (mc_iface ctx) (d_name ctx) = Some (opcode h)"
    and g: "g = word_at (endian env) msg HEADER_LEN" "g \<noteq> mc_sender ctx"
    and fd: "d_name ctx = ''create_pool'' \<Longrightarrow> read_fds (src s) \<noteq> []"
  shows "\<exists>r. graph s' = graph s @ [(g, r)] \<and> parents r = mc_sender ctx # named_objects (endian env) msg tys \<and>
    rebuildable (st_interface (objects s')) globals ri g r"
  using r
proof (rule relay_message_through)
  fix ctx' and walk :: signature_walk and m1 nw m2 s2 m3 s3 m4 s4
  let ?os = "original_object_values (endian env) msg (object_offsets walk)"
  assume c': "resolve_context env ClientToHost (objects s) h = Some ctx'"
    and w': "walk_signature (endian env) (drop HEADER_LEN msg) (signature (mc_desc ctx')) = Inr walk"
    and tr: "translate_objects (endian env) (translate_id env ClientToHost (objects s)) (object_offsets walk) msg = Inr m1"
    and nid': "map_new_id env ClientToHost ctx' walk ?os m1 s = (Inr (nw, m2), s2)"
    and del: "apply_delete_id env ClientToHost ctx' m2 s2 = (Inr m3, s3)"
    and obs: "observe_message env ClientToHost ctx' ?os nw m3 s3 = (Inr m4, s4)"
    and dlv: "deliver env ClientToHost ctx' walk nw m4 s4 = (Inr d, s')"
  have [simp]: "ctx' = ctx" using c c' by simp
  note special = recreated_not_special [OF k]
  have w: "walk_signature (endian env) (drop HEADER_LEN msg) (signature (mc_desc ctx)) = Inr walk" using w' by simp
  note walked = walk_recreated [OF k ty [unfolded takes_args_def] w]
  note sp = walk_spaced [OF w l]
  have wt: "words_translated (endian env) (translate_id env ClientToHost (objects s)) (object_offsets walk) msg m1"
    by (rule translate_objects_spec [OF tr sp(1)])
  then have len: "length m1 = length msg" by (simp add: words_translated_def)
  have g1: "word_at (endian env) m1 HEADER_LEN = g"
    using word_at_translated [OF wt, of 0] sp(2) [OF walked(1)] g(1) by simp
  have os: "?os = named_objects (endian env) msg tys"
    by (simp add: walked(2) original_object_values_def named_objects_def)
  from nid' have nid: "nw = Some g" "objects s2 = st_map (bim env) g (next_host_id (objects s)) child
      ((objects s)\<lparr>next_host_id := next_host_id (objects s) + 1\<rparr>)"
    "src s2 = src s" "s2 = record_new_recipe env ClientToHost ctx m1 0 ?os child g (s\<lparr>objects := objects s2\<rparr>)"
    by (rule map_new_idD; use walked(1) ch g1 in \<open>auto simp: resolve_child_interface_def\<close>)+
  have s3: "s3 = s2" using del special(2) by (simp add: apply_delete_id_other)
  have q: "quiet s3 s4" using obs by (rule keepsD [OF keeps_quiet_observe_client])
  have g4: "graph s4 = graph s2"
    using keepsD [OF observe_keeps_graph [of ctx] obs [simplified]] special(1) s3 by simp
  have o': "objects s' = objects s2" using deliver_objects [OF dlv] q s3 by (simp add: quiet_def)
  have T: "st_interface (objects s') (mc_sender ctx) = Some (mc_iface ctx)" "st_interface (objects s') g = Some child"
    using resolve_contextD(3) [OF c] g(2) by (simp_all add: o' nid(2) st_interface_def)
  have "mc_desc ctx = requests (mc_iface ctx) ! unat (opcode h)"
    using resolve_contextD(4) [OF c] by (auto simp: message_table_def desc_at_def split: if_splits)
  then have off: "offers (mc_iface ctx) (d_name ctx) tys child" using op ty ch by (simp add: offers_def)
  obtain fds msg' where gr: "graph s' = graph (retain_pool_fd env ClientToHost ctx walk (Some g) msg' fds s4)"
    "fds = take (fd_count walk) (read_fds (src s4))"
    using deliver_graph [OF dlv] nid(1) by auto
  show ?thesis
  proof (cases "d_name ctx = ''create_pool''")
    case True
    then have p: "is_message ctx ''wl_shm'' ''create_pool''" "tys = [ATNewId, ATFd, ATInt]" using special by simp_all
    have fds: "fds \<noteq> []" using gr(2) walked(3) fd [OF True] q nid(3) by (simp add: p(2) quiet_def s3)
    have "capture_recipe en ctx m1 0 os child g ps = (None, ps)" for en os ps
      using p(1) by (simp add: capture_recipe_def is_message_def)
    then have "graph s2 = graph s" by (subst nid(4)) (simp add: record_new_recipe_def)
    then show ?thesis
      using gr(1) fds p g4 T off True
      by (auto simp: retain_pool_fd_def Let_def record_recipe_def named_objects_def makes_def)
  next
    case False
    have np: "\<not> is_message ctx ''wl_shm'' ''create_pool''" using False special(3) by simp
    have ln: "length ?os = (if ATObject AllowNullNo \<in> set tys then 1 else 0)" by (simp add: os named_objects_def)
    have l6: "HEADER_LEN + 24 \<le> length m1" if "length tys = 6" using walked(4) [OF that] len by simp
    obtain r planes where cap: "capture_recipe (endian env) ctx m1 0 ?os child g (pending_dmabuf_planes s) = (Some r, planes)"
      "parents r = mc_sender ctx # ?os" "rebuildable (st_interface (objects s')) globals ri g r"
      by (rule capture_recreated [OF k False ln l6 T off])
    have "graph s2 = graph s @ [(g, r)]"
      by (subst nid(4)) (simp add: record_new_recipe_def cap(1) record_recipe_def)
    then show ?thesis using gr(1) np g4 cap(2,3) os by (auto simp: retain_pool_fd_def)
  qed
qed

text \<open>A dropped one leaves nothing: its recipe, if it got that far, is taken back with the object.\<close>

lemma keeps_graph_early:
  "keeps same_graph (resolve_message env dir h msg)" "keeps same_graph (walk_message env dir ctx msg)"
  "keeps same_graph (translate_arguments env dir ctx walk msg)"
  by (rule keepsI; auto simp: resolve_message_def walk_message_def translate_arguments_def drop_known_def go_def Let_def
      split: option.splits sum.splits)+

lemma answer_graph: "set (graph (answer_stale_sender env dir ctx new s)) \<subseteq> set (graph s)"
  by (auto simp: answer_stale_sender_def remove_recipes_def split: option.split)

lemma and_then_split:
  assumes "and_then m f s = (r, s')"
  obtains (stop) d where "m s = (Inl d, s')" "r = Inl d" | (on) a s1 where "m s = (Inr a, s1)" "f a s1 = (r, s')"
  using assms by (auto simp: and_then_def split: prod.splits sum.splits)

lemma new_id_graph:
  assumes "map_new_id env dir ctx walk os msg s = (r, s')"
  shows "graph s' = graph s \<or> (\<exists>g m x. r = Inr (Some g, m) \<and> graph s' = graph s @ [(g, x)])"
  using assms
  by (auto simp: map_new_id_def go_def drop_known_def Let_def record_new_recipe_def record_recipe_def
      split: option.splits prod.splits direction.splits if_splits)

lemma dropped_creation:
  assumes "relay_message env ClientToHost h msg s = (Inl d, s')" "resolve_context env ClientToHost (objects s) h = Some ctx"
    and nr: "\<not> rewrites_recipe ctx" "\<not> is_message ctx ''wl_display'' ''delete_id''"
  shows "set (graph s') \<subseteq> set (graph s)"
proof -
  have tail: "set (graph s') \<subseteq> set (graph s1)" if m: "map_new_id env ClientToHost ctx walk os m1 s1 = (Inr (new, m2), s2)"
      and t: "and_then (apply_delete_id env ClientToHost ctx m2) (\<lambda>m3. and_then (observe_message env ClientToHost ctx os new m3) (\<lambda>m4.
        deliver env ClientToHost ctx walk new m4)) s2 = (Inl d, s')" for walk os m1 s1 s2 new m2
  proof -
    have t2: "and_then (observe_message env ClientToHost ctx os new m2) (\<lambda>m4. deliver env ClientToHost ctx walk new m4) s2 = (Inl d, s')"
      using t by (simp add: and_then_def apply_delete_id_other [OF nr(2)])
    have g2: "graph s2 = graph s1 \<or> (\<exists>g x. new = Some g \<and> graph s2 = graph s1 @ [(g, x)])"
      using new_id_graph [OF m] by auto
    from t2 show ?thesis
    proof (rule and_then_split)
      fix m4 s4
      assume obs: "observe_message env ClientToHost ctx os new m2 s2 = (Inr m4, s4)" and dl: "deliver env ClientToHost ctx walk new m4 s4 = (Inl d, s')"
      have "graph s4 = graph s2" using keepsD [OF observe_keeps_graph [OF nr(1)] obs] by simp
      then have "set (graph (answer_stale_sender env ClientToHost ctx new s4)) \<subseteq> set (graph s2)" using answer_graph by metis
      then show ?thesis using deliver_stop [OF dl] g2
        by (auto simp: roll_back_new_id_def remove_recipes_def Let_def split: option.splits)
    next
      fix d' assume obs: "observe_message env ClientToHost ctx os new m2 s2 = (Inl d', s')"
      then show ?thesis using observe_message_stop [OF obs] by simp
    qed
  qed
  note early = keepsD [OF keeps_graph_early(1)] keepsD [OF keeps_graph_early(2)] keepsD [OF keeps_graph_early(3)]
  show ?thesis
    using assms(1) unfolding relay_message_def Let_def
    apply (elim and_then_split)
    subgoal by (auto dest!: early)
    subgoal by (auto dest!: early)
    subgoal by (auto dest!: early)
    subgoal by (auto dest!: early map_new_id_stop)
    subgoal using assms(2) by (clarsimp split: prod.splits dest!: resolve_messageD walk_messageD translate_argumentsD)
        (rule subsetD [OF tail], assumption+)
    done
qed

text \<open>A request on a sender the host does not know is not relayed.\<close>

lemma stale_not_relayed:
  assumes B: "bimap (bim env)" and r: "relay_message env ClientToHost h msg s = (Inr d, s')" and l: "HEADER_LEN \<le> length msg"
    and c: "resolve_context env ClientToHost (objects s) h = Some ctx" and ord: "\<not> is_message ctx ''wl_display'' ''delete_id''"
    and st: "host_id (bim env) (objects s) (mc_sender ctx) = None"
  shows "created_id env msg ctx = Some (mc_sender ctx)"
  using r
proof (rule relay_message_through)
  fix ctx' and walk :: signature_walk and m1 nw m2 s2 m3 s3 m4 s4
  let ?os = "original_object_values (endian env) msg (object_offsets walk)"
  assume c': "resolve_context env ClientToHost (objects s) h = Some ctx'"
    and w: "walk_signature (endian env) (drop HEADER_LEN msg) (signature (mc_desc ctx')) = Inr walk"
    and tr: "translate_objects (endian env) (translate_id env ClientToHost (objects s)) (object_offsets walk) msg = Inr m1"
    and nid: "map_new_id env ClientToHost ctx' walk ?os m1 s = (Inr (nw, m2), s2)"
    and del: "apply_delete_id env ClientToHost ctx' m2 s2 = (Inr m3, s3)"
    and obs: "observe_message env ClientToHost ctx' ?os nw m3 s3 = (Inr m4, s4)"
    and dlv: "deliver env ClientToHost ctx' walk nw m4 s4 = (Inr d, s')"
  have [simp]: "ctx' = ctx" using c c' by simp
  have o4: "objects s4 = objects s2"
    using keepsD [OF keeps_quiet_observe_client obs] del by (simp add: quiet_def apply_delete_id_other [OF ord])
  have "other_side_sender env ClientToHost (objects s4) (mc_sender ctx) \<noteq> None"
    using dlv by (auto simp: deliver_def readdress_def and_then_def split: option.splits)
  then have live: "host_id (bim env) (objects s2) (mc_sender ctx) \<noteq> None" by (simp add: other_side_sender_def o4)
  from nid have "nw = Some (mc_sender ctx)"
  proof (rule map_new_idD)
    fix off child v
    let ?g = "word_at (endian env) m1 (HEADER_LEN + off)"
    assume n: "nw = Some ?g"
      and o: "objects s2 = st_map (bim env) ?g (next_host_id (objects s)) child ((objects s)\<lparr>next_host_id := next_host_id (objects s) + 1\<rparr>)"
    show ?thesis
    proof (cases "?g = mc_sender ctx")
      case False
      then show ?thesis using live st
        by (simp add: o bimap.host_id_st_map_other [OF B] bimap.host_id_cong [OF B] split: if_splits)
    qed (use n in simp)
  qed (use live st in simp_all)
  then show ?thesis using new_id_created [OF w l tr nid] by simp
qed

lemma stale_creation_stops:
  assumes "bimap (bim env)" "relay_message env ClientToHost h msg s = (Inr d, s')" "HEADER_LEN \<le> length msg"
    and "resolve_context env ClientToHost (objects s) h = Some ctx"
    and k: "((i_name ctx, d_name ctx), tys) \<in> set recreated_requests" "takes_args (mc_desc ctx) tys"
    and st: "host_id (bim env) (objects s) (mc_sender ctx) = None"
  shows "word_at (endian env) msg HEADER_LEN = mc_sender ctx"
proof -
  have "created_id env msg ctx = Some (mc_sender ctx)"
    using stale_not_relayed [OF assms(1-4) recreated_not_special(2) [OF k(1)] st] .
  then obtain walk n where w: "walk_signature (endian env) (drop HEADER_LEN msg) (signature (mc_desc ctx)) = Inr walk"
    "new_id_offset walk = Some n" "word_at (endian env) msg (HEADER_LEN + n) = mc_sender ctx"
    by (auto simp: created_id_def split: sum.splits)
  then show ?thesis using walk_recreated(1) [OF k(1) k(2) [unfolded takes_args_def] w(1)] by simp
qed

section \<open>No recipe without its object\<close>

definition recipes_known :: "('b, 'm) session_scheme \<Rightarrow> bool" where
  "recipes_known s \<longleftrightarrow> (\<forall>g r. (g, r) \<in> set (graph s) \<longrightarrow> st_interface (objects s) g \<noteq> None)"

lemma recipes_known_ids: "recipes_known s \<longleftrightarrow> (\<forall>g \<in> set (map fst (graph s)). st_interface (objects s) g \<noteq> None)"
  by (auto simp: recipes_known_def)

text \<open>A phase that leaves the recorded ids and the interfaces alone.\<close>

definition same_known :: "'b relay_state \<Rightarrow> 'b relay_state \<Rightarrow> bool" where
  "same_known s s' \<longleftrightarrow> map fst (graph s') = map fst (graph s) \<and> st_interface (objects s') = st_interface (objects s)"

interpretation same_known: framing "same_known :: 'b relay_state \<Rightarrow> _ \<Rightarrow> bool"
  by unfold_locales (simp_all add: same_known_def)

lemma same_known_known: "same_known s s' \<Longrightarrow> recipes_known s' = recipes_known s"
  by (simp add: same_known_def recipes_known_ids)

lemma keeps_known_drop: "keeps same_known (drop_known env dir ctx msg d)"
  by (simp add: keeps_def drop_known_def same_known_def)

lemma keeps_known_early:
  "keeps same_known (resolve_message env dir h msg)" "keeps same_known (walk_message env dir ctx msg)"
  "keeps same_known (translate_arguments env dir ctx walk msg)"
proof -
  show "keeps same_known (resolve_message env dir h msg)"
    by (rule keepsI) (auto simp: resolve_message_def same_known_def split: option.splits)
  show "keeps same_known (walk_message env dir ctx msg)"
    by (auto simp: walk_message_def same_known.keeps_go keeps_known_drop split: sum.splits)
  show "keeps same_known (translate_arguments env dir ctx walk msg)"
    using keepsD [OF keeps_known_drop]
    by (intro keepsI) (auto simp: translate_arguments_def Let_def same_known.stay split: sum.splits)
qed

lemma keeps_known_observe:
  fixes env :: "'b env"
  shows "keeps same_known (observe_message env dir ctx originals new_guest msg)"
proof -
  have o: "objects (observe_grabs env dir ctx m s) = objects s" "objects (observe_buffers dir ctx os s) = objects s"
    "objects (observe_callbacks dir ctx new s) = objects s" for m os new and s :: "'b relay_state"
    by (rule quiet_observers [unfolded quiet_def, THEN conjunct1])+
  have r: "same_known s (maybe_reclaim env dir ctx m s)" for m and s :: "'b relay_state"
    using maybe_reclaim_writes [of s env dir ctx m] by (auto simp: only_writes_def same_known_def fun_eq_iff st_interface_def)
  have t: "keeps same_known (observe_toplevel env dir ctx m)" for m
    by (rule keepsI) (auto simp: observe_toplevel_def same_known_def update_toplevel_title_def update_toplevel_app_id_def
        split: if_splits option.splits)
  have u: "same_known s (observe_resize env dir ctx m s)" "same_known s (observe_destination env dir ctx m s)"
    for m and s :: "'b relay_state"
    by (simp_all add: observe_resize_def observe_destination_def same_known_def update_shm_pool_size_def
        update_viewport_destination_def split: option.split list.split)
  have d: "keeps same_known (drop_stale_release env dir ctx m)" for m
    using keepsD [OF keeps_known_drop] by (intro keepsI) (auto simp: drop_stale_release_def same_known.stay split: if_splits)
  show ?thesis unfolding observe_message_def
    by (intro same_known.keeps_and_then same_known.keeps_modify same_known.keeps_go t u r d)
      (simp_all add: same_known_def observers_graph o)
qed

text \<open>The phases that change both sides change them together.\<close>

lemma known_record: "recipes_known s \<Longrightarrow> st_interface (objects s) g \<noteq> None \<Longrightarrow>
    recipes_known (s\<lparr>graph := record_recipe g r (graph s)\<rparr>)"
  by (auto simp: recipes_known_def record_recipe_def)

lemma known_forget: "recipes_known s \<Longrightarrow> recipes_known (s\<lparr>objects := remove_guest B g (objects s), graph := remove_recipes g (graph s)\<rparr>)"
  by (auto simp: recipes_known_def remove_recipes_def)

lemma interface_updates [simp]:
  "st_interface (t\<lparr>next_guest_server_id := n\<rparr>) g = st_interface t g" "st_interface (remember_unresolvable_interface k nm t) g = st_interface t g"
  "st_interface (t\<lparr>next_host_id := m\<rparr>) g = st_interface t g" "st_interface (unallocate_host_id h t) g = st_interface t g"
  by (simp_all add: st_interface_def)

lemma known_recorded [simp]: "recipes_known (record_message env dir d i m sid opc n msg s) = recipes_known s"
  by (simp add: recipes_known_def)

lemma known_new_id:
  assumes "map_new_id env dir ctx walk os msg s = (r, s')" "recipes_known s"
  shows "recipes_known s'" "r = Inr (Some g, m) \<Longrightarrow> st_interface (objects s') g \<noteq> None"
proof -
  have "recipes_known s' \<and> (r = Inr (Some g, m) \<longrightarrow> st_interface (objects s') g \<noteq> None)"
    using assms
    by (auto simp: map_new_id_def go_def drop_known_def Let_def recipes_known_def record_new_recipe_def record_recipe_def
        new_id_pair_def allocate_host_id_def allocate_guest_server_id_def
        split: option.splits prod.splits direction.splits if_splits) blast+
  then show "recipes_known s'" "r = Inr (Some g, m) \<Longrightarrow> st_interface (objects s') g \<noteq> None" by simp_all
qed

lemma known_delete_id:
  "apply_delete_id env dir ctx msg s = (r, s') \<Longrightarrow> recipes_known s \<Longrightarrow> recipes_known s'"
  by (auto simp: apply_delete_id_def drop_known_def known_forget split: if_splits option.splits)

lemma known_roll_back: "recipes_known s \<Longrightarrow> recipes_known (roll_back_new_id env dir g s)"
  by (auto simp: roll_back_new_id_def recipes_known_def remove_recipes_def Let_def split: option.splits)

lemma known_answer: "recipes_known s \<Longrightarrow> recipes_known (answer_stale_sender env dir ctx g s)"
  by (auto simp: answer_stale_sender_def recipes_known_def remove_recipes_def split: option.splits)

lemma deliver_known:
  assumes d: "deliver env dir ctx walk new msg s = (r, s')" and k: "recipes_known s"
    and n: "\<And>g. new = Some g \<Longrightarrow> is_message ctx ''wl_shm'' ''create_pool'' \<Longrightarrow> st_interface (objects s) g \<noteq> None"
  shows "recipes_known s'"
proof (cases r)
  case (Inr a)
  obtain fds msg' where g: "graph s' = graph (retain_pool_fd env dir ctx walk new msg' fds s)"
    using deliver_graph d Inr by metis
  have "objects s' = objects s" using deliver_objects d Inr by metis
  then show ?thesis
    using g k n by (auto simp: recipes_known_def retain_pool_fd_def record_recipe_def Let_def split: option.splits if_splits)
next
  case (Inl a)
  then have "s' = roll_back_new_id env dir new (answer_stale_sender env dir ctx new s)"
    using deliver_stop d by metis
  then show ?thesis using known_roll_back [OF known_answer [OF k]] by simp
qed

lemma relay_known:
  assumes "relay_message env dir h msg s = (r, s')" and k: "recipes_known s"
  shows "recipes_known s'"
proof -
  have tail: "recipes_known s'" if m: "map_new_id env dir ctx walk os m1 s1 = (Inr (new, m2), s2)"
      and t: "and_then (apply_delete_id env dir ctx m2) (\<lambda>m3. and_then (observe_message env dir ctx os new m3) (\<lambda>m4.
        deliver env dir ctx walk new m4)) s2 = (r, s')"
      and k1: "recipes_known s1" for ctx walk os m1 s1 s2 new m2
  proof -
    note k2 = known_new_id(1) [OF m k1]
    have new: "st_interface (objects s2) g \<noteq> None" if "new = Some g" for g
      using known_new_id(2) [OF m k1] that by blast
    from t show ?thesis
    proof (rule and_then_split)
      fix m3 s3
      assume del: "apply_delete_id env dir ctx m2 s2 = (Inr m3, s3)"
        and t3: "and_then (observe_message env dir ctx os new m3) (\<lambda>m4. deliver env dir ctx walk new m4) s3 = (r, s')"
      note k3 = known_delete_id [OF del k2]
      have n3: "s3 = s2" if "is_message ctx ''wl_shm'' ''create_pool''"
        using del that by (simp add: apply_delete_id_def is_message_def)
      from t3 show ?thesis
      proof (rule and_then_split)
        fix m4 s4
        assume obs: "observe_message env dir ctx os new m3 s3 = (Inr m4, s4)" and d: "deliver env dir ctx walk new m4 s4 = (r, s')"
        have q: "same_known s3 s4" by (rule keepsD [OF keeps_known_observe obs])
        show ?thesis
        proof (rule deliver_known [OF d])
          show "recipes_known s4" using k3 same_known_known [OF q] by simp
          show "st_interface (objects s4) g \<noteq> None" if "new = Some g" "is_message ctx ''wl_shm'' ''create_pool''" for g
            using new [OF that(1)] n3 [OF that(2)] q by (simp add: same_known_def)
        qed
      next
        fix d assume "observe_message env dir ctx os new m3 s3 = (Inl d, s')"
        from keepsD [OF keeps_known_observe this] k3 show ?thesis by (simp add: same_known_known)
      qed
    next
      fix d assume "apply_delete_id env dir ctx m2 s2 = (Inl d, s')"
      then show ?thesis using k2 by (rule known_delete_id)
    qed
  qed
  note early = keepsD [OF keeps_known_early(1)] keepsD [OF keeps_known_early(2)] keepsD [OF keeps_known_early(3)]
  show ?thesis
    using assms(1) unfolding relay_message_def Let_def
    apply (elim and_then_split)
    subgoal using k by (auto dest!: early same_known_known)
    subgoal using k by (auto dest!: early same_known_known)
    subgoal using k by (auto dest!: early same_known_known)
    subgoal using k by (auto dest!: early same_known_known intro: known_new_id(1))
    subgoal using k by (clarsimp split: prod.splits) (rule tail, assumption, assumption, auto dest!: early same_known_known)
    done
qed

lemma known_synthetic: "recipes_known (handle_synthetic_clipboard_event env msg opc s) = recipes_known s" for s :: "'b relay_state"
  by (simp add: recipes_known_def)

lemma process_known: "process_message env dir msg s = (d, s') \<Longrightarrow> recipes_known s \<Longrightarrow> recipes_known s'"
  by (erule process_message_cases) (simp_all add: known_synthetic relay_known)

lemma relay_pass_known: "recipes_known s \<longrightarrow> recipes_known (relay_ready_messages env dir s)"
proof (rule relay_ready_messages_frame [where R = "\<lambda>s s'. recipes_known s \<longrightarrow> recipes_known s'"])
  show "framing (\<lambda>s s'. recipes_known (s :: 'a relay_state) \<longrightarrow> recipes_known s')" by (rule framing_preserve)
  show "recipes_known s \<longrightarrow> recipes_known s'" if "relay_step env dir s = Some (d, s')" for s d s'
  proof
    assume k: "recipes_known s"
    from that obtain m n sp where pr: "process_message env dir (take n (read_buf (src s))) s = (d, sp)" and s': "s' = drain_input n sp"
      by (auto simp: relay_step_def split: option.splits prod.splits)
    show "recipes_known s'" using process_known [OF pr k] by (simp add: s' drain_input_def recipes_known_def)
  qed
qed

section \<open>Across a connection\<close>

lemma known_recovering: "recovering K s s' \<Longrightarrow> recipes_known s \<Longrightarrow> recipes_known s'"
  by (auto simp: recovering_def recipes_known_def)

lemma known_relay_from:
  "recipes_known p \<Longrightarrow> recipes_known (relay_from_client env p)" "recipes_known p \<Longrightarrow> recipes_known (relay_from_host env p)"
  using relay_pass_known [of "to_relay p (gtk p) (if frozen p then None else Some (host p))" env ClientToHost]
    relay_pass_known [of "to_relay p (host p) (Some (gtk p))" env HostToClient]
  by (simp_all add: relay_from_client_def relay_from_host_def Let_def recipes_known_def)

lemma known_reconnect:
  assumes "recipes_known p"
  shows "recipes_known (proxy_of (reconnect env c p))"
proof -
  obtain r p' where r: "recover_state_after_reconnect env (begin_recovery env c p) = (r, p')"
    "reconnect env c p = (case r of Inr _ \<Rightarrow> Running (finish_recovery env p') | Inl RecoveryFailed \<Rightarrow> Running p'
      | Inl RecoveryPanicked \<Rightarrow> Panicked p' | Inl RecoveryWaiting \<Rightarrow> Hung p')"
    by (rule reconnect_cases)
  have "recipes_known (begin_recovery env c p)"
    using assms by (auto simp: recipes_known_def begin_recovery_def st_interface_def)
  then have "recipes_known p'" by (rule known_recovering [OF recovering_recover [OF r(1)]])
  then show ?thesis by (auto simp: r(2) recipes_known_def split: sum.split recovery_stop.split)
qed

lemma known_step: "session_step env l s s' \<Longrightarrow> recipes_known (proxy_of s) \<Longrightarrow> recipes_known (proxy_of s')"
  by (cases rule: session_step.cases, assumption)
    (auto simp: known_reconnect intro!: known_relay_from, auto simp: recipes_known_def finish_task_def)

lemma reachable_known: "reachable env n s \<Longrightarrow> recipes_known (proxy_of s)"
proof (induction rule: reachable.induct)
  case start
  then show ?case by (simp add: session_new_def recipes_known_def graph_new_def)
qed (rule known_step)

end
