(* ===== verification/Server.thy ===== *)
theory Server
  imports SessionFacts
begin

text \<open>
  \<open>src/main.rs\<close>: the process around the connections. \<open>bind_listener\<close> makes the public socket, once at
  the start and again on \<open>SIGUSR1\<close>; the accept loop spawns a task for each client, which connects
  to the compositor and runs \<open>run_connection\<close>. The tasks share one clipboard cache. The file system
  is the owner of the public name; the environment may take the name away at any time, as a
  restarting compositor does. Shown: whatever happens to the listener, each client's connection is
  one that \<open>Session\<close> describes; the name never leads to a listener that is gone; the clipboard keeps
  what it has when clients quit.
\<close>

section \<open>Binding the public name\<close>

datatype name_owner = Nobody | Ours nat | Foreign

datatype bind_error = RemoveFailed | BindFailed

text \<open>\<open>fresh\<close> is the listener that a successful bind makes; the value includes who has the name then.\<close>

definition bind_listener :: "bool \<Rightarrow> bool \<Rightarrow> nat \<Rightarrow> name_owner \<Rightarrow> (bind_error + nat) \<times> name_owner" where
  "bind_listener removes binds fresh owner =
    (if owner \<noteq> Nobody \<and> \<not> removes then (Inl RemoveFailed, owner)
     else if \<not> binds then (Inl BindFailed, Nobody)
     else (Inr fresh, Ours fresh))"

section \<open>The process\<close>

text \<open>A client's task: connecting to the compositor, serving, or over because the connect failed.\<close>

datatype 'b client_task = Connecting conn | Serving "'b status" | Refused

record 'b client =
  peer_pid :: "int option"
  client_task :: "'b client_task"

record 'b server =
  listener :: nat
  next_listener :: nat
  public_name :: name_owner
  clipboard :: clipboard_cache
  clients :: "'b client list"

definition server_start :: "bool \<Rightarrow> bool \<Rightarrow> name_owner \<Rightarrow> bind_error + 'b server" where
  "server_start removes binds owner =
    (case bind_listener removes binds 0 owner of
       (Inl e, _) \<Rightarrow> Inl e
     | (Inr l, owner) \<Rightarrow> Inr \<lparr>listener = l, next_listener = 1, public_name = owner, clipboard = cache_new, clients = []\<rparr>)"

text \<open>\<open>listener.accept()\<close>: the peer's process id and its stream, or an error that is only logged.\<close>

definition accept_client :: "(int option \<times> conn) option \<Rightarrow> 'b server \<Rightarrow> 'b server" where
  "accept_client accepted sv =
    (case accepted of
       None \<Rightarrow> sv
     | Some (pid, gtk_stream) \<Rightarrow> sv\<lparr>clients := clients sv @ [\<lparr>peer_pid = pid, client_task = Connecting gtk_stream\<rparr>]\<rparr>)"

text \<open>\<open>SIGUSR1\<close>.\<close>

definition rebind :: "bool \<Rightarrow> bool \<Rightarrow> 'b server \<Rightarrow> 'b server" where
  "rebind removes binds sv =
    (case bind_listener removes binds (next_listener sv) (public_name sv) of
       (Inr l, owner) \<Rightarrow> sv\<lparr>listener := l, next_listener := next_listener sv + 1, public_name := owner\<rparr>
     | (Inl _, owner) \<Rightarrow> sv\<lparr>public_name := owner\<rparr>)"

text \<open>The environment of one connection.\<close>

definition env_of :: "'b env \<Rightarrow> int option \<Rightarrow> 'b env" where
  "env_of env pid = env\<lparr>client_pid := pid\<rparr>"

definition connect_client :: "'b env \<Rightarrow> conn option \<Rightarrow> nat \<Rightarrow> 'b server \<Rightarrow> 'b server" where
  "connect_client env connected i sv =
    (case client_task (clients sv ! i) of
       Connecting gtk_stream \<Rightarrow>
         let t = (case connected of
                    None \<Rightarrow> Refused
                  | Some host_stream \<Rightarrow>
                      Serving (Running (session_new (env_of env (peer_pid (clients sv ! i))) (clipboard sv) gtk_stream host_stream)))
         in sv\<lparr>clients := (clients sv)[i := (clients sv ! i)\<lparr>client_task := t\<rparr>]\<rparr>
     | _ \<Rightarrow> sv)"

text \<open>A connection works on the shared cache.\<close>

fun with_cache :: "clipboard_cache \<Rightarrow> 'b status \<Rightarrow> 'b status" where
  "with_cache c (Running p) = Running (p\<lparr>cache := c\<rparr>)"
| "with_cache c s = s"

fun cache_left :: "clipboard_cache \<Rightarrow> 'b status \<Rightarrow> clipboard_cache" where
  "cache_left c (Running p) = cache p"
| "cache_left c s = c"

definition serve :: "nat \<Rightarrow> 'b status \<Rightarrow> 'b server \<Rightarrow> 'b server" where
  "serve i s sv = sv\<lparr>clients := (clients sv)[i := (clients sv ! i)\<lparr>client_task := Serving s\<rparr>], clipboard := cache_left (clipboard sv) s\<rparr>"

datatype server_label = Accept | Rebind | NameLost | Connect nat | Serve nat label | LateTask nat

text \<open>The tasks of a connection that is over still run: \<open>late_task\<close>.\<close>

inductive server_step :: "'b env \<Rightarrow> server_label \<Rightarrow> 'b server \<Rightarrow> 'b server \<Rightarrow> bool" for env :: "'b env" where
  accepted: "server_step env Accept sv (accept_client (map_option (\<lambda>(pid, rs, ss). (pid, conn_new rs ss)) peer) sv)"
| rebound: "server_step env Rebind sv (rebind removes binds sv)"
| name_lost: "owner = Nobody \<or> owner = Foreign \<Longrightarrow> server_step env NameLost sv (sv\<lparr>public_name := owner\<rparr>)"
| connected: "i < length (clients sv) \<Longrightarrow>
    server_step env (Connect i) sv (connect_client env (map_option (\<lambda>(rs, ss). conn_new rs ss) host_stream) i sv)"
| served: "i < length (clients sv) \<Longrightarrow> client_task (clients sv ! i) = Serving s \<Longrightarrow> l \<noteq> CacheShared \<Longrightarrow>
    session_step (env_of env (peer_pid (clients sv ! i))) l (with_cache (clipboard sv) s) s' \<Longrightarrow>
    server_step env (Serve i l) sv (serve i s' sv)"
| late_task: "i < length (clients sv) \<Longrightarrow> client_task (clients sv ! i) = Serving (Closed p) \<Longrightarrow> t \<in> set (tasks p) \<Longrightarrow>
    server_step env (LateTask i) sv (sv\<lparr>clipboard := cache (finish_task t script (p\<lparr>cache := clipboard sv\<rparr>))\<rparr>)"

inductive server_run :: "'b env \<Rightarrow> 'b server \<Rightarrow> bool" for env :: "'b env" where
  started: "server_start removes binds owner = Inr sv \<Longrightarrow> server_run env sv"
| stepped: "server_run env sv \<Longrightarrow> server_step env l sv sv' \<Longrightarrow> server_run env sv'"

section \<open>What a recovery tells the user\<close>

text \<open>\<open>src/notify.rs\<close>: the text of the notification; \<open>comm\<close> is \<open>/proc/<pid>/comm\<close>. Sending it is a call of
  another service and changes nothing here.\<close>

definition process_name :: "(int \<Rightarrow> byte list option) \<Rightarrow> int \<Rightarrow> string option" where
  "process_name comm pid = map_option trim_str (Option.bind (comm pid) from_utf8)"

definition notification_body :: "(int \<Rightarrow> byte list option) \<Rightarrow> int option \<Rightarrow> string" where
  "notification_body comm pid =
    (case Option.bind pid (process_name comm) of
       Some name \<Rightarrow> name @ '' reconnected after the compositor restarted.''
     | None \<Rightarrow> ''A client reconnected after the compositor restarted.'')"

section \<open>Each client has a connection of its own\<close>

definition fresh_conn :: "conn \<Rightarrow> bool" where
  "fresh_conn c \<longleftrightarrow> (\<exists>rs ss. c = conn_new rs ss)"

definition serves_sessions :: "'b env \<Rightarrow> 'b server \<Rightarrow> bool" where
  "serves_sessions env sv \<longleftrightarrow> (\<forall>cl \<in> set (clients sv).
     case client_task cl of
       Connecting c \<Rightarrow> fresh_conn c
     | Serving s \<Rightarrow> \<exists>n. reachable (env_of env (peer_pid cl)) n s
     | Refused \<Rightarrow> True)"

lemma reachable_with_cache: "reachable env n s \<Longrightarrow> reachable env n (with_cache c s)"
proof (cases s)
  case (Running p)
  then show "reachable env n s \<Longrightarrow> ?thesis"
    using reachable.move [of env n "Running p" CacheShared "Running (p\<lparr>cache := c\<rparr>)"] session_step.cache_shared [of env p c] by simp
qed simp_all

lemma serves_update:
  assumes "serves_sessions env sv" "i < length (clients sv)"
    "case t of Connecting c \<Rightarrow> fresh_conn c | Serving s \<Rightarrow> \<exists>n. reachable (env_of env (peer_pid (clients sv ! i))) n s
      | Refused \<Rightarrow> True"
  shows "serves_sessions env (sv\<lparr>clients := (clients sv)[i := (clients sv ! i)\<lparr>client_task := t\<rparr>]\<rparr>)"
  using assms by (cases t; auto simp: serves_sessions_def dest!: set_update_subset_insert [THEN subsetD])

lemma serves_sessions_step:
  assumes "serves_sessions env sv" "server_step env l sv sv'"
  shows "serves_sessions env sv'"
  using assms(2)
proof cases
  case (accepted peer)
  then show ?thesis using assms(1) by (auto simp: accept_client_def serves_sessions_def fresh_conn_def split: option.split)
next
  case (rebound removes binds)
  then show ?thesis using assms(1) by (auto simp: rebind_def serves_sessions_def split: prod.split sum.split)
next
  case (connected i host_stream)
  show ?thesis
  proof (cases "client_task (clients sv ! i)")
    case (Connecting c)
    obtain rs ss where "c = conn_new rs ss"
      using assms(1) connected(3) Connecting by (fastforce simp: serves_sessions_def fresh_conn_def dest: nth_mem)
    then show ?thesis using connected Connecting assms(1)
      by (auto simp: connect_client_def Let_def intro!: serves_update reachable.start split: option.split)
  qed (use connected assms(1) in \<open>auto simp: connect_client_def\<close>)
next
  case (served i s k s')
  obtain n where "reachable (env_of env (peer_pid (clients sv ! i))) n s"
    using assms(1) served(3,4) by (fastforce simp: serves_sessions_def dest: nth_mem)
  then have "\<exists>n. reachable (env_of env (peer_pid (clients sv ! i))) n s'"
    using reachable_with_cache served(6) reachable.move by metis
  then have "serves_sessions env (sv\<lparr>clients := (clients sv)[i := (clients sv ! i)\<lparr>client_task := Serving s'\<rparr>]\<rparr>)"
    using assms(1) served(3) by (intro serves_update) auto
  then show ?thesis by (simp add: served(2) serve_def serves_sessions_def)
qed (use assms(1) in \<open>simp_all add: serves_sessions_def\<close>)

lemma serves_sessions_run: "server_run env sv \<Longrightarrow> serves_sessions env sv"
proof (induction rule: server_run.induct)
  case (started removes binds owner sv)
  then show ?case by (auto simp: server_start_def serves_sessions_def split: prod.splits sum.splits)
qed (rule serves_sessions_step)

section \<open>The public name\<close>

text \<open>The name leads to the listener in use, to a stranger or nowhere; and a listener is never used twice.\<close>

definition name_ok :: "'b server \<Rightarrow> bool" where
  "name_ok sv \<longleftrightarrow> (\<forall>l. public_name sv = Ours l \<longrightarrow> l = listener sv) \<and> listener sv < next_listener sv"

lemma connect_client_fields [simp]:
  "listener (connect_client env c i sv) = listener sv" "next_listener (connect_client env c i sv) = next_listener sv"
  "public_name (connect_client env c i sv) = public_name sv" "clipboard (connect_client env c i sv) = clipboard sv"
  by (simp_all add: connect_client_def Let_def split: client_task.split)

lemma name_ok_step: "server_step env l sv sv' \<Longrightarrow> name_ok sv \<Longrightarrow> name_ok sv'"
  by (cases rule: server_step.cases, assumption)
    (auto simp: name_ok_def accept_client_def rebind_def bind_listener_def serve_def split: option.splits)

lemma name_ok_run: "server_run env sv \<Longrightarrow> name_ok sv"
proof (induction rule: server_run.induct)
  case (started removes binds owner sv)
  then show ?case by (auto simp: server_start_def bind_listener_def name_ok_def split: if_splits)
qed (rule name_ok_step)

lemma rebind_keeps:
  "clients (rebind removes binds sv) = clients sv" "clipboard (rebind removes binds sv) = clipboard sv"
  by (simp_all add: rebind_def split: prod.split sum.split)

section \<open>The clipboard outlives its owner\<close>

text \<open>A pass, a recovery and a lost connection leave the cache alone.\<close>

lemma relay_from_cache [simp]: "cache (relay_from_client env p) = cache p" "cache (relay_from_host env p) = cache p"
  using same_cache.pass [of "to_relay p (gtk p) (if frozen p then None else Some (host p))" env ClientToHost]
    same_cache.pass [of "to_relay p (host p) (Some (gtk p))" env HostToClient]
  by (simp_all add: relay_from_client_def relay_from_host_def Let_def same_cache_def)

lemma reconnect_cache: "reconnect env c p = Running p' \<Longrightarrow> cache p' = cache p"
proof -
  assume r: "reconnect env c p = Running p'"
  obtain q p1 where q: "recover_state_after_reconnect env (begin_recovery env c p) = (q, p1)"
    "reconnect env c p = (case q of Inr _ \<Rightarrow> Running (finish_recovery env p1) | Inl RecoveryFailed \<Rightarrow> Running p1
      | Inl RecoveryPanicked \<Rightarrow> Panicked p1 | Inl RecoveryWaiting \<Rightarrow> Hung p1)"
    by (rule reconnect_cases)
  have "cache p1 = cache p" using recovering_recover [OF q(1)] by (simp add: recovering_def begin_recovery_def)
  then show "cache p' = cache p" using q(2) r
    by (auto simp: finish_recovery_def synthesize_grab_releases_def Let_def split: sum.splits recovery_stop.splits)
qed

lemma reconnect_cache_left [simp]: "cache_left (cache p) (reconnect env c p) = cache p"
  by (cases "reconnect env c p") (auto dest: reconnect_cache)

text \<open>Only a finished pump writes the cache.\<close>

lemma task_cache: "cache (finish_task t script p) = cache p \<or> (\<exists>mime bs. cache (finish_task t script p) = cache_store mime bs (cache p))"
  by (cases t) (auto simp: finish_task_def, metis cache_after_pump.elims)

lemma step_cache:
  "session_step env l (Running p) s' \<Longrightarrow> l \<noteq> CacheShared \<Longrightarrow>
   cache_left (cache p) s' = cache p \<or> (\<exists>mime bs. cache_left (cache p) s' = cache_store mime bs (cache p))"
  by (elim session_step_RunningE) (simp_all add: task_cache)

lemma clipboard_step:
  assumes "server_step env l sv sv'"
  shows "clipboard sv' = clipboard sv \<or> (\<exists>mime bs. clipboard sv' = cache_store mime bs (clipboard sv))"
  using assms
proof cases
  case (served i s k s')
  then show ?thesis
  proof (cases s)
    case (Running p)
    then show ?thesis using step_cache [of "env_of env (peer_pid (clients sv ! i))" k "p\<lparr>cache := clipboard sv\<rparr>" s'] served
      by (simp add: serve_def)
  qed simp_all
next
  case (late_task i p t script)
  then show ?thesis using task_cache [of t script "p\<lparr>cache := clipboard sv\<rparr>"] by simp
qed (auto simp: accept_client_def rebind_keeps split: option.split)

inductive server_steps :: "'b env \<Rightarrow> 'b server \<Rightarrow> 'b server \<Rightarrow> bool" for env :: "'b env" where
  none: "server_steps env sv sv"
| more: "server_steps env sv sv1 \<Longrightarrow> server_step env l sv1 sv2 \<Longrightarrow> server_steps env sv sv2"

lemma clipboard_keeps:
  "server_steps env sv sv' \<Longrightarrow> cache_get (clipboard sv) mime \<noteq> None \<Longrightarrow> cache_get (clipboard sv') mime \<noteq> None"
  by (induction rule: server_steps.induct) (auto dest: clipboard_step)

end
