(* ===== verification/Handoff.thy ===== *)
theory Handoff
  imports DesktopApps
begin

text \<open>
  \<open>src/bin/socket-handoff.rs\<close>: the helper that takes the compositor's fresh socket away under its
  public name while the compositor is held still. Everything the kernel answers in one round of a
  polling loop is a record; the rounds are an infinite sequence, so a loop that never ended would
  be \<^const>\<open>None\<close>. What the helper does to the target, and what it learns of it, is logged; the
  specification replays the log on the states of a ptrace tracee (\<open>tracee_after\<close>). Shown: the
  rename happens only while the tracee is stopped at the return of its own \<open>bind\<close>; every path out
  of the tracer leaves the tracee detached or dead; signals are passed on; both loops end by the
  deadline.
\<close>

section \<open>Polling until a deadline\<close>

partial_function (option) poll_rounds :: "('r \<Rightarrow> 't \<Rightarrow> 'a option \<times> 't) \<Rightarrow> (nat \<Rightarrow> 'r) \<Rightarrow> nat \<Rightarrow> 't \<Rightarrow> ('a \<times> 't) option" where
  "poll_rounds step rounds n t =
    (case step (rounds n) t of
       (Some r, t') \<Rightarrow> Some (r, t')
     | (None, t') \<Rightarrow> poll_rounds step rounds (Suc n) t')"

text \<open>An invariant of the rounds that go on reaches the round that stops.\<close>

lemma poll_rounds_invariant:
  assumes "poll_rounds step rounds n t = Some (r, t')" "I t"
    and "\<And>n t t'. I t \<Longrightarrow> step (rounds n) t = (None, t') \<Longrightarrow> I t'"
  obtains m u where "I u" "step (rounds m) u = (Some r, t')"
proof -
  let ?P = "\<lambda>step rounds n t x. \<forall>I. I t \<longrightarrow> (\<forall>n t t'. I t \<longrightarrow> step (rounds n) t = (None, t') \<longrightarrow> I t') \<longrightarrow>
    (\<exists>m u. I u \<and> step (rounds m) u = (Some (fst x), snd x))"
  have "?P step rounds n t (r, t')"
  proof (rule poll_rounds.raw_induct [where P = ?P, OF _ assms(1)])
    fix loop :: "('r \<Rightarrow> 't \<Rightarrow> 'a option \<times> 't) \<Rightarrow> (nat \<Rightarrow> 'r) \<Rightarrow> nat \<Rightarrow> 't \<Rightarrow> ('a \<times> 't) option" and step rounds n t x
    assume IH: "\<And>step rounds n t x. loop step rounds n t = Some x \<Longrightarrow> ?P step rounds n t x"
      and x: "(case step (rounds n) t of (Some r, t') \<Rightarrow> Some (r, t') | (None, t') \<Rightarrow> loop step rounds (Suc n) t') = Some x"
    obtain o1 t1 where st: "step (rounds n) t = (o1, t1)" by fastforce
    show "?P step rounds n t x"
    proof (cases o1)
      case None
      then show ?thesis using IH [of step rounds "Suc n" t1 x] x st by (metis (no_types, lifting) case_prod_conv option.simps(4))
    qed (use x st in \<open>auto; blast\<close>)
  qed
  then show thesis using assms(2,3) that by auto
qed

locale polling =
  fixes step :: "'r \<Rightarrow> 't \<Rightarrow> 'a option \<times> 't" and expired :: "'r \<Rightarrow> bool"
  assumes expired_stops: "expired r \<Longrightarrow> fst (step r t) \<noteq> None"
begin

lemma returns:
  assumes "expired (rounds m)" "n \<le> m"
  shows "\<exists>x. poll_rounds step rounds n t = Some x"
  using assms
proof (induction "m - n" arbitrary: n t)
  case 0
  then show ?case using expired_stops [of "rounds n" t]
    by (subst poll_rounds.simps) (auto split: prod.split)
next
  case (Suc k)
  then have "\<exists>x. poll_rounds step rounds (Suc n) u = Some x" for u by (intro Suc.hyps(1)) auto
  then show ?case by (subst poll_rounds.simps) (auto split: prod.split option.split)
qed

end

section \<open>The target\<close>

datatype signal = SIGTRAP | SIGSTOP | OtherSignal nat

datatype freeze_method = Ptrace | Sigstop

text \<open>\<open>/proc/<pid>/status\<close> as it could be read, and whether signal 0 went through.\<close>

definition target_is_alive :: "bool \<Rightarrow> string option \<Rightarrow> bool" where
  "target_is_alive kill_ok status \<longleftrightarrow> kill_ok \<and>
    (case status of
       None \<Rightarrow> False
     | Some st \<Rightarrow> \<not> list_ex (\<lambda>line. prefix ''State:'' line \<and> CHR ''Z'' \<in> set line) (str_lines st))"

datatype handoff_error = TimedOut | TargetExited | SeizeFailed | InterruptFailed | ResumeFailed | GetregsFailed
  | ExitedWith int | KilledBy signal | UnexpectedStatus | TargetGone | WaitFailedErr | RenameFailed | DetachFailed
  | InotifyFailed | WatchFailed | PollFailed | ReadEventsFailed | StopFailed | RemoveStaleFailed

section \<open>The tracer\<close>

datatype wait_status = StillAlive | Exited int | Signaled signal | PtraceEvent | PtraceSyscall | Stopped signal | OtherStatus

datatype wait_answer = Status wait_status | ECHILD | WaitError

datatype trace_event = Seize bool | Interrupt bool | Waited wait_answer | Syscall "signal option" bool | Getregs "(u64 \<times> u64) option" | Rename bool | Detach bool

text \<open>One round: the clock, and what the calls it may make will answer; \<open>regs\<close> is \<open>orig_rax\<close> and \<open>rax\<close>.\<close>

record trace_round =
  now :: nat
  waited :: wait_answer
  resumes :: bool
  regs :: "(u64 \<times> u64) option"
  target_exists :: bool
  renames :: bool
  detaches :: bool

text \<open>The guard's flag, the syscall toggle, and the log.\<close>

record tracer =
  armed :: bool
  in_syscall :: bool
  trace_log :: "trace_event list"

definition note_event :: "trace_event \<Rightarrow> tracer \<Rightarrow> tracer" where
  "note_event e t = t\<lparr>trace_log := trace_log t @ [e]\<rparr>"

definition guard_new :: "trace_event list \<Rightarrow> tracer" where
  "guard_new es = \<lparr>armed = True, in_syscall = False, trace_log = es\<rparr>"

definition disarm :: "tracer \<Rightarrow> tracer" where
  "disarm t = t\<lparr>armed := False\<rparr>"

definition drop_guard :: "bool \<Rightarrow> tracer \<Rightarrow> tracer" where
  "drop_guard detach_ok t = (if armed t then note_event (Detach detach_ok) t else t)"

type_synonym 'a round_result = "(handoff_error + unit) option \<times> 'a"

text \<open>\<open>ptrace::syscall(pid, sig)?\<close>.\<close>

definition resume_target :: "signal option \<Rightarrow> trace_round \<Rightarrow> tracer \<Rightarrow> tracer round_result" where
  "resume_target sig r t = (if resumes r then None else Some (Inl ResumeFailed), note_event (Syscall sig (resumes r)) t)"

definition SYS_bind :: u64 where
  "SYS_bind = 49"

text \<open>The error of the rename comes before the error of the detach.\<close>

definition handoff_result :: "bool \<Rightarrow> bool \<Rightarrow> handoff_error + unit" where
  "handoff_result renamed detached = (if \<not> renamed then Inl RenameFailed else if \<not> detached then Inl DetachFailed else Inr ())"

lemma handoff_result_Inr [simp]: "handoff_result a b = Inr () \<longleftrightarrow> a \<and> b" "Inr () = handoff_result a b \<longleftrightarrow> a \<and> b"
  by (auto simp: handoff_result_def)

definition rename_and_detach :: "trace_round \<Rightarrow> tracer \<Rightarrow> tracer round_result" where
  "rename_and_detach r t =
    (let t = disarm (note_event (Detach (detaches r)) (note_event (Rename (renames r)) t))
     in (Some (handoff_result (renames r) (detaches r)), t))"

definition syscall_stop :: "trace_round \<Rightarrow> tracer \<Rightarrow> tracer round_result" where
  "syscall_stop r t =
    (let t = t\<lparr>in_syscall := \<not> in_syscall t\<rparr> in
     if in_syscall t then resume_target None r t
     else let t = note_event (Getregs (regs r)) t in case regs r of
       None \<Rightarrow> (Some (Inl GetregsFailed), t)
     | Some (orig_rax, rax) \<Rightarrow>
        if orig_rax = SYS_bind \<and> 0 \<le> sint rax \<and> target_exists r then rename_and_detach r t
        else resume_target None r t)"

definition reinject :: "signal \<Rightarrow> signal option" where
  "reinject sig = (case sig of SIGTRAP \<Rightarrow> None | SIGSTOP \<Rightarrow> None | other \<Rightarrow> Some other)"

definition ptrace_round :: "nat \<Rightarrow> trace_round \<Rightarrow> tracer \<Rightarrow> tracer round_result" where
  "ptrace_round deadline r t =
    (if deadline \<le> now r then (Some (Inl TimedOut), t)
     else
       let t = note_event (Waited (waited r)) t in
       case waited r of
         Status StillAlive \<Rightarrow> (None, t)
       | Status (Exited code) \<Rightarrow> (Some (Inl (ExitedWith code)), disarm t)
       | Status (Signaled sig) \<Rightarrow> (Some (Inl (KilledBy sig)), disarm t)
       | Status PtraceEvent \<Rightarrow> resume_target None r t
       | Status PtraceSyscall \<Rightarrow> syscall_stop r t
       | Status (Stopped sig) \<Rightarrow> resume_target (reinject sig) r t
       | Status OtherStatus \<Rightarrow> (Some (Inl UnexpectedStatus), t)
       | ECHILD \<Rightarrow> (Some (Inl TargetGone), disarm t)
       | WaitError \<Rightarrow> (Some (Inl WaitFailedErr), t))"

text \<open>The answers to the calls before the loop, and to the guard's own detach.\<close>

record trace_start =
  kill_ok :: bool
  proc_status :: "string option"
  seizes :: bool
  interrupts :: bool
  drop_detaches :: bool

definition run_ptrace :: "nat \<Rightarrow> trace_start \<Rightarrow> (nat \<Rightarrow> trace_round) \<Rightarrow> ((handoff_error + unit) \<times> tracer) option" where
  "run_ptrace deadline st rounds =
    (if \<not> target_is_alive (kill_ok st) (proc_status st) then Some (Inl TargetExited, disarm (guard_new []))
     else if \<not> seizes st then Some (Inl SeizeFailed, disarm (guard_new [Seize False]))
     else
       let t = guard_new [Seize True, Interrupt (interrupts st)] in
       if \<not> interrupts st then Some (Inl InterruptFailed, drop_guard (drop_detaches st) t)
       else map_option (map_prod id (drop_guard (drop_detaches st))) (poll_rounds (ptrace_round deadline) rounds 0 t))"

interpretation tracing: polling "ptrace_round deadline" "\<lambda>r. deadline \<le> now r"
  by unfold_locales (simp add: ptrace_round_def)

section \<open>What the kernel makes of it\<close>

datatype tracee = Untraced | Going | Halted | Dead

fun after_event :: "tracee \<Rightarrow> trace_event \<Rightarrow> tracee" where
  "after_event s (Seize ok) = (if ok then Going else s)"
| "after_event s (Waited (Status (Exited _))) = Dead"
| "after_event s (Waited (Status (Signaled _))) = Dead"
| "after_event s (Waited ECHILD) = Dead"
| "after_event s (Waited (Status PtraceEvent)) = Halted"
| "after_event s (Waited (Status PtraceSyscall)) = Halted"
| "after_event s (Waited (Status (Stopped _))) = Halted"
| "after_event s (Syscall _ ok) = (if ok then Going else s)"
| "after_event s (Detach ok) = (if ok then Untraced else s)"
| "after_event s _ = s"

fun_cases after_event_DeadE: "after_event Going (Waited w) = Dead"

definition tracee_after :: "trace_event list \<Rightarrow> tracee" where
  "tracee_after es = foldl after_event Untraced es"

lemma tracee_after_simps [simp]: "tracee_after [] = Untraced" "tracee_after (es @ es') = foldl after_event (tracee_after es) es'"
  by (simp_all add: tracee_after_def)

fun is_syscall_stop :: "trace_event \<Rightarrow> bool" where
  "is_syscall_stop (Waited (Status PtraceSyscall)) = True"
| "is_syscall_stop _ = False"

fun is_detach :: "trace_event \<Rightarrow> bool" where
  "is_detach (Detach _) = True"
| "is_detach _ = False"

fun is_rename :: "trace_event \<Rightarrow> bool" where
  "is_rename (Rename _) = True"
| "is_rename _ = False"

fun received :: "trace_event \<Rightarrow> signal option" where
  "received (Waited (Status (Stopped sig))) = reinject sig"
| "received _ = None"

fun injected :: "trace_event \<Rightarrow> signal option" where
  "injected (Syscall sig _) = sig"
| "injected _ = None"

text \<open>A log in which the target's socket has not been touched and every signal has been passed on.\<close>

definition clean :: "trace_event list \<Rightarrow> bool" where
  "clean es \<longleftrightarrow> (\<forall>e \<in> set es. \<not> is_rename e \<and> \<not> is_detach e) \<and> List.map_filter received es = List.map_filter injected es"

lemma map_filter_append [simp]: "List.map_filter f (xs @ ys) = List.map_filter f xs @ List.map_filter f ys"
  by (induction xs) (auto simp: map_filter_simps split: option.split)

text \<open>How a handoff by ptrace may end.\<close>

inductive trace_end :: "handoff_error + unit \<Rightarrow> trace_event list \<Rightarrow> bool" where
  untouched: "clean es \<Longrightarrow> Seize True \<notin> set es \<Longrightarrow> trace_end (Inl e) es"
| gone: "clean es \<Longrightarrow> tracee_after es = Dead \<Longrightarrow> trace_end (Inl e) es"
| released: "clean es \<Longrightarrow> tracee_after es \<noteq> Dead \<Longrightarrow> trace_end (Inl e) (es @ [Detach d])"
| handed_over: "clean es \<Longrightarrow> even (length (filter is_syscall_stop (es @ [Waited (Status PtraceSyscall)]))) \<Longrightarrow> 0 \<le> sint rax \<Longrightarrow>
    trace_end (handoff_result renamed d)
      (es @ [Waited (Status PtraceSyscall), Getregs (Some (SYS_bind, rax)), Rename renamed, Detach d])"

text \<open>While the tracer goes round: armed, the target runs, and the toggle is the parity of the syscall
  stops.\<close>

definition tracing_ok :: "tracer \<Rightarrow> bool" where
  "tracing_ok t \<longleftrightarrow> armed t \<and> tracee_after (trace_log t) = Going \<and> clean (trace_log t) \<and>
     (in_syscall t \<longleftrightarrow> odd (length (filter is_syscall_stop (trace_log t))))"

lemmas round_defs = ptrace_round_def resume_target_def syscall_stop_def rename_and_detach_def note_event_def disarm_def Let_def

lemma ptrace_round_goes_on:
  "tracing_ok t \<Longrightarrow> ptrace_round deadline r t = (None, t') \<Longrightarrow> tracing_ok t'"
  by (auto simp: round_defs tracing_ok_def clean_def map_filter_simps
      split: if_splits wait_answer.splits wait_status.splits option.splits)

lemma ptrace_round_stops:
  assumes "tracing_ok t" "ptrace_round deadline r t = (Some res, t')"
  shows "trace_end res (trace_log (drop_guard d t'))"
proof -
  have gone: "trace_end (Inl e) (trace_log t @ [Waited w])" if "after_event Going (Waited w) = Dead" for e w
    using assms(1) that by (intro trace_end.gone) (auto simp: tracing_ok_def clean_def map_filter_simps elim!: after_event_DeadE)
  have released: "trace_end (Inl e) ((trace_log t @ es) @ [Detach d])" if "clean es" "foldl after_event Going es \<noteq> Dead" for e es
    using assms(1) that by (intro trace_end.released) (auto simp: tracing_ok_def clean_def)
  have handed: "trace_end (handoff_result a b)
      (trace_log t @ [Waited (Status PtraceSyscall), Getregs (Some (SYS_bind, rax)), Rename a, Detach b])"
    if "in_syscall t" "0 \<le> sint rax" for a b rax
    using assms(1) that by (intro trace_end.handed_over) (auto simp: tracing_ok_def)
  show ?thesis
    using assms gone handed released [of "[]"] released [of "[x]" for x] released [of "[x, y]" for x y] released [of "[x, y, z]" for x y z]
    by (auto simp: round_defs tracing_ok_def clean_def map_filter_simps drop_guard_def
      split: if_splits wait_answer.splits wait_status.splits option.splits)
qed

text \<open>Every way out of the tracer.\<close>

lemma run_ptrace_ends:
  assumes "run_ptrace deadline st rounds = Some (res, t)"
  shows "trace_end res (trace_log t)"
proof (cases "target_is_alive (kill_ok st) (proc_status st) \<and> seizes st \<and> interrupts st")
  case True
  let ?t0 = "guard_new [Seize True, Interrupt True]"
  from assms True obtain t1 where t1: "poll_rounds (ptrace_round deadline) rounds 0 ?t0 = Some (res, t1)"
    and t: "t = drop_guard (drop_detaches st) t1"
    by (auto simp: run_ptrace_def Let_def)
  have "tracing_ok ?t0" by (simp add: tracing_ok_def clean_def guard_new_def tracee_after_def map_filter_simps)
  with t1 obtain m u where "tracing_ok u" "ptrace_round deadline (rounds m) u = (Some res, t1)"
    by (rule poll_rounds_invariant) (rule ptrace_round_goes_on)
  then show ?thesis unfolding t by (rule ptrace_round_stops)
next
  case False
  have "trace_end (Inl InterruptFailed) ([Seize True, Interrupt False] @ [Detach d])" for d
    by (rule trace_end.released) (simp_all add: clean_def tracee_after_def map_filter_simps)
  moreover have "trace_end (Inl TargetExited) []" "trace_end (Inl SeizeFailed) [Seize False]"
    by (rule trace_end.untouched; simp add: clean_def map_filter_simps)+
  ultimately show ?thesis using assms False
    by (auto simp: run_ptrace_def guard_new_def disarm_def drop_guard_def note_event_def Let_def split: if_splits)
qed

text \<open>The rename stands right after the return of the target's own successful \<open>bind\<close>, with the target
  halted, and nothing but the detach follows.\<close>

lemma trace_end_rename:
  assumes "trace_end res es" "es = pre @ Rename ok # post"
  obtains es0 rax d where "pre = es0 @ [Waited (Status PtraceSyscall), Getregs (Some (SYS_bind, rax))]" "0 \<le> sint rax"
    "post = [Detach d]" "res = handoff_result ok d" "tracee_after pre = Halted" "even (length (filter is_syscall_stop pre))"
proof -
  have no: "\<not> clean (xs @ Rename ok # ys)" for xs ys by (auto simp: clean_def)
  show thesis
    using assms
  proof (cases rule: trace_end.cases)
    case (released es0 e d)
    then show ?thesis using assms(2) no by (cases post rule: rev_cases) auto
  next
    case (handed_over es0 rax renamed d)
    have "es0 @ [Waited (Status PtraceSyscall), Getregs (Some (SYS_bind, rax)), Rename renamed, Detach d] = pre @ Rename ok # post"
      using handed_over(2) assms(2) by simp
    moreover have "Rename ok \<notin> set es0" using handed_over(3) by (auto simp: clean_def)
    ultimately have "pre = es0 @ [Waited (Status PtraceSyscall), Getregs (Some (SYS_bind, rax))]" "renamed = ok" "post = [Detach d]"
      by (auto simp: append_eq_append_conv2 append_eq_Cons_conv Cons_eq_append_conv)
    then show ?thesis using handed_over that by auto
  qed (use assms(2) no in auto)
qed

lemma trace_end_success: "trace_end res es \<Longrightarrow> res = Inr () \<longleftrightarrow> (\<exists>pre. es = pre @ [Rename True, Detach True])"
  by (auto simp: clean_def elim!: trace_end.cases)

lemma trace_end_released:
  assumes "trace_end res es" "Seize True \<in> set es"
  shows "tracee_after es = Dead \<and> filter is_detach es = [] \<or> (\<exists>pre d. es = pre @ [Detach d] \<and> filter is_detach pre = [])"
  using assms by (cases rule: trace_end.cases) (auto simp: clean_def filter_empty_conv)

lemma trace_end_signals: "trace_end res es \<Longrightarrow> List.map_filter received es = List.map_filter injected es"
  by (auto simp: clean_def map_filter_simps elim!: trace_end.cases)

text \<open>A resume call that fails hands nothing back. It ends the tracing, and is the last call before the
  detach.\<close>

definition refused :: "trace_event list \<Rightarrow> bool" where
  "refused es \<longleftrightarrow> (\<exists>sig. Syscall sig False \<in> set es)"

definition resumes_end :: "handoff_error + unit \<Rightarrow> trace_event list \<Rightarrow> bool" where
  "resumes_end res es \<longleftrightarrow>
    (if res = Inl ResumeFailed then \<exists>pre sig d. es = pre @ [Syscall sig False, Detach d] \<and> \<not> refused pre else \<not> refused es)"

lemma ptrace_round_resumes:
  assumes "armed t" "\<not> refused (trace_log t)"
  shows "ptrace_round deadline r t = (None, t') \<Longrightarrow> armed t' \<and> \<not> refused (trace_log t')"
    and "ptrace_round deadline r t = (Some res, t') \<Longrightarrow> resumes_end res (trace_log (drop_guard d t'))"
  using assms
  by (auto simp: round_defs refused_def resumes_end_def drop_guard_def handoff_result_def
      split: if_splits wait_answer.splits wait_status.splits option.splits)

lemma run_ptrace_resumes:
  assumes "run_ptrace deadline st rounds = Some (res, t)"
  shows "resumes_end res (trace_log t)"
proof (cases "target_is_alive (kill_ok st) (proc_status st) \<and> seizes st \<and> interrupts st")
  case True
  let ?t0 = "guard_new [Seize True, Interrupt True]"
  let ?I = "\<lambda>t. armed t \<and> \<not> refused (trace_log t)"
  from assms True obtain t1 where t1: "poll_rounds (ptrace_round deadline) rounds 0 ?t0 = Some (res, t1)"
    and t: "t = drop_guard (drop_detaches st) t1"
    by (auto simp: run_ptrace_def Let_def)
  have "?I ?t0" by (simp add: guard_new_def refused_def)
  with t1 obtain m u where "?I u" "ptrace_round deadline (rounds m) u = (Some res, t1)"
    by (rule poll_rounds_invariant [where I = ?I]) (blast dest: ptrace_round_resumes(1))
  then show ?thesis unfolding t using ptrace_round_resumes(2) by blast
next
  case False
  then show ?thesis using assms
    by (auto simp: run_ptrace_def guard_new_def disarm_def drop_guard_def note_event_def Let_def resumes_end_def refused_def split: if_splits)
qed

section \<open>The stop signal instead\<close>

text \<open>One round of the other loop: the clock, whether the target lives, how many descriptors \<open>poll\<close>
  reports (or its error), and the names of the files created, when they could be read.\<close>

record watch_round =
  watch_now :: nat
  watch_kill_ok :: bool
  watch_proc_status :: "string option"
  polled :: "nat option"
  created :: "string option list option"
  stops :: bool
  watch_renames :: bool

datatype stop_event = SentStop bool | Renamed bool | SentCont

text \<open>The target is resumed whether or not the rename went through.\<close>

definition stop_and_rename :: "watch_round \<Rightarrow> stop_event list \<Rightarrow> stop_event list round_result" where
  "stop_and_rename r es =
    (if \<not> stops r then (Some (Inl StopFailed), es @ [SentStop False])
     else (Some (if watch_renames r then Inr () else Inl RenameFailed), es @ [SentStop True, Renamed (watch_renames r), SentCont]))"

fun watch_events :: "string \<Rightarrow> watch_round \<Rightarrow> string option list \<Rightarrow> stop_event list \<Rightarrow> stop_event list round_result" where
  "watch_events watch_name r [] es = (None, es)"
| "watch_events watch_name r (name # names) es =
    (if name \<noteq> Some watch_name then watch_events watch_name r names es else stop_and_rename r es)"

definition sigstop_round :: "string \<Rightarrow> nat \<Rightarrow> watch_round \<Rightarrow> stop_event list \<Rightarrow> stop_event list round_result" where
  "sigstop_round watch_name deadline r es =
    (if deadline \<le> watch_now r then (Some (Inl TimedOut), es)
     else if \<not> target_is_alive (watch_kill_ok r) (watch_proc_status r) then (Some (Inl TargetExited), es)
     else case polled r of
       None \<Rightarrow> (Some (Inl PollFailed), es)
     | Some n \<Rightarrow>
        if n = 0 then (None, es)
        else case created r of
          None \<Rightarrow> (Some (Inl ReadEventsFailed), es)
        | Some names \<Rightarrow> watch_events watch_name r names es)"

definition run_sigstop :: "string \<Rightarrow> nat \<Rightarrow> bool \<Rightarrow> bool \<Rightarrow> (nat \<Rightarrow> watch_round)
    \<Rightarrow> ((handoff_error + unit) \<times> stop_event list) option" where
  "run_sigstop watch_name deadline inotify_ok watch_ok rounds =
    (if \<not> inotify_ok then Some (Inl InotifyFailed, [])
     else if \<not> watch_ok then Some (Inl WatchFailed, [])
     else poll_rounds (sigstop_round watch_name deadline) rounds 0 [])"

interpretation watching: polling "sigstop_round watch_name deadline" "\<lambda>r. deadline \<le> watch_now r"
  by unfold_locales (simp add: sigstop_round_def)

definition stop_end :: "handoff_error + unit \<Rightarrow> stop_event list \<Rightarrow> bool" where
  "stop_end res es \<longleftrightarrow> (es = [] \<or> es = [SentStop False]) \<and> res \<noteq> Inr () \<or>
     (\<exists>ok. es = [SentStop True, Renamed ok, SentCont] \<and> (res = Inr () \<longleftrightarrow> ok))"

lemma watch_events_result:
  "watch_events watch_name r names [] = (x, es) \<Longrightarrow> (case x of None \<Rightarrow> es = [] | Some res \<Rightarrow> stop_end res es)"
  by (induction names) (auto simp: stop_and_rename_def stop_end_def split: if_splits)

lemma run_sigstop_ends:
  assumes "run_sigstop watch_name deadline i w rounds = Some (res, es)"
  shows "stop_end res es"
proof (cases "i \<and> w")
  case True
  have r: "(case x of None \<Rightarrow> es = [] | Some res \<Rightarrow> stop_end res es)"
    if "sigstop_round watch_name deadline r [] = (x, es)" for r x es
    using that by (auto simp: sigstop_round_def stop_end_def dest: watch_events_result split: if_splits option.splits)
  from assms True have "poll_rounds (sigstop_round watch_name deadline) rounds 0 [] = Some (res, es)"
    by (simp add: run_sigstop_def)
  then obtain m u where "u = []" "sigstop_round watch_name deadline (rounds m) u = (Some res, es)"
    by (rule poll_rounds_invariant [where I = "\<lambda>u. u = []"]) (auto dest: r)
  then show ?thesis using r by fastforce
next
  case False
  then show ?thesis using assms by (auto simp: run_sigstop_def stop_end_def split: if_splits)
qed

section \<open>The helper\<close>

text \<open>A stale socket file is removed first; nothing else happens when that fails.\<close>

definition remove_stale :: "bool \<Rightarrow> bool \<Rightarrow> handoff_error + unit" where
  "remove_stale target_present removes = (if target_present \<and> \<not> removes then Inl RemoveStaleFailed else Inr ())"

definition run_handoff :: "freeze_method \<Rightarrow> string \<Rightarrow> nat \<Rightarrow> bool \<Rightarrow> bool \<Rightarrow> trace_start \<Rightarrow> (nat \<Rightarrow> trace_round)
    \<Rightarrow> bool \<Rightarrow> bool \<Rightarrow> (nat \<Rightarrow> watch_round) \<Rightarrow> (handoff_error + unit) option" where
  "run_handoff meth watch_name deadline target_present removes st trace_rounds inotify_ok watch_ok watch_rounds =
    (case remove_stale target_present removes of
       Inl e \<Rightarrow> Some (Inl e)
     | Inr _ \<Rightarrow>
        (case meth of
           Sigstop \<Rightarrow> map_option fst (run_sigstop watch_name deadline inotify_ok watch_ok watch_rounds)
         | Ptrace \<Rightarrow> map_option fst (run_ptrace deadline st trace_rounds)))"

lemma run_ptrace_returns: "deadline \<le> now (rounds m) \<Longrightarrow> \<exists>x. run_ptrace deadline st rounds = Some x"
  using tracing.returns [of deadline rounds m 0] by (fastforce simp: run_ptrace_def Let_def)

lemma run_sigstop_returns: "deadline \<le> watch_now (rounds m) \<Longrightarrow> \<exists>x. run_sigstop name deadline i w rounds = Some x"
  using watching.returns [of deadline rounds m 0] by (simp add: run_sigstop_def)

lemma run_handoff_returns:
  assumes "deadline \<le> now (tr m)" "deadline \<le> watch_now (wr k)"
  shows "\<exists>res. run_handoff meth name deadline p rm st tr i w wr = Some res"
  using run_ptrace_returns [where rounds = tr, OF assms(1)] run_sigstop_returns [where rounds = wr, OF assms(2)]
  by (cases meth) (fastforce simp: run_handoff_def split: sum.split)+

end
