(* ===== verification/Samples.thy ===== *)
theory Samples
  imports SpliceFacts Rebuild Recording Server Handoff
begin

text \<open>
  A concrete environment, a connection with a few live and stale objects, and messages for it.
  The properties are applied to them. The interfaces are cut down to the messages used; the
  bidirectional map is the term model of \<open>Bimap\<close>.
\<close>

definition sample_callback :: interface where
  "sample_callback = Interface ''wl_callback'' 1 [] [MessageDesc ''done'' True [ATUint] None]"

definition sample_registry :: interface where
  "sample_registry = Interface ''wl_registry'' 1
     [MessageDesc ''bind'' False [ATUint, ATStr AllowNullNo, ATUint, ATNewId] None] []"

definition sample_display :: interface where
  "sample_display = Interface ''wl_display'' 1
     [MessageDesc ''sync'' False [ATNewId] (Some sample_callback),
      MessageDesc ''get_registry'' False [ATNewId] (Some sample_registry)]
     [MessageDesc ''error'' False [ATObject AllowNullNo, ATUint, ATStr AllowNullNo] None,
      MessageDesc ''delete_id'' False [ATUint] None]"

definition sample_buffer :: interface where
  "sample_buffer = Interface ''wl_buffer'' 1 [MessageDesc ''destroy'' True [] None] [MessageDesc ''release'' False [] None]"

definition sample_surface :: interface where
  "sample_surface = Interface ''wl_surface'' 6
     [MessageDesc ''destroy'' True [] None,
      MessageDesc ''attach'' False [ATObject AllowNullYes, ATInt, ATInt] None,
      MessageDesc ''frame'' False [ATNewId] (Some sample_callback),
      MessageDesc ''commit'' False [] None] []"

definition sample_compositor :: interface where
  "sample_compositor = Interface ''wl_compositor'' 6 [MessageDesc ''create_surface'' False [ATNewId] (Some sample_surface)] []"

definition sample_pool :: interface where
  "sample_pool = Interface ''wl_shm_pool'' 2
     [MessageDesc ''create_buffer'' False [ATNewId, ATInt, ATInt, ATInt, ATInt, ATUint] (Some sample_buffer)] []"

definition sample_shm :: interface where
  "sample_shm = Interface ''wl_shm'' 2 [MessageDesc ''create_pool'' False [ATNewId, ATFd, ATInt] (Some sample_pool)] []"

definition sample_pointer :: interface where
  "sample_pointer = Interface ''wl_pointer'' 9 []
     [MessageDesc ''enter'' False [ATUint, ATObject AllowNullNo, ATFixed, ATFixed] None,
      MessageDesc ''leave'' False [ATUint, ATObject AllowNullNo] None,
      MessageDesc ''motion'' False [ATUint, ATFixed, ATFixed] None,
      MessageDesc ''button'' False [ATUint, ATUint, ATUint, ATUint] None]"

definition sample_statics :: static_table where
  "sample_statics path =
    (if path = ''core::WL_DISPLAY_INTERFACE'' then sample_display
     else if path = ''core::WL_COMPOSITOR_INTERFACE'' then sample_compositor
     else if path = ''core::WL_SHM_INTERFACE'' then sample_shm
     else sample_callback)"

definition sample_pipes :: os_pipes where
  "sample_pipes = \<lparr>new_pipe = (\<lambda>f. Some (f + 100, f + 200)), is_writable_pipe = (\<lambda>_. True), extract_fd = Some\<rparr>"

definition sample_env :: "bimap_op list env" where
  "sample_env = \<lparr>bim = term_bimap, statics = sample_statics, endian = LittleEndian, ord_ids = (\<lambda>ks. ks), ord_names = (\<lambda>ks. ks),
     apps = \<lparr>app_ids = [], by_binary = []\<rparr>, client_pid = None, exe_link = (\<lambda>_. None), pipes = sample_pipes, recording = False\<rparr>"

text \<open>Registry 2, compositor 3, surface 4, shm 5, pointer 6, buffer 7 of the client, on the host 2, 4,
  5, 3, 6, 7; the next free host id is 8.\<close>

definition sample_objects :: "bimap_op list shadow_table" where
  "sample_objects =
    (st_map term_bimap 7 7 sample_buffer (st_map term_bimap 6 6 sample_pointer (st_map term_bimap 5 3 sample_shm
      (st_map term_bimap 4 5 sample_surface (st_map term_bimap 3 4 sample_compositor
        (st_map term_bimap 2 2 sample_registry (st_new term_bimap sample_statics)))))))\<lparr>next_host_id := 8\<rparr>"

definition sample_proxy :: "bimap_op list proxy" where
  "sample_proxy = (session_new sample_env [] (conn_new [] []) (conn_new [] []))\<lparr>objects := sample_objects\<rparr>"

definition sample_state :: "fd list \<Rightarrow> bimap_op list relay_state" where
  "sample_state fds = to_relay sample_proxy ((conn_new [] [])\<lparr>read_fds := fds\<rparr>) (Some (conn_new [] []))"

text \<open>The same connection after a reconnect has begun: everything but the display is stale.\<close>

definition stale_state :: "fd list \<Rightarrow> bimap_op list relay_state" where
  "stale_state fds = to_relay (begin_recovery sample_env (conn_new [] []) sample_proxy)
     ((conn_new [] [])\<lparr>read_fds := fds\<rparr>) (Some (conn_new [] []))"

text \<open>\<open>wl_compositor.create_surface\<close> with the new id 9, \<open>wl_surface.attach\<close> of buffer 7,
  \<open>wl_shm.create_pool\<close> with the new id 9, \<open>wl_surface.destroy\<close>, \<open>wl_surface.frame\<close> with callback 9.\<close>

definition create_surface_message :: "byte list" where
  "create_surface_message = build_message LittleEndian 3 0 (put_u32 LittleEndian [] 9)"

definition attach_message :: "byte list" where
  "attach_message = build_message LittleEndian 4 1 (put_u32 LittleEndian (put_u32 LittleEndian (put_u32 LittleEndian [] 7) 0) 0)"

definition create_pool_message :: "byte list" where
  "create_pool_message = build_message LittleEndian 5 0 (put_u32 LittleEndian (put_u32 LittleEndian [] 9) 4096)"

definition destroy_message :: "byte list" where
  "destroy_message = build_message LittleEndian 4 0 []"

definition frame_message :: "byte list" where
  "frame_message = build_message LittleEndian 4 2 (put_u32 LittleEndian [] 9)"

text \<open>From the host: \<open>wl_display.delete_id\<close> of 5, \<open>wl_pointer.enter\<close> on its surface 5.\<close>

definition delete_id_event_message :: "byte list" where
  "delete_id_event_message = build_message LittleEndian 1 1 (put_u32 LittleEndian [] 5)"

definition enter_message :: "byte list" where
  "enter_message = build_message LittleEndian 6 0
     (put_u32 LittleEndian (put_u32 LittleEndian (put_u32 LittleEndian (put_u32 LittleEndian [] 77) 5) 0) 0)"

section \<open>What the samples evaluate to\<close>

lemma pairI: "fst x = a \<Longrightarrow> x = (a, snd x)"
  by (simp add: prod_eq_iff)

lemma term_bimap_sample: "bimap (bim sample_env)"
  by (simp add: sample_env_def term_bimap.bimap_axioms)

lemma sample_fds [simp]: "read_fds (src (sample_state fds)) = fds" "read_fds (src (stale_state fds)) = fds"
  by (simp_all add: sample_state_def stale_state_def)

lemma sample_env_fields [simp]: "bim sample_env = term_bimap" "statics sample_env = sample_statics"
  "endian sample_env = LittleEndian" "ord_ids sample_env = (\<lambda>ks. ks)" "pipes sample_env = sample_pipes"
  by (simp_all add: sample_env_def)

lemma sample_dst [simp]: "dst (sample_state fds) = Some (conn_new [] [])" "dst (stale_state fds) = Some (conn_new [] [])"
  by (simp_all add: sample_state_def stale_state_def)

lemma run_attach: "fst (process_message sample_env ClientToHost attach_message (sample_state [])) = Relayed"
  by code_simp

lemma run_pool: "fst (process_message sample_env ClientToHost create_pool_message (sample_state [3, 4])) = Relayed"
  by code_simp

lemma run_stale_pool: "fst (process_message sample_env ClientToHost create_pool_message (stale_state [3])) = DroppedNoSender"
  by code_simp

definition pool_header :: message_header where
  "pool_header = \<lparr>sender_id = 5, opcode = 0, msg_length = 16\<rparr>"

definition pool_ctx :: msg_ctx where
  "pool_ctx = \<lparr>mc_header = pool_header, mc_sender = 5, mc_iface = sample_shm, mc_desc = requests sample_shm ! 0\<rparr>"

definition walk_pool :: signature_walk where
  "walk_pool = \<lparr>new_id_offset = Some 0, object_offsets = [], fd_count = 1, dynamic_interface_name = None\<rparr>"

lemma walk_pool_facts [simp]: "fd_count walk_pool = 1" "new_id_offset walk_pool = Some 0" "object_offsets walk_pool = []"
  by (simp_all add: walk_pool_def)

lemma pool_header_parsed: "parse_header (endian sample_env) create_pool_message = Some pool_header"
  by code_simp

lemma st_interface_next [simp]: "st_interface (t\<lparr>next_host_id := n\<rparr>) g = st_interface t g"
  by (simp add: st_interface_def)

lemma st_interface_bump [simp]:
  "st_interface (bump_generation B st t) g = (if g = 1 then Some (wl_display_interface st) else st_interface t g)"
  by (simp add: st_interface_def)

lemma sample_objects_interfaces:
  "st_interface sample_objects 1 = Some sample_display" "st_interface sample_objects 2 = Some sample_registry"
  "st_interface sample_objects 4 = Some sample_surface" "st_interface sample_objects 5 = Some sample_shm"
  "st_interface sample_objects 6 = Some sample_pointer"
  by (simp_all add: sample_objects_def st_new_def wl_display_interface_def sample_statics_def)

lemma sample_state_objects [simp]:
  "objects (sample_state fds) = sample_objects"
  "objects (stale_state fds) = bump_generation term_bimap sample_statics sample_objects"
  by (simp_all add: sample_state_def stale_state_def sample_proxy_def begin_recovery_def sample_env_def)

lemma sample_gens: "gens_ok sample_objects" "generation sample_objects \<noteq> - 1"
  by (simp_all add: sample_objects_def gens_ok_ops gens_ok_new) (simp add: st_new_def)

lemma pool_resolved:
  "resolve_context sample_env ClientToHost (objects (sample_state fds)) pool_header = Some pool_ctx"
  "resolve_context sample_env ClientToHost (objects (stale_state fds)) pool_header = Some pool_ctx"
  by (simp_all add: resolve_context_def guest_sender_def pool_header_def pool_ctx_def sample_objects_interfaces
      message_table_def desc_at_def sample_shm_def)

lemma pool_walked: "walk_signature (endian sample_env) (drop HEADER_LEN create_pool_message) (signature (mc_desc pool_ctx)) = Inr walk_pool"
  by code_simp

lemma pool_not_delete: "\<not> is_message pool_ctx ''wl_display'' ''delete_id''"
  by (simp add: is_message_def i_name_def pool_ctx_def sample_shm_def)

lemma pool_new_id: "word_at LittleEndian create_pool_message HEADER_LEN = 9" "sender_id pool_header = 5"
  by code_simp+

text \<open>The same request with the compositor gone.\<close>

lemma run_frozen_pool:
  "fst (process_message sample_env ClientToHost create_pool_message ((sample_state [3])\<lparr>dst := None\<rparr>)) = DroppedFrozen"
  by code_simp

lemma pool_recreated:
  "((i_name pool_ctx, d_name pool_ctx), [ATNewId, ATFd, ATInt]) \<in> set recreated_requests"
  "takes_args (mc_desc pool_ctx) [ATNewId, ATFd, ATInt]" "child_interface (mc_desc pool_ctx) = Some sample_pool"
  "request_opcode (mc_iface pool_ctx) (d_name pool_ctx) = Some (opcode pool_header)"
  by (simp_all add: recreated_requests_def i_name_def d_name_def pool_ctx_def sample_shm_def takes_args_def pool_header_def
      request_opcode_def)

text \<open>A client that asks for the registry, binds \<open>wl_compositor\<close> and creates a surface, all in one read.\<close>

definition first_requests :: "byte list" where
  "first_requests = build_message LittleEndian 1 1 (put_u32 LittleEndian [] 2) @
     build_message LittleEndian 2 0 (put_u32 LittleEndian (put_u32 LittleEndian (put_str LittleEndian (put_u32 LittleEndian [] 1)
       ''wl_compositor'') 6) 3) @
     build_message LittleEndian 3 0 (put_u32 LittleEndian [] 4)"

definition newcomer :: "bimap_op list proxy" where
  "newcomer = session_new sample_env [] (conn_new [RecvMsg first_requests []] []) (conn_new [] [])"

definition newcomer_served :: "bimap_op list proxy" where
  "newcomer_served = relay_from_client sample_env (newcomer\<lparr>gtk := snd (fill False (gtk newcomer))\<rparr>)"

lemma newcomer_recorded: "graph newcomer_served = [(3, RGlobal sample_compositor 6), (4, RSurface 3)]"
  by code_simp

lemma newcomer_mapped: "host_id term_bimap (objects newcomer_served) 4 = Some 4"
  by code_simp

lemma newcomer_reachable: "reachable sample_env 0 (Running newcomer_served)"
proof -
  have "fill False (gtk newcomer) = (FillRead (length first_requests), snd (fill False (gtk newcomer)))"
    by code_simp
  from session_step.client_data [OF this, of sample_env]
  have "session_step sample_env ClientData (Running newcomer) (Running newcomer_served)"
    by (simp add: newcomer_served_def)
  from reachable.move [OF _ this, of 0] show ?thesis
    using reachable.start [of sample_env "[]" "[RecvMsg first_requests []]" "[]" "[]" "[]"] by (simp add: newcomer_def)
qed

lemma sample_delete_context:
  "resolve_context sample_env HostToClient (objects (sample_state [])) \<lparr>sender_id = 1, opcode = 1, msg_length = 12\<rparr> =
   Some \<lparr>mc_header = \<lparr>sender_id = 1, opcode = 1, msg_length = 12\<rparr>, mc_sender = 1, mc_iface = sample_display,
     mc_desc = events sample_display ! 1\<rparr>"
proof -
  have "guest_id term_bimap sample_objects 1 = Some 1" by code_simp
  then show ?thesis
    by (simp add: resolve_context_def guest_sender_def sample_env_def sample_objects_interfaces message_table_def desc_at_def
        sample_display_def)
qed

lemma sample_delete_facts:
  "is_message \<lparr>mc_header = \<lparr>sender_id = 1, opcode = 1, msg_length = 12\<rparr>, mc_sender = 1, mc_iface = sample_display,
     mc_desc = events sample_display ! 1\<rparr> ''wl_display'' ''delete_id''"
  "signature (mc_desc \<lparr>mc_header = \<lparr>sender_id = 1, opcode = 1, msg_length = 12\<rparr>, mc_sender = 1, mc_iface = sample_display,
     mc_desc = events sample_display ! 1\<rparr>) = [ATUint]"
  "HEADER_LEN + 4 \<le> length delete_id_event_message"
  "guest_id (bim sample_env) (objects (sample_state [])) (word_at (endian sample_env) delete_id_event_message HEADER_LEN) = Some 4"
proof -
  show "guest_id (bim sample_env) (objects (sample_state [])) (word_at (endian sample_env) delete_id_event_message HEADER_LEN) = Some 4"
    by code_simp
qed (simp_all add: is_message_def i_name_def d_name_def sample_display_def delete_id_event_message_def HEADER_LEN_def)

definition surface_ctx :: "u16 \<Rightarrow> u16 \<Rightarrow> msg_ctx" where
  "surface_ctx opc len = \<lparr>mc_header = \<lparr>sender_id = 4, opcode = opc, msg_length = len\<rparr>, mc_sender = 4,
     mc_iface = sample_surface, mc_desc = requests sample_surface ! unat opc\<rparr>"

lemma stale_surface_context:
  "unat opc < 4 \<Longrightarrow> resolve_context sample_env ClientToHost (objects (stale_state fds))
     \<lparr>sender_id = 4, opcode = opc, msg_length = len\<rparr> = Some (surface_ctx opc len)"
  by (simp add: resolve_context_def guest_sender_def surface_ctx_def sample_objects_interfaces
      message_table_def desc_at_def sample_surface_def)

lemma stale_destroy_context: "resolve_context sample_env ClientToHost (objects (stale_state []))
    \<lparr>sender_id = 4, opcode = 0, msg_length = 8\<rparr> = Some (surface_ctx 0 8)"
  by (rule stale_surface_context) simp

lemma stale_frame_context: "resolve_context sample_env ClientToHost (objects (stale_state []))
    \<lparr>sender_id = 4, opcode = 2, msg_length = 12\<rparr> = Some (surface_ctx 2 12)"
  by (rule stale_surface_context) simp

lemma stale_surface_host: "host_id (bim sample_env) (objects (stale_state [])) 4 = None"
  by code_simp

lemma stale_display: "st_interface (objects (stale_state [])) 1 = Some sample_display"
  "event_opcode sample_display ''delete_id'' = Some 1"
proof -
  show "event_opcode sample_display ''delete_id'' = Some 1" by code_simp
qed (simp add: wl_display_interface_def sample_statics_def)

lemma stale_done: "event_opcode sample_callback ''done'' = Some 0"
  by code_simp

lemma stale_destroy_walk:
  "walk_signature (endian sample_env) (drop HEADER_LEN destroy_message) (signature (mc_desc (surface_ctx 0 8))) = Inr walk_init"
  by (simp add: surface_ctx_def sample_surface_def walk_signature_def)

lemma stale_destroy_facts:
  "is_destructor (mc_desc (surface_ctx 0 8))" "\<not> is_message (surface_ctx 0 8) ''wl_display'' ''delete_id''"
  "\<not> is_message (surface_ctx 0 8) ''wl_surface'' ''frame''"
  "host_id (bim sample_env) (objects (stale_state [])) (mc_sender (surface_ctx 0 8)) = None"
  using stale_surface_host
  by (simp_all add: surface_ctx_def sample_surface_def is_message_def i_name_def d_name_def)

definition walk_frame :: signature_walk where
  "walk_frame = \<lparr>new_id_offset = Some 0, object_offsets = [], fd_count = 0, dynamic_interface_name = None\<rparr>"

lemma stale_frame_walk:
  "walk_signature (endian sample_env) (drop HEADER_LEN frame_message) (signature (mc_desc (surface_ctx 2 12))) = Inr walk_frame"
  by code_simp

lemma stale_frame_child:
  "resolve_child_interface (statics sample_env) (mc_desc (surface_ctx 2 12)) (dynamic_interface_name walk_frame) =
     Some (sample_callback, 1)"
  by (simp add: resolve_child_interface_def surface_ctx_def sample_surface_def sample_callback_def)

lemma stale_frame_facts:
  "new_id_offset walk_frame = Some 0" "object_offsets walk_frame = []"
  "is_message (surface_ctx 2 12) ''wl_surface'' ''frame''" "\<not> is_destructor (mc_desc (surface_ctx 2 12))"
  "host_id (bim sample_env) (objects (stale_state [])) (mc_sender (surface_ctx 2 12)) = None"
  "(9 :: u32) = word_at (endian sample_env) frame_message (HEADER_LEN + 0)" "(9 :: u32) \<noteq> mc_sender (surface_ctx 2 12)"
proof -
  show "(9 :: u32) = word_at (endian sample_env) frame_message (HEADER_LEN + 0)" by code_simp
qed (use stale_surface_host in \<open>simp_all add: walk_frame_def surface_ctx_def sample_surface_def is_message_def i_name_def d_name_def\<close>)

definition enter_header :: message_header where
  "enter_header = \<lparr>sender_id = 6, opcode = 0, msg_length = 24\<rparr>"

definition enter_ctx :: msg_ctx where
  "enter_ctx = \<lparr>mc_header = enter_header, mc_sender = 6, mc_iface = sample_pointer, mc_desc = events sample_pointer ! 0\<rparr>"

definition walk_enter :: signature_walk where
  "walk_enter = \<lparr>new_id_offset = None, object_offsets = [4], fd_count = 0, dynamic_interface_name = None\<rparr>"

lemma run_enter: "fst (relay_message sample_env HostToClient enter_header enter_message (sample_state [])) = Inr Relayed"
  by code_simp

lemma enter_context: "resolve_context sample_env HostToClient (objects (sample_state [])) enter_header = Some enter_ctx"
proof -
  have "guest_id term_bimap sample_objects 6 = Some 6" by code_simp
  then show ?thesis
    by (simp add: resolve_context_def guest_sender_def sample_env_def sample_objects_interfaces message_table_def desc_at_def
        sample_pointer_def enter_header_def enter_ctx_def)
qed

lemma enter_walk:
  "walk_signature (endian sample_env) (drop HEADER_LEN enter_message) (signature (mc_desc enter_ctx)) = Inr walk_enter"
  by code_simp

lemma enter_facts: "HEADER_LEN \<le> length enter_message" "4 \<in> set (object_offsets walk_enter)"
  "is_message enter_ctx ''wl_pointer'' ''enter''" "mc_sender enter_ctx = 6"
  by (simp_all add: enter_message_def walk_enter_def enter_ctx_def is_message_def i_name_def d_name_def sample_pointer_def)

text \<open>A connection that froze before its client asked for a registry: there is nothing to recreate.\<close>

definition fresh_frozen :: "bimap_op list proxy" where
  "fresh_frozen = (session_new sample_env [] (conn_new [] []) (conn_new [] []))\<lparr>frozen := True\<rparr>"

lemma fresh_no_registry:
  "find_guest_id_by_interface_name (\<lambda>ks. ks) (bump_generation term_bimap sample_statics (st_new term_bimap sample_statics))
     ''wl_registry'' = None"
  by code_simp

lemma fresh_recovered:
  "recover_state_after_reconnect sample_env (begin_recovery sample_env (conn_new [] []) fresh_frozen) =
   (Inr (), begin_recovery sample_env (conn_new [] []) fresh_frozen)"
  using fresh_no_registry
  by (simp add: recover_state_after_reconnect_def and_then_def modify_def begin_recovery_def fresh_frozen_def
      session_new_def reclaim_default_def)

lemma fresh_reconnect: "reconnect sample_env (conn_new [] []) fresh_frozen =
    Running (finish_recovery sample_env (begin_recovery sample_env (conn_new [] []) fresh_frozen))"
  by (simp add: reconnect_def fresh_recovered)

lemma fresh_facts: "frozen fresh_frozen" "gens_ok (objects fresh_frozen)" "generation (objects fresh_frozen) \<noteq> - 1"
  by (simp_all add: fresh_frozen_def session_new_def gens_ok_new) (simp add: st_new_def)

lemma fresh_reachable: "reachable sample_env 1
    (Running (finish_recovery sample_env (begin_recovery sample_env (conn_new [] []) fresh_frozen)))"
proof -
  let ?p = "session_new sample_env [] (conn_new [] []) (conn_new [RecvMsg [] []] [])"
  have "fill False (host ?p) = (FillEof, conn_new [] [])" by (simp add: session_new_def) code_simp
  then have "session_step sample_env HostLost (Running ?p) (Running (?p\<lparr>host := conn_new [] [], frozen := True\<rparr>))"
    by (intro session_step.host_eof) (simp_all add: session_new_def)
  moreover have "?p\<lparr>host := conn_new [] [], frozen := True\<rparr> = fresh_frozen" by (simp add: fresh_frozen_def session_new_def)
  ultimately have lost: "session_step sample_env HostLost (Running ?p) (Running fresh_frozen)" by simp
  have "session_step sample_env Reconnect (Running fresh_frozen)
      (Running (finish_recovery sample_env (begin_recovery sample_env (conn_new [] []) fresh_frozen)))"
    unfolding fresh_reconnect [symmetric] by (rule session_step.reconnected) (simp add: fresh_frozen_def)
  from reachable.move [OF reachable.move [OF reachable.start lost] this] show ?thesis by simp
qed

text \<open>A pointer on surface 4 with a button held.\<close>

definition grabbed :: "bimap_op list proxy" where
  "grabbed = sample_proxy\<lparr>grabs := on_pointer_button 6 272 1 (on_pointer_enter 6 4 grabs_new)\<rparr>"

lemma sample_order: "permutes_keys (ord_ids sample_env)"
  by simp

lemma sample_willing: "willing (gtk sample_proxy)" "willing (host sample_proxy)"
  by (simp_all add: willing_def sample_proxy_def session_new_def conn_new_def)

lemma sample_sent_nothing: "sent_bytes (host sample_proxy) = []" and sample_next_id: "next_host_id (objects sample_proxy) = 8"
  by (simp_all add: sent_bytes_def sample_proxy_def session_new_def conn_new_def sample_objects_def)

lemma grabbed_facts: "willing (gtk grabbed)" "pointer_focus (grabs grabbed) 6 = Some 4" "272 \<in> set (held_buttons (grabs grabbed) 6)"
  "Option.bind (st_interface (objects grabbed) 6) (\<lambda>i. event_opcode i ''leave'') = Some 1"
  "Option.bind (st_interface (objects grabbed) 6) (\<lambda>i. event_opcode i ''button'') = Some 3"
proof -
  have "event_opcode sample_pointer ''leave'' = Some 1" "event_opcode sample_pointer ''button'' = Some 3" by code_simp+
  then show "Option.bind (st_interface (objects grabbed) 6) (\<lambda>i. event_opcode i ''leave'') = Some 1"
    "Option.bind (st_interface (objects grabbed) 6) (\<lambda>i. event_opcode i ''button'') = Some 3"
    by (simp_all add: grabbed_def sample_proxy_def sample_objects_interfaces)
qed (use sample_willing in \<open>simp_all add: grabbed_def BUTTON_STATE_PRESSED_def\<close>)

text \<open>Statics that are named as the table names them.\<close>

definition path_statics :: static_table where
  "path_statics path = Interface
     (case map_of (map prod.swap interface_table) path of Some name \<Rightarrow> name | None \<Rightarrow> []) 1 [] []"

lemma table_paths_distinct: "distinct (map snd interface_table)"
  by code_simp

lemma path_statics_named: "statics_named path_statics"
proof -
  have "map_of (map prod.swap interface_table) path = Some name" if "(name, path) \<in> set interface_table" for name path
    using that table_paths_distinct by (intro map_of_is_SomeI) (force simp: comp_def)+
  then show ?thesis by (auto simp: statics_named_def path_statics_def)
qed

text \<open>A connection whose compositor went away with a registry, a compositor global and one surface
  alive, and a buffer whose pool is gone; the new compositor, 3 on its registry, announces the global and answers the sync.\<close>

definition lost :: "bimap_op list proxy" where
  "lost = (session_new sample_env [] (conn_new [] []) (conn_new [] []))\<lparr>
     objects := (st_map term_bimap 4 4 sample_surface (st_map term_bimap 3 3 sample_compositor
       (st_map term_bimap 2 2 sample_registry (st_new term_bimap sample_statics))))\<lparr>next_host_id := 5\<rparr>,
     graph := [(3, RGlobal sample_compositor 4), (4, RSurface 3), (7, RShmBuffer 9 0 16 16 64 0)], frozen := True\<rparr>"

definition global_event :: "byte list" where
  "global_event = build_message LittleEndian 2 0
     (put_u32 LittleEndian (put_str LittleEndian (put_u32 LittleEndian [] 20) ''wl_compositor'') 6)"

definition new_compositor :: conn where
  "new_compositor = conn_new [RecvMsg global_event [], RecvMsg (build_message LittleEndian 3 0 (put_u32 LittleEndian [] 1)) []] []"

lemma lost_registry: "fst (recover_registry sample_env 2 sample_registry
    ((begin_recovery sample_env new_compositor lost)\<lparr>reclaim := (reclaim lost)\<lparr>active_source_host_id := None\<rparr>\<rparr>)) =
  Inr (2, [(''wl_compositor'', 20, 6)])"
  by code_simp

lemma lost_registry_guest:
  "find_guest_id_by_interface_name (ord_ids sample_env) (objects (begin_recovery sample_env new_compositor lost)) ''wl_registry'' = Some 2"
  by code_simp

lemma lost_interfaces:
  "st_interface (objects (begin_recovery sample_env new_compositor lost)) g =
    (if g = 1 then Some sample_display else if g = 4 then Some sample_surface else if g = 3 then Some sample_compositor
     else if g = 2 then Some sample_registry else None)"
  by (simp add: begin_recovery_def lost_def session_new_def st_new_def wl_display_interface_def sample_statics_def)
    (simp add: st_interface_def hm_get_def)

lemma lost_opcode: "request_opcode sample_compositor ''create_surface'' = Some 0"
  by code_simp

lemma lost_restored: "restored {0, 1, 2} (graph lost) = {0, 1, 2, 3, 4}"
  by (auto simp: lost_def)

lemma lost_rebuildable:
  "\<forall>(g, r) \<in> set (graph lost). g \<noteq> 0 \<and> (set (parents r) \<subseteq> restored {0, 1, 2} (graph lost) \<longrightarrow>
     rebuildable (st_interface (objects (begin_recovery sample_env new_compositor lost))) [(''wl_compositor'', 20, 6)] sample_registry g r)"
  unfolding lost_restored
  by (simp add: lost_def makes_def offers_def takes_args_def lost_interfaces [unfolded lost_def])
    (simp add: lost_opcode, simp add: sample_compositor_def sample_registry_def recreatable_globals_def hm_get_def)

lemma lost_facts: "gens_ok (objects lost)" "generation (objects lost) \<noteq> - 1" "willing new_compositor" "frozen lost"
  "4 + sum_list (map (host_ids \<circ> snd) (graph lost)) < 2 ^ 32"
  by (simp_all add: lost_def session_new_def gens_ok_new gens_ok_ops willing_def new_compositor_def conn_new_def)
    (simp add: st_new_def)

text \<open>A process with one client, and a clipboard with a text in it.\<close>

definition quiet_server :: "bimap_op list server" where
  "quiet_server = \<lparr>listener = 0, next_listener = 1, public_name = Ours 0, clipboard = cache_new, clients = []\<rparr>"

definition sample_server :: "bimap_op list server" where
  "sample_server = quiet_server\<lparr>clients := [\<lparr>peer_pid = Some 7,
     client_task = Serving (Running (session_new (env_of sample_env (Some 7)) cache_new (conn_new [] []) (conn_new [] [])))\<rparr>]\<rparr>"

lemma sample_server_runs: "server_run sample_env sample_server"
proof -
  let ?sv1 = "accept_client (Some (Some 7, conn_new [] [])) quiet_server"
  have "server_run sample_env quiet_server"
    by (rule server_run.started [of True True Nobody]) (simp add: server_start_def bind_listener_def quiet_server_def)
  moreover have "server_step sample_env Accept quiet_server ?sv1"
    using server_step.accepted [of sample_env quiet_server "Some (Some 7, [], [])"] by simp
  moreover have "server_step sample_env (Connect 0) ?sv1 (connect_client sample_env (Some (conn_new [] [])) 0 ?sv1)"
    using server_step.connected [of 0 ?sv1 sample_env "Some ([], [])"] by (simp add: accept_client_def)
  moreover have "connect_client sample_env (Some (conn_new [] [])) 0 ?sv1 = sample_server"
    by (simp add: connect_client_def accept_client_def sample_server_def quiet_server_def)
  ultimately show ?thesis by (metis server_run.stepped)
qed

text \<open>A target that is interrupted, then enters and leaves \<open>bind\<close>.\<close>

definition sample_start :: trace_start where
  "sample_start = \<lparr>kill_ok = True, proc_status = Some ''State: S'', seizes = True, interrupts = True, drop_detaches = False\<rparr>"

definition sample_rounds :: "nat \<Rightarrow> trace_round" where
  "sample_rounds n = \<lparr>now = n, waited = Status (if n = 0 then PtraceEvent else PtraceSyscall), resumes = True,
     regs = Some (49, 0), target_exists = True, renames = True, detaches = True\<rparr>"

definition sample_watch :: "nat \<Rightarrow> watch_round" where
  "sample_watch n = \<lparr>watch_now = n, watch_kill_ok = True, watch_proc_status = Some ''State: S'', polled = Some 0,
     created = None, stops = True, watch_renames = True\<rparr>"

definition sample_trace :: tracer where
  "sample_trace = \<lparr>armed = False, in_syscall = False, trace_log =
     [Seize True, Interrupt True, Waited (Status PtraceEvent), Syscall None True, Waited (Status PtraceSyscall), Syscall None True] @
     [Waited (Status PtraceSyscall), Getregs (Some (49, 0)), Rename True, Detach True]\<rparr>"

lemma sample_handoff: "run_ptrace 10 sample_start sample_rounds = Some (Inr (), sample_trace)"
proof -
  have "target_is_alive True (Some ''State: S'')" by code_simp
  then show ?thesis
    by (simp add: run_ptrace_def sample_start_def Let_def poll_rounds.simps [of _ _ 0] poll_rounds.simps [of _ _ "Suc _"]
        sample_rounds_def round_defs guard_new_def SYS_bind_def sample_trace_def drop_guard_def handoff_result_def)
qed

end
