(* ===== verification/Chunks.thy ===== *)
theory Chunks
  imports RelayShape
begin

text \<open>
  The bytes of a stream may arrive in any pieces. Processing a message never looks at the bytes
  that wait behind it (\<open>unaware\<close>), so relaying what is there, reading more and relaying again
  comes to the same state as reading everything first, and the loop of \<open>relay_ready_messages\<close>
  agrees with one that sees the whole stream.
\<close>

section \<open>Input that has not been looked at yet\<close>

definition with_more :: "byte list \<Rightarrow> conn \<Rightarrow> conn" where
  "with_more bs c = c\<lparr>read_buf := read_buf c @ bs\<rparr>"

definition more_input :: "byte list \<Rightarrow> 'b relay_state \<Rightarrow> 'b relay_state" where
  "more_input bs s = s\<lparr>src := with_more bs (src s)\<rparr>"

lemma with_more_fields [simp]:
  "read_fds (with_more bs c) = read_fds c" "send_script (with_more bs c) = send_script c"
  "sent_log (with_more bs c) = sent_log c" "recv_script (with_more bs c) = recv_script c"
  "read_buf (with_more bs c) = read_buf c @ bs"
  "(with_more bs c)\<lparr>read_fds := fds\<rparr> = with_more bs (c\<lparr>read_fds := fds\<rparr>)"
  by (simp_all add: with_more_def)

lemma write_message_with_more [simp]: "write_message msg fds (with_more bs c) = map_prod id (with_more bs) (write_message msg fds c)"
  by (simp add: write_message_def with_more_def split: prod.split)

lemma more_input_fields [simp]:
  "objects (more_input bs s) = objects s" "graph (more_input bs s) = graph s" "grabs (more_input bs s) = grabs s"
  "buffer_flow (more_input bs s) = buffer_flow s" "pending_frames (more_input bs s) = pending_frames s"
  "pending_dmabuf_planes (more_input bs s) = pending_dmabuf_planes s" "reclaim (more_input bs s) = reclaim s"
  "cache (more_input bs s) = cache s" "tasks (more_input bs s) = tasks s" "recorded (more_input bs s) = recorded s"
  "src (more_input bs s) = with_more bs (src s)" "dst (more_input bs s) = dst s"
  by (simp_all add: more_input_def)

lemma more_input_updates [simp]:
  "(more_input bs s)\<lparr>objects := t\<rparr> = more_input bs (s\<lparr>objects := t\<rparr>)"
  "(more_input bs s)\<lparr>graph := g\<rparr> = more_input bs (s\<lparr>graph := g\<rparr>)"
  "(more_input bs s)\<lparr>grabs := gs\<rparr> = more_input bs (s\<lparr>grabs := gs\<rparr>)"
  "(more_input bs s)\<lparr>buffer_flow := b\<rparr> = more_input bs (s\<lparr>buffer_flow := b\<rparr>)"
  "(more_input bs s)\<lparr>pending_frames := f\<rparr> = more_input bs (s\<lparr>pending_frames := f\<rparr>)"
  "(more_input bs s)\<lparr>pending_dmabuf_planes := p\<rparr> = more_input bs (s\<lparr>pending_dmabuf_planes := p\<rparr>)"
  "(more_input bs s)\<lparr>reclaim := r\<rparr> = more_input bs (s\<lparr>reclaim := r\<rparr>)"
  "(more_input bs s)\<lparr>tasks := ts\<rparr> = more_input bs (s\<lparr>tasks := ts\<rparr>)"
  "(more_input bs s)\<lparr>recorded := rs\<rparr> = more_input bs (s\<lparr>recorded := rs\<rparr>)"
  "(more_input bs s)\<lparr>dst := d\<rparr> = more_input bs (s\<lparr>dst := d\<rparr>)"
  "(more_input bs s)\<lparr>src := with_more bs c\<rparr> = more_input bs (s\<lparr>src := c\<rparr>)"
  by (simp_all add: more_input_def)

section \<open>No phase looks at it\<close>

definition unaware :: "('d, 'b relay_state, 'a) phase \<Rightarrow> bool" where
  "unaware m \<longleftrightarrow> (\<forall>bs s. m (more_input bs s) = map_prod id (more_input bs) (m s))"

named_theorems unaware_intros "phases that do not look at waiting input"

lemma unawareD: "unaware m \<Longrightarrow> m (more_input bs s) = map_prod id (more_input bs) (m s)"
  by (simp add: unaware_def)

lemma unaware_and_then [unaware_intros]: "unaware m \<Longrightarrow> (\<And>a. unaware (f a)) \<Longrightarrow> unaware (and_then m f)"
  by (auto simp: unaware_def and_then_def split: prod.split sum.split)

lemma unaware_go [unaware_intros]: "unaware (go a)"
  by (simp add: unaware_def go_def)

lemma unaware_modify [unaware_intros]: "(\<And>bs s. f (more_input bs s) = more_input bs (f s)) \<Longrightarrow> unaware (modify f)"
  by (simp add: unaware_def modify_def)

lemma record_message_more [simp]:
  "record_message env dir d i m sid opc n msg (more_input bs s) = more_input bs (record_message env dir d i m sid opc n msg s)"
  by (simp add: record_message_def)

lemma unaware_drop [unaware_intros]: "unaware (drop_known env dir ctx msg d)"
  by (simp add: unaware_def drop_known_def)

lemma unaware_resolve [unaware_intros]: "unaware (resolve_message env dir h msg)"
  by (simp add: unaware_def resolve_message_def split: option.split)

lemma unaware_walk [unaware_intros]: "unaware (walk_message env dir ctx msg)"
  by (simp add: walk_message_def unaware_intros split: sum.split)

lemma unaware_translate [unaware_intros]: "unaware (translate_arguments env dir ctx walk msg)"
  by (simp add: unaware_def translate_arguments_def drop_known_def Let_def split: sum.split)

lemma record_new_recipe_more [simp]:
  "record_new_recipe env dir ctx msg off os child g (more_input bs s) = more_input bs (record_new_recipe env dir ctx msg off os child g s)"
  by (simp add: record_new_recipe_def split: prod.split option.split)

lemma unaware_map_new_id [unaware_intros]: "unaware (map_new_id env dir ctx walk originals msg)"
  by (simp add: unaware_def map_new_id_def go_def drop_known_def Let_def split: option.split prod.split direction.split)

lemma unaware_delete_id [unaware_intros]: "unaware (apply_delete_id env dir ctx msg)"
  by (simp add: unaware_def apply_delete_id_def drop_known_def split: option.split)

lemma observers_more [simp]:
  "observe_grabs env dir ctx msg (more_input bs s) = more_input bs (observe_grabs env dir ctx msg s)"
  "observe_resize env dir ctx msg (more_input bs s) = more_input bs (observe_resize env dir ctx msg s)"
  "observe_buffers dir ctx originals (more_input bs s) = more_input bs (observe_buffers dir ctx originals s)"
  "observe_callbacks dir ctx new_guest (more_input bs s) = more_input bs (observe_callbacks dir ctx new_guest s)"
  by (simp_all add: observe_grabs_def observe_resize_def observe_buffers_def observe_callbacks_def Let_def split: option.split)

lemma observe_destination_more [simp]:
  "observe_destination env dir ctx msg (more_input bs s) = more_input bs (observe_destination env dir ctx msg s)"
  by (simp add: observe_destination_def split: option.split list.split)

lemma unaware_toplevel [unaware_intros]: "unaware (observe_toplevel env dir ctx msg)"
  by (simp add: unaware_def observe_toplevel_def split: option.split)

lemma unaware_stale_release [unaware_intros]: "unaware (drop_stale_release env dir ctx msg)"
  by (simp add: unaware_def drop_stale_release_def drop_known_def)

section \<open>Nor does the splice\<close>

lemma send_src_more [simp]:
  "send_src env sender opc payload (more_input bs s) = map_prod id (more_input bs) (send_src env sender opc payload s)"
  by (simp add: send_src_def split: prod.split)

lemma create_on_host_more [simp]:
  "create_on_host env sender opc payload (more_input bs s) = map_prod id (more_input bs) (create_on_host env sender opc payload s)"
  by (simp add: create_on_host_def split: prod.split bool.split)

lemma offer_mime_types_more [simp]:
  "offer_mime_types env source mimes (more_input bs s) = map_prod id (more_input bs) (offer_mime_types env source mimes s)"
  by (induction mimes arbitrary: s) (simp_all split: prod.split bool.split)

lemma splice_messages_more [simp]:
  "splice_messages env mimes ddm rh sh serial (more_input bs s) = more_input bs (splice_messages env mimes ddm rh sh serial s)"
proof -
  obtain r1 s1 where 1: "create_on_host env rh 0 (\<lambda>h. bind_payload (endian env) (fst ddm) ''wl_data_device_manager'' (snd ddm) h) s = (r1, s1)"
    by fastforce
  obtain r2 s2 where 2: "create_on_host env (the r1) 0 (\<lambda>h. put_u32 (endian env) [] h) s1 = (r2, s2)" by fastforce
  obtain r3 s3 where 3: "offer_mime_types env (the r2) mimes s2 = (r3, s3)" by fastforce
  obtain r4 s4 where 4: "create_on_host env (the r1) 1 (\<lambda>h. put_u32 (endian env) (put_u32 (endian env) [] h) sh) s3 = (r4, s4)" by fastforce
  obtain r5 s5 where 5: "send_src env (the r4) 1 (put_u32 (endian env) (put_u32 (endian env) [] (the r2)) serial) s4 = (r5, s5)" by fastforce
  show ?thesis using 1 2 3 4 5
    by (cases r1; cases r2; cases r3; cases r4; cases r5) (simp_all add: splice_messages_def Let_def)
qed

lemma maybe_reclaim_more [simp]:
  "maybe_reclaim env dir ctx msg (more_input bs s) = more_input bs (maybe_reclaim env dir ctx msg s)"
  by (simp add: maybe_reclaim_def attempt_clipboard_splice_def Let_def split: prod.split option.split)

lemma unaware_observe [unaware_intros]: "unaware (observe_message env dir ctx originals new_guest msg)"
  unfolding observe_message_def by (intro unaware_intros) simp_all

section \<open>Nor does the delivery\<close>

lemma synthesize_more [simp]:
  "synthesize_delete_id env t g (with_more bs c) = with_more bs (synthesize_delete_id env t g c)"
  "synthesize_frame_done env t g (with_more bs c) = with_more bs (synthesize_frame_done env t g c)"
  by (simp_all add: synthesize_delete_id_def synthesize_frame_done_def Let_def snd_map_prod split: option.split)

lemma answer_stale_more [simp]:
  "answer_stale_sender env dir ctx g (more_input bs s) = more_input bs (answer_stale_sender env dir ctx g s)"
  by (simp add: answer_stale_sender_def split: option.split)

lemma roll_back_more [simp]:
  "roll_back_new_id env dir g (more_input bs s) = more_input bs (roll_back_new_id env dir g s)"
  by (simp add: roll_back_new_id_def Let_def split: option.split)

lemma unaware_readdress [unaware_intros]: "unaware (readdress env dir ctx new_guest msg)"
  by (simp add: unaware_def readdress_def split: option.split sum.split)

lemma unaware_take_fds [unaware_intros]: "unaware (take_fds n)"
  by (simp add: unaware_def take_fds_def)

lemma unaware_tee [unaware_intros]: "unaware (tee_clipboard env dir ctx msg fds)"
  by (simp add: unaware_def tee_clipboard_def split: option.split prod.split)

lemma unaware_forward [unaware_intros]: "unaware (forward env dir ctx walk other msg fds)"
  by (simp add: unaware_def forward_def Let_def split: option.split)

lemma retain_more [simp]:
  "retain_pool_fd env dir ctx walk new_guest msg fds (more_input bs s) = more_input bs (retain_pool_fd env dir ctx walk new_guest msg fds s)"
  "retain_plane_fd env dir ctx msg fds (more_input bs s) = more_input bs (retain_plane_fd env dir ctx msg fds s)"
  by (simp_all add: retain_pool_fd_def retain_plane_fd_def Let_def split: option.split list.split)

lemma unaware_deliver [unaware_intros]: "unaware (deliver env dir ctx walk new_guest msg)"
  unfolding deliver_def by (intro unaware_intros | clarsimp split: prod.split)+

lemma unaware_relay: "unaware (relay_message env dir h msg)"
  unfolding relay_message_def Let_def by (intro unaware_intros | clarsimp split: prod.split)+

lemma synthetic_more [simp]:
  "handle_synthetic_clipboard_event env msg opc (more_input bs s) = more_input bs (handle_synthetic_clipboard_event env msg opc s)"
  by (simp add: handle_synthetic_clipboard_event_def Let_def split: option.split list.split)

lemma process_message_more:
  "process_message env dir msg (more_input bs s) = map_prod id (more_input bs) (process_message env dir msg s)"
  using unawareD [OF unaware_relay, of env dir _ msg bs s]
  by (simp add: process_message_def split: option.split prod.split sum.split)

section \<open>Pieces\<close>

lemma drain_input_more: "n \<le> length (read_buf (src s)) \<Longrightarrow> drain_input n (more_input bs s) = more_input bs (drain_input n s)"
  by (simp add: drain_input_def more_input_def with_more_def)

lemma relay_step_more:
  assumes "relay_step env dir s = Some (d, s')"
  shows "relay_step env dir (more_input bs s) = Some (d, more_input bs s')"
proof -
  from assms obtain m n s1 where t: "take_message (endian env) (read_buf (src s)) = Some (m, n)"
    and p: "process_message env dir (take n (read_buf (src s))) s = (d, s1)" and s': "s' = drain_input n s1"
    by (auto simp: relay_step_def split: option.splits prod.splits)
  have n: "n \<le> length (read_buf (src s))" using t by (rule take_message_SomeD)
  moreover have "read_buf (src s1) = read_buf (src s)" using process_message_input [OF p] by (simp add: same_input_def)
  ultimately show ?thesis
    using take_message_append [OF t] p by (simp add: relay_step_def process_message_more s' drain_input_more)
qed

text \<open>Reading more after a pass is reading it before.\<close>

lemma relay_in_pieces:
  "relay_ready_messages env dir (more_input bs (relay_ready_messages env dir s)) = relay_ready_messages env dir (more_input bs s)"
proof (induction env dir s rule: relay_ready_messages.induct)
  case (1 env dir s)
  show ?case
  proof (cases "relay_step env dir s")
    case None
    then show ?thesis by (subst (2) relay_ready_messages.simps) simp
  next
    case (Some p)
    obtain d s1 where p: "p = (d, s1)" by fastforce
    note st = Some [unfolded p]
    have "relay_ready_messages env dir s = relay_ready_messages env dir s1"
      by (subst relay_ready_messages.simps) (simp add: st)
    moreover have "relay_ready_messages env dir (more_input bs s) = relay_ready_messages env dir (more_input bs s1)"
      by (subst relay_ready_messages.simps) (simp add: relay_step_more [OF st])
    ultimately show ?thesis using 1 [OF Some p [symmetric]] by simp
  qed
qed

lemma more_input_append: "more_input cs (more_input bs s) = more_input (bs @ cs) s"
  by (simp add: more_input_def with_more_def)

text \<open>A stream read in pieces, with a pass after each of them.\<close>

definition relay_pieces :: "'b env \<Rightarrow> direction \<Rightarrow> byte list list \<Rightarrow> 'b relay_state \<Rightarrow> 'b relay_state" where
  "relay_pieces env dir pieces s = foldl (\<lambda>s bs. relay_ready_messages env dir (more_input bs s)) s pieces"

lemma relay_pieces_all:
  "relay_pieces env dir pieces (relay_ready_messages env dir s) = relay_ready_messages env dir (more_input (concat pieces) s)"
proof (induction pieces rule: rev_induct)
  case Nil
  then show ?case by (simp add: relay_pieces_def more_input_def with_more_def)
next
  case (snoc bs pieces)
  then show ?case by (simp add: relay_pieces_def relay_in_pieces more_input_append)
qed

end
