(* ===== verification/Recorder.thy ===== *)
theory Recorder
  imports RelayState
begin

text \<open>
  \<open>src/recorder.rs\<close>: which file the process records to, decided once, and the text of a recorded
  message. The time stamp is input. The source promises lines simple enough to be parsed back:
  \<open>parse_line\<close> does it with nothing but splitting at tabs.
\<close>

section \<open>Deciding once\<close>

text \<open>The two \<open>OnceLock\<close>s: the path given on the command line, and the recorder.\<close>

record recorder_cells =
  path_override :: "string option option"
  recorder_cell :: "string option option"

definition recorder_init :: "string option \<Rightarrow> recorder_cells \<Rightarrow> recorder_cells" where
  "recorder_init explicit cells =
    (case path_override cells of None \<Rightarrow> cells\<lparr>path_override := Some explicit\<rparr> | Some _ \<Rightarrow> cells)"

text \<open>A recorder is the file it writes; \<open>creates\<close> says whether \<open>File::create\<close> succeeds.\<close>

definition recorder_from_env :: "string option \<Rightarrow> (string \<Rightarrow> bool) \<Rightarrow> recorder_cells \<Rightarrow> string option" where
  "recorder_from_env env_var creates cells =
    (let given = (case path_override cells of Some (Some path) \<Rightarrow> Some path | _ \<Rightarrow> env_var) in
     case given of None \<Rightarrow> None | Some path \<Rightarrow> if creates path then Some path else None)"

definition recorder_get :: "string option \<Rightarrow> (string \<Rightarrow> bool) \<Rightarrow> recorder_cells \<Rightarrow> string option \<times> recorder_cells" where
  "recorder_get env_var creates cells =
    (case recorder_cell cells of
       Some r \<Rightarrow> (r, cells)
     | None \<Rightarrow> let r = recorder_from_env env_var creates cells in (r, cells\<lparr>recorder_cell := Some r\<rparr>))"

lemma recorder_decided_once:
  assumes "recorder_get v creates cells = (r, cells')"
  shows "recorder_get v' creates' (recorder_init explicit cells') = (r, recorder_init explicit cells')"
  using assms by (auto simp: recorder_get_def recorder_init_def Let_def split: option.splits)

lemma flag_wins: "path_override cells = Some (Some path) \<Longrightarrow> recorder_cell cells = None \<Longrightarrow> creates path \<Longrightarrow>
    fst (recorder_get env_var creates cells) = Some path"
  by (simp add: recorder_get_def recorder_from_env_def Let_def)

section \<open>The text of a line\<close>

fun dec :: "nat \<Rightarrow> string" where
  "dec n = (if n < 10 then [char_of (48 + n)] else dec (n div 10) @ [char_of (48 + n mod 10)])"

declare dec.simps [simp del]

definition dec6 :: "nat \<Rightarrow> string" where
  "dec6 n = replicate (6 - length (dec n)) (CHR ''0'') @ dec n"

fun direction_text :: "direction \<Rightarrow> string" where
  "direction_text ClientToHost = ''ClientToHost''"
| "direction_text HostToClient = ''HostToClient''"

text \<open>Two outcomes are never recorded.\<close>

fun outcome_text :: "disposition \<Rightarrow> string option" where
  "outcome_text DroppedUnknown = Some ''DROPPED_UNKNOWN''"
| "outcome_text (DroppedUntranslatable _) = Some ''DROPPED_UNTRANSLATABLE''"
| "outcome_text DroppedUnresolvableChild = Some ''DROPPED_UNRESOLVABLE_CHILD''"
| "outcome_text DroppedUntrackedDeleteId = Some ''DROPPED_UNTRACKED_DELETE_ID''"
| "outcome_text DroppedStaleGeneration = Some ''DROPPED_STALE_GENERATION''"
| "outcome_text DroppedParseError = Some ''DROPPED_PARSE_ERROR''"
| "outcome_text Relayed = Some ''RELAYED''"
| "outcome_text DroppedFrozen = Some ''DROPPED_FROZEN''"
| "outcome_text Intercepted = None"
| "outcome_text DroppedNoSender = None"

definition TAB :: char where
  "TAB = CHR 0x09"

definition line_text :: "nat \<Rightarrow> nat \<Rightarrow> string \<Rightarrow> record_line \<Rightarrow> string" where
  "line_text secs micros outcome l =
     dec secs @ ''.'' @ dec6 micros @ [TAB] @ direction_text (rl_direction l) @ [TAB] @ outcome @ [TAB] @
     rl_interface l @ ''.'' @ rl_method l @ [TAB] @ ''sender='' @ dec (unat (rl_sender l)) @ [TAB] @
     ''opcode='' @ dec (unat (rl_opcode l)) @ [TAB] @ ''fds='' @ dec (rl_fds l) @ [TAB] @
     ''bytes='' @ hex_encode (rl_bytes l) @ [CHR 0x0A]"

section \<open>Parsing it back\<close>

definition undec :: "string \<Rightarrow> nat" where
  "undec s = foldl (\<lambda>n c. 10 * n + (of_char c - 48)) 0 s"

lemma undec_dec: "undec (dec n) = n"
proof (induction n rule: dec.induct)
  case (1 n)
  show ?case
  proof (cases "n < 10")
    case True
    then show ?thesis by (subst dec.simps) (simp add: undec_def)
  next
    case False
    have "n mod 10 < 10" by simp
    then have "of_char (char_of (48 + n mod 10) :: char) - 48 = n mod 10" by simp
    then show ?thesis using 1 [OF False] False by (subst dec.simps) (simp add: undec_def)
  qed
qed

definition hex_value :: "char \<Rightarrow> nat" where
  "hex_value c = (let n = of_char c in if n < 58 then n - 48 else n - 87)"

fun unhex :: "string \<Rightarrow> byte list" where
  "unhex (a # b # s) = word_of_nat (16 * hex_value a + hex_value b) # unhex s"
| "unhex _ = []"

lemma hex_value_digit: "n < 16 \<Longrightarrow> hex_value (hex_digit n) = n"
  by (auto simp: hex_value_def hex_digit_def Let_def)

lemma unhex_encode: "unhex (hex_encode bs) = bs"
proof (induction bs)
  case (Cons b bs)
  have "unat b < 256" using unsigned_less [of b, where ?'a = nat] by simp
  then have "unat b div 16 < 16" by (simp add: less_mult_imp_div_less)
  then show ?case using Cons by (simp add: hex_encode_def hex_value_digit)
qed (simp add: hex_encode_def)

text \<open>Direction, outcome, \<open>interface.method\<close>, sender, opcode, number of descriptors and bytes.\<close>

definition parse_line :: "string \<Rightarrow> (string \<times> string \<times> string \<times> nat \<times> nat \<times> nat \<times> byte list) option" where
  "parse_line text =
    (case split_on TAB (butlast text) of
       [_, dir, outcome, meth, sender, opc, nfds, bytes] \<Rightarrow>
         Some (dir, outcome, meth, undec (drop 7 sender), undec (drop 7 opc), undec (drop 4 nfds), unhex (drop 6 bytes))
     | _ \<Rightarrow> None)"

lemma split_on_none: "d \<notin> set xs \<Longrightarrow> split_on d xs = [xs]"
  by (induction xs) auto

lemma split_on_first: "d \<notin> set xs \<Longrightarrow> split_on d (xs @ d # ys) = xs # split_on d ys"
  by (induction xs) auto

definition plain :: "string \<Rightarrow> bool" where
  "plain s \<longleftrightarrow> TAB \<notin> set s"

lemma plain_simps [simp]: "plain []" "plain (c # s) \<longleftrightarrow> c \<noteq> TAB \<and> plain s" "plain (s @ s') \<longleftrightarrow> plain s \<and> plain s'"
  by (auto simp: plain_def)

lemma digit_not_TAB: "48 \<le> (n :: nat) \<Longrightarrow> n < 256 \<Longrightarrow> char_of n \<noteq> TAB"
proof
  assume n: "48 \<le> n" "n < 256" and "char_of n = TAB"
  then have "of_char (char_of n :: char) = (9 :: nat)" by (simp add: TAB_def)
  with n show False by simp
qed

lemma plain_dec [simp]: "plain (dec n)"
proof (induction n rule: dec.induct)
  case (1 n)
  have "n mod 10 < 10" by simp
  then show ?case using 1 by (subst dec.simps) (simp add: digit_not_TAB)
qed

lemma plain_dec6 [simp]: "plain (dec6 n)"
proof -
  have "plain (replicate k (CHR ''0''))" for k by (induction k) (simp_all add: TAB_def)
  then show ?thesis by (simp add: dec6_def)
qed

lemma plain_hex [simp]: "plain (hex_encode bs)"
proof (induction bs)
  case (Cons b bs)
  have d: "n < 16 \<Longrightarrow> hex_digit n \<noteq> TAB" for n by (simp add: hex_digit_def digit_not_TAB)
  have "unat b < 256" using unsigned_less [of b, where ?'a = nat] by simp
  then have "unat b div 16 < 16" by (simp add: less_mult_imp_div_less)
  then show ?case using Cons d by (simp add: hex_encode_def)
qed (simp add: hex_encode_def)

lemma plain_texts: "plain (direction_text d)" "outcome_text o1 = Some outcome \<Longrightarrow> plain outcome"
  by (cases d; simp add: TAB_def) (cases o1; auto simp: TAB_def)

text \<open>Names never contain a tab, and then every field comes back.\<close>

lemma split_line:
  assumes "plain a" "plain b" "plain c" "plain d" "plain e" "plain f" "plain g" "plain h"
  shows "split_on TAB (a @ [TAB] @ b @ [TAB] @ c @ [TAB] @ d @ [TAB] @ e @ [TAB] @ f @ [TAB] @ g @ [TAB] @ h) = [a, b, c, d, e, f, g, h]"
  using assms by (simp add: plain_def split_on_first split_on_none)

lemma parse_line_text:
  assumes "outcome_text (rl_outcome l) = Some outcome" "plain (rl_interface l)" "plain (rl_method l)"
  shows "parse_line (line_text secs micros outcome l) = Some (direction_text (rl_direction l), outcome,
    rl_interface l @ ''.'' @ rl_method l, unat (rl_sender l), unat (rl_opcode l), rl_fds l, rl_bytes l)"
proof -
  let ?fields = "[dec secs @ ''.'' @ dec6 micros, direction_text (rl_direction l), outcome, rl_interface l @ ''.'' @ rl_method l,
    ''sender='' @ dec (unat (rl_sender l)), ''opcode='' @ dec (unat (rl_opcode l)), ''fds='' @ dec (rl_fds l),
    ''bytes='' @ hex_encode (rl_bytes l)]"
  have "butlast (line_text secs micros outcome l) = (?fields ! 0) @ [TAB] @ (?fields ! 1) @ [TAB] @ (?fields ! 2) @ [TAB] @
      (?fields ! 3) @ [TAB] @ (?fields ! 4) @ [TAB] @ (?fields ! 5) @ [TAB] @ (?fields ! 6) @ [TAB] @ (?fields ! 7)"
    by (simp add: line_text_def butlast_append)
  then have "split_on TAB (butlast (line_text secs micros outcome l)) = ?fields"
    using assms plain_texts(2) [OF assms(1)]
    by (simp only: split_line) (subst split_line; simp add: plain_texts(1) TAB_def)
  then show ?thesis by (simp add: parse_line_def undec_dec unhex_encode)
qed

end
