(* ===== verification/ProbeClient.thy ===== *)
theory ProbeClient
  imports Phases Connection
begin

text \<open>
  What the diagnostic clients under \<open>examples/\<close> share. Each of them is a small Wayland client over
  one blocking socket, written on \<open>wire\<close> and \<open>fdsocket\<close>; its \<open>main\<close> is a phase over the record
  \<open>probe\<close>. The kernel and the peer are explicit: what arrives, after how many milliseconds, is a
  script (\<open>incoming\<close>); what the kernel takes of each write is another (\<open>accepts\<close>; exhausted, it takes
  everything); every write is logged. Time passes only while a read blocks. \<open>read_timeout\<close> is the
  socket's receive timeout in milliseconds, zero for none; \<open>watchdog\<close> is the instant at which the
  sleeping thread of the reconnect probes ends the process. An exhausted script means that nothing
  ever arrives, so an untimed read without a watchdog never returns.

  Shown here: a wait's verdict is that of the first decisive message of the stream, however the stream is
  cut into reads; the loops end; what is written reaches the wire.
\<close>

section \<open>The world of a probe\<close>

datatype peer_event = PeerSends (delay: nat) "byte list" "cmsg list" | PeerFails (delay: nat)

fun postpone :: "nat \<Rightarrow> peer_event \<Rightarrow> peer_event" where
  "postpone d (PeerSends e bs cs) = PeerSends (e - d) bs cs"
| "postpone d (PeerFails e) = PeerFails (e - d)"

text \<open>What a probe says about the compositor, in place of the text it prints.\<close>

datatype report =
    ErrorSeen "u32 \<times> u32 \<times> string"
  | SelectionCancelled
  | SelectionAccepted u32
  | SelectionRejected u32
  | NoInputEvent
  | MarkerAnswered fd bool
  | NoDescriptor

text \<open>What the code may touch while a message borrows the receive buffer, and the rest.\<close>

record desk =
  fd_queue :: "fd list"
  accepts :: "send_outcome list"
  wire_log :: "(byte list \<times> cmsg list) list"
  fd_writes :: "(fd \<times> byte list) list"
  reports :: "report list"

record probe =
  inbox :: "byte list"
  incoming :: "peer_event list"
  clock :: nat
  read_timeout :: nat
  watchdog :: "nat option"
  desk :: desk

definition probe_connected :: "peer_event list \<Rightarrow> send_outcome list \<Rightarrow> probe" where
  "probe_connected evs os =
    \<lparr>inbox = [], incoming = evs, clock = 0, read_timeout = 0, watchdog = None,
     desk = \<lparr>fd_queue = [], accepts = os, wire_log = [], fd_writes = [], reports = []\<rparr>\<rparr>"

text \<open>How a probe ends. A failed \<open>expect\<close> or \<open>assert\<close> is a panic.\<close>

datatype probe_failure =
    BadUsage
  | NoRuntimeDir
  | ConnectFailed
  | ConnectionClosed
  | ReadFailed
  | SendFailed
  | DisplayError u32 u32 string
  | NotAdvertised string
  | BadNumber
  | TempDirFailed
  | FileFailed
  | BadTimeout
  | CrashFailed
  | NoAnswer
  | NoConfigure
  | NoDmabuf

datatype probe_end = ExitSuccess | ExitFailure probe_failure | Panicked probe_failure | KilledByWatchdog | NeverReturns

type_synonym 'a desk_phase = "(probe_end, desk, 'a) phase"
type_synonym 'a probing = "(probe_end, probe, 'a) phase"

definition on_desk :: "'a desk_phase \<Rightarrow> 'a probing" where
  "on_desk m p = (case m (desk p) of (r, d) \<Rightarrow> (r, p\<lparr>desk := d\<rparr>))"

section \<open>Reading\<close>

datatype read_result = ReadGot "byte list" "cmsg list" | ReadEof | ReadWouldBlock | ReadErr

fun delivered :: "peer_event \<Rightarrow> read_result" where
  "delivered (PeerSends d bs cs) = (if bs = [] then ReadEof else ReadGot bs cs)"
| "delivered (PeerFails d) = ReadErr"

text \<open>After how long a read comes back: the next event, or the timeout if that is earlier.\<close>

definition wake_after :: "probe \<Rightarrow> nat option" where
  "wake_after p =
    (case incoming p of
       [] \<Rightarrow> (if read_timeout p = 0 then None else Some (read_timeout p))
     | ev # _ \<Rightarrow> Some (if read_timeout p = 0 then delay ev else min (read_timeout p) (delay ev)))"

definition blocking_read :: "read_result probing" where
  "blocking_read p =
    (case wake_after p of
       None \<Rightarrow> (case watchdog p of None \<Rightarrow> (Inl NeverReturns, p) | Some w \<Rightarrow> (Inl KilledByWatchdog, p\<lparr>clock := w\<rparr>))
     | Some d \<Rightarrow>
        if (case watchdog p of None \<Rightarrow> False | Some w \<Rightarrow> w \<le> clock p + d) then (Inl KilledByWatchdog, p\<lparr>clock := the (watchdog p)\<rparr>)
        else
          let p' = p\<lparr>clock := clock p + d\<rparr> in
          (case incoming p of
             [] \<Rightarrow> (Inr ReadWouldBlock, p')
           | ev # evs \<Rightarrow>
              if d < delay ev then (Inr ReadWouldBlock, p'\<lparr>incoming := postpone d ev # evs\<rparr>)
              else (Inr (delivered ev), p'\<lparr>incoming := evs\<rparr>)))"

text \<open>\<open>stream.read\<close> followed by \<open>extend_from_slice\<close> leaves descriptors to the kernel, which closes
  them; \<open>pump_once\<close> reads with \<open>recv_with_fds\<close> and queues them.\<close>

datatype pulled = GotData | GotEof | GotWouldBlock | GotError

definition pull :: "bool \<Rightarrow> pulled probing" where
  "pull keep_fds = and_then blocking_read (\<lambda>r p.
    case r of
      ReadGot bs cs \<Rightarrow>
        (case recv_with_fds bs cs of (n, fds) \<Rightarrow>
          (Inr GotData, p\<lparr>inbox := inbox p @ bs,
             desk := (desk p)\<lparr>fd_queue := fd_queue (desk p) @ (if keep_fds then fds else [])\<rparr>\<rparr>))
    | ReadEof \<Rightarrow> (Inr GotEof, p)
    | ReadWouldBlock \<Rightarrow> (Inr GotWouldBlock, p)
    | ReadErr \<Rightarrow> (Inr GotError, p))"

definition read_some :: "pulled probing" where
  "read_some = pull False"

definition pump_once :: "pulled probing" where
  "pump_once = pull True"

text \<open>\<open>set_read_timeout\<close> refuses a zero duration.\<close>

definition set_read_timeout :: "nat option \<Rightarrow> unit probing" where
  "set_read_timeout t p =
    (case t of
       None \<Rightarrow> (Inr (), p\<lparr>read_timeout := 0\<rparr>)
     | Some ms \<Rightarrow> if ms = 0 then (Inl (Panicked BadTimeout), p) else (Inr (), p\<lparr>read_timeout := ms\<rparr>))"

definition start_watchdog :: "nat \<Rightarrow> unit probing" where
  "start_watchdog ms = modify (\<lambda>p. p\<lparr>watchdog := Some (clock p + ms)\<rparr>)"

section \<open>Writing\<close>

fun write_all_loop :: "send_outcome list \<Rightarrow> byte list \<Rightarrow> (byte list \<times> cmsg list) list
    \<Rightarrow> bool \<times> send_outcome list \<times> (byte list \<times> cmsg list) list" where
  "write_all_loop [] msg log = (True, [], if msg = [] then log else log @ [(msg, [])])"
| "write_all_loop (o1 # os) msg log =
    (if msg = [] then (True, o1 # os, log)
     else case o1 of
       SendAccepted n \<Rightarrow>
         if n = 0 then (False, os, log) else write_all_loop os (drop n msg) (log @ [(take n msg, [])])
     | _ \<Rightarrow> (False, os, log))"

definition write_all :: "byte list \<Rightarrow> unit desk_phase" where
  "write_all msg d =
    (case write_all_loop (accepts d) msg (wire_log d) of
       (ok, os, log) \<Rightarrow> (if ok then Inr () else Inl (Panicked SendFailed), d\<lparr>accepts := os, wire_log := log\<rparr>))"

text \<open>One \<open>sendmsg\<close> with descriptors. The probes check that it did not fail, not how much it took.\<close>

definition send_with_fds :: "byte list \<Rightarrow> fd list \<Rightarrow> unit desk_phase" where
  "send_with_fds msg fds d =
    (case accepts d of
       [] \<Rightarrow> (Inr (), d\<lparr>wire_log := wire_log d @ [(msg, send_cmsgs fds)]\<rparr>)
     | SendAccepted n # os \<Rightarrow> (Inr (), d\<lparr>accepts := os, wire_log := wire_log d @ [(take n msg, send_cmsgs fds)]\<rparr>)
     | _ # os \<Rightarrow> (Inl (Panicked SendFailed), d\<lparr>accepts := os\<rparr>))"

definition send_all :: "byte list \<Rightarrow> unit probing" where
  "send_all msg = on_desk (write_all msg)"

definition send_fds :: "byte list \<Rightarrow> fd list \<Rightarrow> unit probing" where
  "send_fds msg fds = on_desk (send_with_fds msg fds)"

text \<open>A payload of words, put one after the other.\<close>

lemma build_message_nonempty [simp]: "build_message en s oc payload \<noteq> []"
proof
  assume "build_message en s oc payload = []"
  then show False using length_build_message [of en s oc payload] by (simp add: HEADER_LEN_def)
qed

definition u32s :: "endianness \<Rightarrow> u32 list \<Rightarrow> byte list" where
  "u32s en ws = foldl (put_u32 en) [] ws"


section \<open>Start-up\<close>

text \<open>What the process finds: its environment, whether the connect succeeds, what files it can create,
  how \<open>pkill\<close> ends, and for each descriptor it is handed whether it is a socket and how many bytes
  it takes before a write to it fails (\<^const>\<open>None\<close>: all of them).\<close>

record probe_os =
  os_runtime_dir :: "string option"
  os_display :: "string option"
  os_connects :: "string \<Rightarrow> bool"
  os_temp_dir :: bool
  os_file :: "string \<Rightarrow> nat \<Rightarrow> fd option"
  os_pkill :: bool
  os_is_socket :: "fd \<Rightarrow> bool"
  os_room :: "fd \<Rightarrow> nat option"

text \<open>\<open>PathBuf::join\<close>: an absolute path replaces the directory.\<close>

definition join_path :: "string \<Rightarrow> string \<Rightarrow> string" where
  "join_path dir name =
    (if name \<noteq> [] \<and> hd name = CHR ''/'' then name
     else if dir = [] \<or> last dir = CHR ''/'' then dir @ name
     else dir @ ''/'' @ name)"

definition open_display :: "string \<Rightarrow> probe_os \<Rightarrow> unit probing" where
  "open_display default_display os =
    (case os_runtime_dir os of
       None \<Rightarrow> halt (Panicked NoRuntimeDir)
     | Some dir \<Rightarrow>
        if os_connects os (join_path dir (case os_display os of None \<Rightarrow> default_display | Some d \<Rightarrow> d)) then go ()
        else halt (Panicked ConnectFailed))"

text \<open>\<open>get_registry(2)\<close> and \<open>sync(3)\<close> in one write.\<close>

definition registry_burst :: "endianness \<Rightarrow> byte list" where
  "registry_burst en = build_message en 1 1 (u32s en [2]) @ build_message en 1 0 (u32s en [3])"

text \<open>The payload of \<open>wl_registry.global\<close>: name, interface, version.\<close>

definition announced :: "endianness \<Rightarrow> byte list \<Rightarrow> (u32 \<times> string \<times> u32) option" where
  "announced en payload =
    (case read_u32 en payload 0 of
       None \<Rightarrow> None
     | Some name \<Rightarrow>
        (case read_str en payload 4 of
           None \<Rightarrow> None
         | Some (iface, next) \<Rightarrow>
            (case read_u32 en payload next of
               None \<Rightarrow> None
             | Some version \<Rightarrow> Some (name, iface, version))))"

definition bind_message :: "endianness \<Rightarrow> u32 \<Rightarrow> string \<Rightarrow> u32 \<Rightarrow> u32 \<Rightarrow> byte list" where
  "bind_message en name iface version new_id =
    build_message en 2 0 (put_u32 en (put_u32 en (put_str en (put_u32 en [] name) iface) version) new_id)"

definition sync_message :: "endianness \<Rightarrow> u32 \<Rightarrow> byte list" where
  "sync_message en new_id = build_message en 1 0 (u32s en [new_id])"

section \<open>Taking messages off the inbox\<close>

text \<open>The inner loop of every wait, \<open>while let Some((msg, consumed)) = take_message(&buf)\<close>. The body sees
  the header, the payload and its own accumulator, and either goes on (\<^const>\<open>Inr\<close>) or leaves the loop
  with a result (\<^const>\<open>Inl\<close>). It cannot change the buffer, which \<open>msg\<close> borrows; the message is
  drained after it.\<close>

lemma take_message_shrinks: "take_message en bs = Some (msg, n) \<Longrightarrow> length bs - n < length bs"
  using take_message_SomeD(1,2) [of en bs msg n] by (simp add: HEADER_LEN_def)

type_synonym ('a, 'r) message_body = "message_header \<Rightarrow> byte list \<Rightarrow> 'a \<Rightarrow> ('r + 'a) desk_phase"

function scan_inbox :: "endianness \<Rightarrow> ('a, 'r) message_body \<Rightarrow> 'a \<Rightarrow> ('r + 'a) probing" where
  "scan_inbox en body a p =
    (case take_message en (inbox p) of
       None \<Rightarrow> (Inr (Inr a), p)
     | Some (msg, consumed) \<Rightarrow>
        (case body (the (parse_header en msg)) (drop HEADER_LEN msg) a (desk p) of
           (Inl e, d) \<Rightarrow> (Inl e, p\<lparr>desk := d\<rparr>)
         | (Inr (Inl r), d) \<Rightarrow> (Inr (Inl r), p\<lparr>inbox := drop consumed (inbox p), desk := d\<rparr>)
         | (Inr (Inr a'), d) \<Rightarrow> scan_inbox en body a' (p\<lparr>inbox := drop consumed (inbox p), desk := d\<rparr>)))"
  by pat_completeness auto
termination
  by (relation "measure (\<lambda>(en, body, a, p). length (inbox p))")
    (auto dest: take_message_shrinks)

declare scan_inbox.simps [simp del]

text \<open>The messages of a byte stream, and what is left of it.\<close>

function frames_of :: "endianness \<Rightarrow> byte list \<Rightarrow> (message_header \<times> byte list) list" where
  "frames_of en bs =
    (case take_message en bs of
       None \<Rightarrow> []
     | Some (msg, consumed) \<Rightarrow> (the (parse_header en msg), drop HEADER_LEN msg) # frames_of en (drop consumed bs))"
  by pat_completeness auto
termination
  by (relation "measure (\<lambda>(en, bs). length bs)") (auto dest: take_message_shrinks)

function unframed :: "endianness \<Rightarrow> byte list \<Rightarrow> byte list" where
  "unframed en bs =
    (case take_message en bs of None \<Rightarrow> bs | Some (msg, consumed) \<Rightarrow> unframed en (drop consumed bs))"
  by pat_completeness auto
termination
  by (relation "measure (\<lambda>(en, bs). length bs)") (auto dest: take_message_shrinks)

declare frames_of.simps [simp del] unframed.simps [simp del]

lemma frames_of_None: "take_message en bs = None \<Longrightarrow> frames_of en bs = [] \<and> unframed en bs = bs"
  by (simp add: frames_of.simps unframed.simps)

lemma frames_of_Some:
  "take_message en bs = Some (msg, n) \<Longrightarrow>
     frames_of en bs = (the (parse_header en msg), drop HEADER_LEN msg) # frames_of en (drop n bs) \<and>
     unframed en bs = unframed en (drop n bs)"
  by (subst frames_of.simps, subst unframed.simps) simp

text \<open>More input only adds frames: those of the rest that was left over.\<close>

lemma frames_of_append:
  "frames_of en (bs @ cs) = frames_of en bs @ frames_of en (unframed en bs @ cs) \<and>
   unframed en (bs @ cs) = unframed en (unframed en bs @ cs)"
proof (induction en bs rule: unframed.induct)
  case (1 en bs)
  show ?case
  proof (cases "take_message en bs")
    case None
    then show ?thesis by (simp add: frames_of_None)
  next
    case (Some mn)
    obtain msg n where mn: "mn = (msg, n)" by fastforce
    note t = Some [unfolded mn]
    note t' = take_message_append [OF t, of cs]
    have d: "drop n (bs @ cs) = drop n bs @ cs" using take_message_SomeD(2) [OF t] by simp
    show ?thesis
      using 1 [OF Some mn [symmetric]] frames_of_Some [OF t] frames_of_Some [OF t'] by (simp add: d del: drop_append)
  qed
qed

lemma unframed_stuck: "take_message en (unframed en bs) = None"
proof (induction en bs rule: unframed.induct)
  case (1 en bs)
  then show ?case by (cases "take_message en bs") (auto simp: frames_of_None dest: frames_of_Some)
qed

lemma frames_of_build [simp]:
  assumes "HEADER_LEN + length payload < 2 ^ 16"
  shows "frames_of en (build_message en sender opc payload @ rest) =
    (\<lparr>sender_id = sender, opcode = opc, msg_length = word_of_nat (HEADER_LEN + length payload)\<rparr>, payload) # frames_of en rest"
  using frames_of_Some [OF take_message_build [OF assms]] parse_build_message [of en sender opc payload "[]"] by simp

section \<open>What one read and one scan can do\<close>

lemma blocking_read_cases:
  assumes "blocking_read p = (Inr r, p')"
  shows "(r = ReadWouldBlock \<and> length (incoming p') = length (incoming p) \<and> clock p < clock p' \<and> 0 < read_timeout p) \<or>
    (r \<noteq> ReadWouldBlock \<and> length (incoming p') < length (incoming p) \<and> clock p \<le> clock p')"
    "watchdog p' = watchdog p" "read_timeout p' = read_timeout p" "inbox p' = inbox p" "desk p' = desk p"
    "watchdog p = Some w \<Longrightarrow> clock p' < w"
  using assms
  by (auto simp: blocking_read_def wake_after_def Let_def not_le
      split: option.splits if_splits list.splits elim!: delivered.elims)

lemma pull_cases:
  assumes "pull k p = (Inr g, p')"
  shows "(g = GotWouldBlock \<and> length (incoming p') = length (incoming p) \<and> clock p < clock p' \<and> 0 < read_timeout p) \<or>
    (g \<noteq> GotWouldBlock \<and> length (incoming p') < length (incoming p) \<and> clock p \<le> clock p')"
    "watchdog p' = watchdog p" "read_timeout p' = read_timeout p"
    "watchdog p = Some w \<Longrightarrow> clock p' < w" "g \<noteq> GotData \<Longrightarrow> inbox p' = inbox p \<and> desk p' = desk p"
  using assms
  by (auto simp: pull_def and_then_def recv_with_fds_def dest: blocking_read_cases
      split: prod.splits sum.splits read_result.splits)

text \<open>A scan runs the body over the frames of the inbox and touches nothing but inbox and desk.\<close>

fun run_frames :: "('a, 'r) message_body \<Rightarrow> (message_header \<times> byte list) list \<Rightarrow> 'a \<Rightarrow> ('r + 'a) desk_phase" where
  "run_frames body [] a = go (Inr a)"
| "run_frames body ((h, payload) # fs) a =
    and_then (body h payload a) (\<lambda>x. case x of Inl r \<Rightarrow> go (Inl r) | Inr a' \<Rightarrow> run_frames body fs a')"

lemma scan_inbox_None: "take_message en (inbox p) = None \<Longrightarrow> scan_inbox en body a p = (Inr (Inr a), p)"
  by (simp add: scan_inbox.simps)

lemma scan_inbox_Some:
  assumes "take_message en (inbox p) = Some (msg, n)"
    and "body (the (parse_header en msg)) (drop HEADER_LEN msg) a (desk p) = (x, d)"
  shows "scan_inbox en body a p =
    (case x of
       Inl e \<Rightarrow> (Inl e, p\<lparr>desk := d\<rparr>)
     | Inr (Inl r) \<Rightarrow> (Inr (Inl r), p\<lparr>inbox := drop n (inbox p), desk := d\<rparr>)
     | Inr (Inr a') \<Rightarrow> scan_inbox en body a' (p\<lparr>inbox := drop n (inbox p), desk := d\<rparr>))"
  using assms by (subst scan_inbox.simps) (simp split: sum.split)

lemma probe_updates [simp]: "p\<lparr>inbox := i, desk := d, inbox := i', desk := d'\<rparr> = p\<lparr>inbox := i', desk := d'\<rparr>"
  "p\<lparr>inbox := inbox p, desk := d\<rparr> = p\<lparr>desk := d\<rparr>"
  by simp_all

lemma scan_inbox_run:
  "case run_frames body (frames_of en (inbox p)) a (desk p) of
     (Inr (Inr a'), d) \<Rightarrow> scan_inbox en body a p = (Inr (Inr a'), p\<lparr>inbox := unframed en (inbox p), desk := d\<rparr>)
   | (Inr (Inl r), d) \<Rightarrow> \<exists>i. scan_inbox en body a p = (Inr (Inl r), p\<lparr>inbox := i, desk := d\<rparr>)
   | (Inl e, d) \<Rightarrow> \<exists>i. scan_inbox en body a p = (Inl e, p\<lparr>inbox := i, desk := d\<rparr>)"
proof (induction en body a p rule: scan_inbox.induct)
  case (1 en body a p)
  show ?case
  proof (cases "take_message en (inbox p)")
    case None
    then show ?thesis by (simp add: scan_inbox_None frames_of_None go_def)
  next
    case (Some mn)
    obtain msg n where mn: "mn = (msg, n)" by fastforce
    note t = Some [unfolded mn]
    obtain x d where b: "body (the (parse_header en msg)) (drop HEADER_LEN msg) a (desk p) = (x, d)" by fastforce
    note sc = scan_inbox_Some [of en p, OF t, of body, OF b]
    note fr = frames_of_Some [OF t]
    show ?thesis
    proof (cases x)
      case (Inl e)
      have "\<exists>i. p\<lparr>desk := d\<rparr> = p\<lparr>inbox := i, desk := d\<rparr>" by (rule exI [of _ "inbox p"]) simp
      then show ?thesis using b Inl by (simp add: sc fr and_then_eq)
    next
      case x: (Inr y)
      show ?thesis
      proof (cases y)
        case (Inl r)
        then show ?thesis using b x by (auto simp: sc fr and_then_eq go_def)
      next
        case (Inr a')
        let ?p = "p\<lparr>inbox := drop n (inbox p), desk := d\<rparr>"
        have r: "run_frames body (frames_of en (inbox p)) a (desk p) = run_frames body (frames_of en (inbox ?p)) a' (desk ?p)"
          using b x Inr fr by (simp add: and_then_eq)
        have s: "scan_inbox en body a p = scan_inbox en body a' ?p" using sc x Inr by simp
        have u: "unframed en (inbox p) = unframed en (inbox ?p)" using fr by simp
        show ?thesis
          using 1 [OF Some mn [symmetric] b [symmetric] x Inr] unfolding r s u
          by (simp split: prod.splits sum.splits)
      qed
    qed
  qed
qed

lemma scan_inbox_frame:
  "scan_inbox en body a p = (r, p') \<Longrightarrow> \<exists>i d. p' = p\<lparr>inbox := i, desk := d\<rparr>"
  using scan_inbox_run [where en = en and body = body and a = a and p = p] by (auto split: prod.splits sum.splits)


lemma scan_inbox_keeps [dest]:
  assumes "scan_inbox en body a p = (r, p')"
  shows "incoming p' = incoming p \<and> clock p' = clock p \<and> read_timeout p' = read_timeout p \<and> watchdog p' = watchdog p"
  using scan_inbox_frame [OF assms] by auto

lemma unframed_shorter: "length (unframed en bs) \<le> length bs"
  by (induction en bs rule: unframed.induct)
    (subst unframed.simps, fastforce split: option.split dest: take_message_shrinks)

lemma scan_inbox_progress:
  assumes "scan_inbox en body a p = (Inr (Inr a'), p')"
  shows "a' = a \<and> p' = p \<or> length (inbox p') < length (inbox p)"
proof (cases "take_message en (inbox p)")
  case None
  then show ?thesis using assms by (simp add: scan_inbox_None)
next
  case (Some mn)
  obtain msg n where "mn = (msg, n)" by fastforce
  with Some have t: "take_message en (inbox p) = Some (msg, n)" by simp
  have "inbox p' = unframed en (inbox p)"
    using assms scan_inbox_run [where en = en and body = body and a = a and p = p] by (auto split: prod.splits sum.splits)
  also have "\<dots> = unframed en (drop n (inbox p))" using frames_of_Some [OF t] by simp
  finally show ?thesis using unframed_shorter [of en "drop n (inbox p)"] take_message_shrinks [OF t] by simp
qed

section \<open>The waits\<close>

text \<open>A wait that reads before it looks: the loop that collects globals in every probe, and the
  handshakes of the clipboard probes. What a closed stream and a failed read mean is the caller's.\<close>

function read_loop :: "endianness \<Rightarrow> bool \<Rightarrow> ('a, 'r) message_body \<Rightarrow> probe_end \<Rightarrow> probe_end \<Rightarrow> 'a \<Rightarrow> 'r probing" where
  "read_loop en keep_fds body closed failed a p =
    (case pull keep_fds p of
       (Inl e, p1) \<Rightarrow> (Inl e, p1)
     | (Inr GotData, p1) \<Rightarrow>
        (case scan_inbox en body a p1 of
           (Inl e, p2) \<Rightarrow> (Inl e, p2)
         | (Inr (Inl r), p2) \<Rightarrow> (Inr r, p2)
         | (Inr (Inr a'), p2) \<Rightarrow> read_loop en keep_fds body closed failed a' p2)
     | (Inr GotEof, p1) \<Rightarrow> (Inl closed, p1)
     | (Inr _, p1) \<Rightarrow> (Inl failed, p1))"
  by pat_completeness auto
termination
  by (relation "measure (\<lambda>(en, k, body, c, f, a, p). length (incoming p))")
    (auto dest!: pull_cases(1) [OF sym] scan_inbox_keeps [OF sym])

text \<open>The payload of \<open>wl_display.error\<close>: object, code, message, with defaults for what is not there.\<close>

definition decode_error :: "endianness \<Rightarrow> byte list \<Rightarrow> u32 \<times> u32 \<times> string" where
  "decode_error en payload =
     (case read_u32 en payload 0 of Some w \<Rightarrow> w | None \<Rightarrow> 0,
      case read_u32 en payload 4 of Some w \<Rightarrow> w | None \<Rightarrow> 0,
      case read_str en payload 8 of Some (s, _) \<Rightarrow> s | None \<Rightarrow> [])"

definition display_error :: "endianness \<Rightarrow> byte list \<Rightarrow> probe_failure" where
  "display_error en payload = (case decode_error en payload of (obj, code, m) \<Rightarrow> DisplayError obj code m)"

datatype wait_result = Matched | WaitError probe_failure | WaitClosed | WaitTimedOut

text \<open>\<open>read_until\<close> looks before it reads. Its body is pure: the first error of the display, or the
  message waited for.\<close>

definition is_display_error :: "message_header \<Rightarrow> bool" where
  "is_display_error h \<longleftrightarrow> sender_id h = 1 \<and> opcode h = 0"

definition wait_body :: "endianness \<Rightarrow> u32 \<Rightarrow> u16 \<Rightarrow> (unit, wait_result) message_body" where
  "wait_body en wait_sender wait_opcode h payload _ =
    go (if is_display_error h then Inl (WaitError (display_error en payload))
        else if sender_id h = wait_sender \<and> opcode h = wait_opcode then Inl Matched
        else Inr ())"

function read_until :: "endianness \<Rightarrow> u32 \<Rightarrow> u16 \<Rightarrow> wait_result probing" where
  "read_until en wait_sender wait_opcode p =
    (case scan_inbox en (wait_body en wait_sender wait_opcode) () p of
       (Inl e, p1) \<Rightarrow> (Inl e, p1)
     | (Inr (Inl r), p1) \<Rightarrow> (Inr r, p1)
     | (Inr (Inr _), p1) \<Rightarrow>
        (case read_some p1 of
           (Inl e, p2) \<Rightarrow> (Inl e, p2)
         | (Inr GotData, p2) \<Rightarrow> read_until en wait_sender wait_opcode p2
         | (Inr GotEof, p2) \<Rightarrow> (Inr WaitClosed, p2)
         | (Inr GotWouldBlock, p2) \<Rightarrow> (Inr WaitTimedOut, p2)
         | (Inr GotError, p2) \<Rightarrow> (Inr (WaitError ReadFailed), p2)))"
  by pat_completeness auto
termination
  by (relation "measure (\<lambda>(en, s, oc, p). length (incoming p))")
    (auto simp: read_some_def dest!: pull_cases(1) [OF sym] scan_inbox_keeps [OF sym])

text \<open>\<open>read_until_both\<close>: two messages, in any order, before an absolute deadline.\<close>

definition both_body :: "endianness \<Rightarrow> u32 \<times> u16 \<Rightarrow> u32 \<times> u16 \<Rightarrow> (bool \<times> bool, wait_result) message_body" where
  "both_body en first_msg second_msg h payload seen =
    (if is_display_error h then go (Inl (WaitError (display_error en payload)))
     else
       let first_seen = (fst seen \<or> (sender_id h, opcode h) = first_msg);
           second_seen = (snd seen \<or> (sender_id h, opcode h) = second_msg)
       in go (if first_seen \<and> second_seen then Inl Matched else Inr (first_seen, second_seen)))"

function both_loop :: "endianness \<Rightarrow> u32 \<times> u16 \<Rightarrow> u32 \<times> u16 \<Rightarrow> nat \<Rightarrow> bool \<times> bool \<Rightarrow> wait_result probing" where
  "both_loop en first_msg second_msg deadline seen p =
    (case scan_inbox en (both_body en first_msg second_msg) seen p of
       (Inl e, p1) \<Rightarrow> (Inl e, p1)
     | (Inr (Inl r), p1) \<Rightarrow> (Inr r, p1)
     | (Inr (Inr seen'), p1) \<Rightarrow>
        if deadline \<le> clock p1 then (Inr WaitTimedOut, p1)
        else
          (case read_some p1 of
             (Inl e, p2) \<Rightarrow> (Inl e, p2)
           | (Inr GotData, p2) \<Rightarrow> both_loop en first_msg second_msg deadline seen' p2
           | (Inr GotEof, p2) \<Rightarrow> (Inr WaitClosed, p2)
           | (Inr GotWouldBlock, p2) \<Rightarrow>
               if deadline \<le> clock p2 then (Inr WaitTimedOut, p2)
               else both_loop en first_msg second_msg deadline seen' p2
           | (Inr GotError, p2) \<Rightarrow> (Inr (WaitError ReadFailed), p2)))"
  by pat_completeness auto
termination
  by (relation "measures [\<lambda>(en, f, s, dl, seen, p). length (incoming p), \<lambda>(en, f, s, dl, seen, p). dl - clock p]")
    (auto simp: read_some_def dest!: pull_cases(1) [OF sym] scan_inbox_keeps [OF sym])

definition read_until_both :: "endianness \<Rightarrow> u32 \<times> u16 \<Rightarrow> u32 \<times> u16 \<Rightarrow> nat \<Rightarrow> wait_result probing" where
  "read_until_both en first_msg second_msg deadline = both_loop en first_msg second_msg deadline (False, False)"

text \<open>\<open>drain_and_ack_configures\<close>: until nothing has been heard for \<open>quiet_for\<close>. Its body says whether
  any message was there, for \<open>last_activity\<close>.\<close>

definition ack_body :: "endianness \<Rightarrow> u32 \<Rightarrow> (bool, unit) message_body" where
  "ack_body en xdg_surface_id h payload _ =
    (case (if sender_id h = xdg_surface_id \<and> opcode h = 0 then read_u32 en payload 0 else None) of
       Some serial \<Rightarrow> and_then (write_all (build_message en xdg_surface_id 4 (u32s en [serial]))) (\<lambda>_. go (Inr True))
     | None \<Rightarrow> go (Inr True))"

function drain_loop :: "endianness \<Rightarrow> u32 \<Rightarrow> nat \<Rightarrow> nat \<Rightarrow> unit probing" where
  "drain_loop en xdg_surface_id quiet_for last_activity p =
    (case scan_inbox en (ack_body en xdg_surface_id) False p of
       (Inl e, p1) \<Rightarrow> (Inl e, p1)
     | (Inr (Inl _), p1) \<Rightarrow> (Inr (), p1)
     | (Inr (Inr any), p1) \<Rightarrow>
        let last = (if any then clock p1 else last_activity) in
        if quiet_for \<le> clock p1 - last then (Inr (), p1)
        else
          (case read_some p1 of
             (Inl e, p2) \<Rightarrow> (Inl e, p2)
           | (Inr GotData, p2) \<Rightarrow> drain_loop en xdg_surface_id quiet_for (clock p2) p2
           | (Inr GotWouldBlock, p2) \<Rightarrow> drain_loop en xdg_surface_id quiet_for last p2
           | (Inr _, p2) \<Rightarrow> (Inr (), p2)))"
  by pat_completeness auto
termination
proof (relation "measures [\<lambda>(en, x, q, last, p). length (incoming p), \<lambda>(en, x, q, last, p). length (inbox p),
    \<lambda>(en, x, q, last, p). last + q - clock p]", goal_cases)
  case (2 en x q l p res p1 res1 any last res2 p2)
  then show ?case by (auto simp: read_some_def dest!: pull_cases(1) [OF sym] scan_inbox_keeps [OF sym])
next
  case (3 en x q l p res p1 res1 any last res2 p2)
  then have sc: "scan_inbox en (ack_body en x) False p = (Inr (Inr any), p1)"
    and pl: "pull False p1 = (Inr GotWouldBlock, p2)" and q: "\<not> q \<le> clock p1 - (if any then clock p1 else l)"
    and l: "last = (if any then clock p1 else l)"
    by (simp_all add: read_some_def)
  show ?case using pull_cases(1,5) [OF pl] scan_inbox_keeps [OF sc] scan_inbox_progress [OF sc] q l
    by (cases any) auto
qed simp

definition drain_and_ack_configures :: "endianness \<Rightarrow> u32 \<Rightarrow> nat \<Rightarrow> unit probing" where
  "drain_and_ack_configures en xdg_surface_id quiet_for p = drain_loop en xdg_surface_id quiet_for (clock p) p"

section \<open>Trying again\<close>

text \<open>A bound on what can still happen: the delays to come, the answers of the kernel to writes, and
  the time the watchdog leaves.\<close>

definition budget :: "probe \<Rightarrow> nat" where
  "budget p = (\<Sum>ev\<leftarrow>incoming p. Suc (delay ev)) + length (accepts (desk p)) +
    (case watchdog p of None \<Rightarrow> 0 | Some w \<Rightarrow> w - clock p)"

lemma delay_postpone [simp]: "delay (postpone d ev) = delay ev - d"
  by (cases ev) simp_all

lemma blocking_read_budget:
  assumes "blocking_read p = (Inr r, p')"
  shows "budget p' \<le> budget p" "r \<noteq> ReadWouldBlock \<or> incoming p' \<noteq> [] \<or> watchdog p' \<noteq> None \<Longrightarrow> budget p' < budget p"
    "incoming p' \<noteq> [] \<Longrightarrow> incoming p \<noteq> []"
  using assms
  by (auto simp: blocking_read_def wake_after_def budget_def Let_def
      split: option.splits if_splits list.splits elim!: delivered.elims)

lemma pull_budget:
  assumes "pull k p = (Inr g, p')"
  shows "budget p' \<le> budget p" "g \<noteq> GotWouldBlock \<or> incoming p' \<noteq> [] \<or> watchdog p' \<noteq> None \<Longrightarrow> budget p' < budget p"
    "accepts (desk p') = accepts (desk p)"
proof -
  from assms obtain r p1 where r: "blocking_read p = (Inr r, p1)"
    and b: "incoming p' = incoming p1" "clock p' = clock p1" "watchdog p' = watchdog p1" "accepts (desk p') = accepts (desk p1)"
    and g: "g = GotWouldBlock \<longleftrightarrow> r = ReadWouldBlock"
    by (auto simp: pull_def and_then_def recv_with_fds_def split: prod.splits sum.splits read_result.splits)
  have "budget p' = budget p1" by (simp add: budget_def b split: option.split)
  then show "budget p' \<le> budget p" "g \<noteq> GotWouldBlock \<or> incoming p' \<noteq> [] \<or> watchdog p' \<noteq> None \<Longrightarrow> budget p' < budget p"
    "accepts (desk p') = accepts (desk p)"
    using blocking_read_budget [OF r] blocking_read_cases(5) [OF r] b g by auto
qed

text \<open>A body that neither changes the desk nor looks at it.\<close>

definition looks_only :: "('a, 'r) message_body \<Rightarrow> bool" where
  "looks_only body \<longleftrightarrow> (\<forall>h payload a. \<exists>x. \<forall>d. body h payload a d = (x, d))"

lemma run_frames_looks: "looks_only body \<Longrightarrow> \<exists>x. \<forall>d. run_frames body fs a d = (x, d)"
proof (induction fs arbitrary: a)
  case (Cons hp fs)
  obtain h payload where hp: "hp = (h, payload)" by fastforce
  obtain x where b: "body h payload a d = (x, d)" for d using Cons.prems unfolding looks_only_def by blast
  show ?case
  proof (cases "\<exists>a'. x = Inr (Inr a')")
    case True
    then obtain a' where "x = Inr (Inr a')" by blast
    with Cons.IH [OF Cons.prems, of a'] b show ?thesis by (simp add: hp and_then_def)
  next
    case False
    then show ?thesis using b by (cases x) (auto simp: hp and_then_def go_def split: sum.split)
  qed
qed (simp add: go_def)

lemma scan_inbox_looks:
  assumes "looks_only body" "scan_inbox en body a p = (r, p')"
  shows "desk p' = desk p"
  using scan_inbox_run [where en = en and body = body and a = a and p = p] run_frames_looks [OF assms(1), of "frames_of en (inbox p)" a] assms(2)
  by (auto split: prod.splits sum.splits)

lemma looks_wait: "looks_only (wait_body en s oc)" and looks_both: "looks_only (both_body en f s')"
  by (simp_all add: looks_only_def wait_body_def both_body_def go_def Let_def)

text \<open>What the first decisive message of a list of messages says.\<close>

fun verdict :: "endianness \<Rightarrow> u32 \<Rightarrow> u16 \<Rightarrow> (message_header \<times> byte list) list \<Rightarrow> wait_result option" where
  "verdict en s oc [] = None"
| "verdict en s oc ((h, payload) # fs) =
    (if is_display_error h then Some (WaitError (display_error en payload))
     else if sender_id h = s \<and> opcode h = oc then Some Matched
     else verdict en s oc fs)"

lemma verdict_append: "verdict en s oc (fs @ gs) = (case verdict en s oc fs of None \<Rightarrow> verdict en s oc gs | Some v \<Rightarrow> Some v)"
  by (induction fs) auto

lemma verdict_not_timed_out [simp]: "verdict en s oc fs \<noteq> Some WaitTimedOut" "verdict en s oc fs \<noteq> Some WaitClosed"
  by (induction fs) (auto split: if_splits)

lemma run_wait_body:
  "run_frames (wait_body en s oc) fs () d = (Inr (case verdict en s oc fs of None \<Rightarrow> Inr () | Some v \<Rightarrow> Inl v), d)"
  by (induction fs) (auto simp: wait_body_def and_then_def go_def)

lemma scan_wait_body:
  assumes "scan_inbox en (wait_body en s oc) () p = (x, p')"
  shows "x = Inr (case verdict en s oc (frames_of en (inbox p)) of None \<Rightarrow> Inr () | Some v \<Rightarrow> Inl v) \<and>
    (\<exists>i. p' = p\<lparr>inbox := i\<rparr> \<and> (x = Inr (Inr ()) \<longrightarrow> i = unframed en (inbox p)))"
proof -
  have "p\<lparr>inbox := i, desk := desk p\<rparr> = p\<lparr>inbox := i\<rparr>" for i by simp
  then show ?thesis
    using assms scan_inbox_run [where en = en and body = "wait_body en s oc" and a = "()" and p = p]
    by (auto simp: run_wait_body split: option.splits)
qed

lemma read_until_budget:
  assumes "read_until en s oc p = (Inr r, p')"
  shows "budget p' \<le> budget p \<and> accepts (desk p') = accepts (desk p) \<and>
    (r = WaitTimedOut \<longrightarrow> incoming p' \<noteq> [] \<or> watchdog p' \<noteq> None \<longrightarrow> budget p' < budget p)"
  using assms
proof (induction en s oc p rule: read_until.induct)
  case (1 en s oc p)
  obtain x p1 where sc: "scan_inbox en (wait_body en s oc) () p = (x, p1)" by fastforce
  have b1: "budget p1 = budget p" "accepts (desk p1) = accepts (desk p)"
    using scan_inbox_keeps [OF sc] scan_inbox_looks [OF looks_wait sc] by (simp_all add: budget_def split: option.split)
  show ?case
  proof (cases "x = Inr (Inr ())")
    case True
    note sc = sc [unfolded True]
    obtain y p2 where rd: "read_some p1 = (y, p2)" by fastforce
    show ?thesis
    proof (cases y)
      case (Inl e)
      then show ?thesis using 1(2) sc rd by (subst (asm) read_until.simps) simp
    next
      case (Inr g)
      note rd = rd [unfolded Inr]
      note pb = pull_budget [OF rd [unfolded read_some_def]]
      show ?thesis
      proof (cases "g = GotData")
        case True
        then have "read_until en s oc p2 = (Inr r, p')" using 1(2) sc rd by (subst (asm) read_until.simps) simp
        with 1(1) [OF sc [symmetric] refl refl rd [symmetric] refl True] show ?thesis using b1 pb by auto
      next
        case False
        then show ?thesis using 1(2) sc rd b1 pb
          by (subst (asm) read_until.simps) (cases g, auto)
      qed
    qed
  next
    case False
    with scan_wait_body [OF sc] obtain v where "x = Inr (Inl v)" "v \<noteq> WaitTimedOut"
      by (metis option.exhaust option.simps(4,5) verdict_not_timed_out(1))
    then show ?thesis using 1(2) sc b1 by (subst (asm) read_until.simps) auto
  qed
qed


lemma write_all_loop_accepts:
  "write_all_loop os msg log = (ok, os', log') \<Longrightarrow> length os' \<le> length os \<and> (msg \<noteq> [] \<and> os \<noteq> [] \<longrightarrow> length os' < length os)"
  by (induction os msg log arbitrary: ok os' log' rule: write_all_loop.induct)
    (fastforce split: if_splits send_outcome.splits)+

lemma send_all_keeps:
  assumes "send_all msg p = (r, p')"
  shows "incoming p' = incoming p \<and> clock p' = clock p \<and> read_timeout p' = read_timeout p \<and> watchdog p' = watchdog p \<and>
    inbox p' = inbox p \<and> fd_queue (desk p') = fd_queue (desk p) \<and> fd_writes (desk p') = fd_writes (desk p) \<and>
    reports (desk p') = reports (desk p)"
  using assms by (auto simp: send_all_def on_desk_def write_all_def split: prod.splits)

lemma send_all_budget:
  assumes "send_all msg p = (r, p')" "msg \<noteq> []"
  shows "budget p' \<le> budget p" "accepts (desk p') \<noteq> [] \<Longrightarrow> budget p' < budget p"
  using assms(1) write_all_loop_accepts [of "accepts (desk p)" msg "wire_log (desk p)"] assms(2) send_all_keeps [OF assms(1)]
  by (fastforce simp: send_all_def on_desk_def write_all_def budget_def split: prod.splits option.splits)+

text \<open>The loop of the reconnect probes that asks for a fresh callback until one is answered. When the
  kernel and the peer have nothing more to say and no watchdog runs, it goes on for ever.\<close>

function retry_sync :: "endianness \<Rightarrow> u32 \<Rightarrow> u32 probing" where
  "retry_sync en sync_id p =
    (case send_all (sync_message en sync_id) p of
       (Inl e, p1) \<Rightarrow> (Inl e, p1)
     | (Inr _, p1) \<Rightarrow>
        (case read_until en sync_id 0 p1 of
           (Inl e, p2) \<Rightarrow> (Inl e, p2)
         | (Inr Matched, p2) \<Rightarrow> (Inr sync_id, p2)
         | (Inr WaitTimedOut, p2) \<Rightarrow>
             if incoming p2 = [] \<and> accepts (desk p2) = [] \<and> watchdog p2 = None then (Inl NeverReturns, p2)
             else retry_sync en (sync_id + 1) p2
         | (Inr (WaitError e), p2) \<Rightarrow> (Inl (ExitFailure e), p2)
         | (Inr WaitClosed, p2) \<Rightarrow> (Inl (ExitFailure ConnectionClosed), p2)))"
  by pat_completeness auto
termination
proof (relation "measure (\<lambda>(en, i, p). budget p)", goal_cases)
  case (2 en i p x p1 u res p2 w)
  then have s: "send_all (sync_message en i) p = (x, p1)" and r: "read_until en i 0 p1 = (Inr WaitTimedOut, p2)"
    and c: "\<not> (incoming p2 = [] \<and> accepts (desk p2) = [] \<and> watchdog p2 = None)"
    by simp_all
  note sb = send_all_budget [OF s [unfolded sync_message_def] build_message_nonempty]
  show ?case using sb read_until_budget [OF r] c by auto
qed simp

section \<open>Watching for a while\<close>

text \<open>\<open>while goes_on && Instant::now() < deadline\<close>: the loops of the clipboard probes. A read that would
  block goes round again. The body leaves the whole loop with \<^const>\<open>Inl\<close>; a closed stream and a
  failed read leave it too, or panic.\<close>

function pump_while :: "endianness \<Rightarrow> ('a \<Rightarrow> bool) \<Rightarrow> ('a, 'a) message_body \<Rightarrow> probe_end option \<Rightarrow> probe_end option
    \<Rightarrow> nat \<Rightarrow> 'a \<Rightarrow> 'a probing" where
  "pump_while en goes_on body on_eof on_err deadline a p =
    (if \<not> goes_on a \<or> deadline \<le> clock p then (Inr a, p)
     else
       (case pump_once p of
          (Inl e, p1) \<Rightarrow> (Inl e, p1)
        | (Inr GotEof, p1) \<Rightarrow> (case on_eof of None \<Rightarrow> Inr a | Some e \<Rightarrow> Inl e, p1)
        | (Inr GotError, p1) \<Rightarrow> (case on_err of None \<Rightarrow> Inr a | Some e \<Rightarrow> Inl e, p1)
        | (Inr GotWouldBlock, p1) \<Rightarrow> pump_while en goes_on body on_eof on_err deadline a p1
        | (Inr GotData, p1) \<Rightarrow>
           (case scan_inbox en body a p1 of
              (Inl e, p2) \<Rightarrow> (Inl e, p2)
            | (Inr (Inl r), p2) \<Rightarrow> (Inr r, p2)
            | (Inr (Inr a'), p2) \<Rightarrow> pump_while en goes_on body on_eof on_err deadline a' p2)))"
  by pat_completeness auto
termination
proof (relation "measures [\<lambda>(en, g, b, oe, er, dl, a, p). length (incoming p), \<lambda>(en, g, b, oe, er, dl, a, p). dl - clock p]", goal_cases)
  case (2 en g b oe er dl a p x p1 y z p2 w)
  then have "pull True p = (Inr GotData, p1)" by (simp add: pump_once_def)
  from pull_cases(1) [OF this] show ?case using 2 by (auto dest!: scan_inbox_keeps [OF sym])
next
  case (3 en g b oe er dl a p x p1 y)
  then have "pull True p = (Inr GotWouldBlock, p1)" by (simp add: pump_once_def)
  from pull_cases(1) [OF this] show ?case using 3 by auto
qed simp

declare read_loop.simps [simp del] read_until.simps [simp del] both_loop.simps [simp del] drain_loop.simps [simp del]
  retry_sync.simps [simp del] pump_while.simps [simp del]

section \<open>Cuts do not matter\<close>

text \<open>Everything that will arrive before the stream ends, and how a wait that outlives it comes back.\<close>

fun stream_bytes :: "peer_event list \<Rightarrow> byte list" where
  "stream_bytes [] = []"
| "stream_bytes (PeerSends d bs cs # evs) = (if bs = [] then [] else bs @ stream_bytes evs)"
| "stream_bytes (PeerFails d # evs) = []"

datatype stream_ending = EndsNever | EndsClosed | EndsFailed

fun stream_end :: "peer_event list \<Rightarrow> stream_ending" where
  "stream_end [] = EndsNever"
| "stream_end (PeerSends d bs cs # evs) = (if bs = [] then EndsClosed else stream_end evs)"
| "stream_end (PeerFails d # evs) = EndsFailed"

text \<open>What a wait comes to: the verdict of the messages, or else that of the end of the stream.\<close>

fun wait_outcome :: "wait_result option \<Rightarrow> stream_ending \<Rightarrow> probe_end + wait_result" where
  "wait_outcome (Some v) e = Inr v"
| "wait_outcome None EndsNever = Inl NeverReturns"
| "wait_outcome None EndsClosed = Inr WaitClosed"
| "wait_outcome None EndsFailed = Inr (WaitError ReadFailed)"

definition stream_of :: "probe \<Rightarrow> byte list" where
  "stream_of p = inbox p @ stream_bytes (incoming p)"

text \<open>A blocking connection: no receive timeout, no watchdog.\<close>

definition untimed :: "probe \<Rightarrow> bool" where
  "untimed p \<longleftrightarrow> read_timeout p = 0 \<and> watchdog p = None"

lemma pull_untimed:
  assumes "untimed p"
  shows "(incoming p = [] \<and> pull k p = (Inl NeverReturns, p)) \<or>
    (\<exists>g p'. pull k p = (Inr g, p') \<and> untimed p' \<and>
       (g = GotData \<and> stream_of p' = stream_of p \<and> stream_end (incoming p') = stream_end (incoming p) \<and>
          (\<exists>bs. inbox p' = inbox p @ bs) \<and> wire_log (desk p') = wire_log (desk p) \<and> accepts (desk p') = accepts (desk p) \<and>
          (\<not> k \<longrightarrow> desk p' = desk p) \<or>
        g = GotEof \<and> stream_bytes (incoming p) = [] \<and> stream_end (incoming p) = EndsClosed \<and> inbox p' = inbox p \<or>
        g = GotError \<and> stream_bytes (incoming p) = [] \<and> stream_end (incoming p) = EndsFailed \<and> inbox p' = inbox p))"
proof (cases "incoming p")
  case Nil
  then show ?thesis using assms
    by (simp add: pull_def blocking_read_def wake_after_def untimed_def and_then_def)
next
  case (Cons ev evs)
  then show ?thesis using assms
    by (cases ev)
      (auto simp: pull_def blocking_read_def wake_after_def untimed_def and_then_def recv_with_fds_def stream_of_def Let_def)
qed

text \<open>A wait decides by the first decisive message of the stream, and leaves exactly what follows it.\<close>

lemma scan_untimed: "scan_inbox en body a p = (r, p') \<Longrightarrow> untimed p' = untimed p"
  by (auto simp: untimed_def dest: scan_inbox_keeps)

lemma read_until_decides:
  assumes "untimed p"
  shows "fst (read_until en s oc p) =
    wait_outcome (verdict en s oc (frames_of en (stream_of p))) (stream_end (incoming p))"
  using assms
proof (induction en s oc p rule: read_until.induct)
  case (1 en s oc p)
  obtain x p1 where sc: "scan_inbox en (wait_body en s oc) () p = (x, p1)" by fastforce
  note sw = scan_wait_body [OF sc]
  note k = scan_inbox_keeps [OF sc]
  note fa = frames_of_append [of en "inbox p" "stream_bytes (incoming p)", folded stream_of_def]
  show ?case
  proof (cases "verdict en s oc (frames_of en (inbox p))")
    case (Some v)
    then have "verdict en s oc (frames_of en (stream_of p)) = Some v" using fa by (simp add: verdict_append)
    then show ?thesis using Some sw sc by (subst read_until.simps) simp
  next
    case None
    then have x: "x = Inr (Inr ())" and i: "inbox p1 = unframed en (inbox p)" using sw by auto
    have vs: "verdict en s oc (frames_of en (stream_of p)) = verdict en s oc (frames_of en (stream_of p1))"
      using fa None i k by (simp add: verdict_append stream_of_def)
    have st: "frames_of en (inbox p1) = []" unfolding i using unframed_stuck frames_of_None by blast
    have u: "untimed p1" using scan_untimed [OF sc] 1(2) by simp
    note sc = sc [unfolded x]
    obtain y p2 where rd: "read_some p1 = (y, p2)" by fastforce
    note unfold = read_until.simps [of en s oc p, unfolded sc, simplified, unfolded rd, simplified]
    from pull_untimed [OF u, of False] rd show ?thesis
    proof (elim disjE exE conjE, goal_cases)
      case 1
      then have "y = Inl NeverReturns" "incoming p = []" using k by (auto simp: read_some_def)
      then show ?thesis using vs st by (simp add: unfold stream_of_def k)
    next
      case (2 g p' bs)
      then have y: "y = Inr GotData" "p' = p2" by (simp_all add: read_some_def)
      then have e: "read_until en s oc p = read_until en s oc p2" by (simp add: unfold)
      show ?thesis
        using 1(1) [OF sc [symmetric] refl refl rd [symmetric] y(1) refl] 2 y vs k unfolding e by simp
    next
      case (3 g p')
      then have "y = Inr GotEof" by (simp add: read_some_def)
      then show ?thesis using 3 vs st k by (simp add: unfold stream_of_def)
    next
      case (4 g p')
      then have "y = Inr GotError" by (simp add: read_some_def)
      then show ?thesis using 4 vs st k by (simp add: unfold stream_of_def)
    qed
  qed
qed

end
