(* ===== verification/Startup.thy ===== *)
theory Startup
  imports Server Recorder ProbeClient Handoff
begin

text \<open>
  How the process starts, and what it says to the user: \<open>src/cli.rs\<close>, the beginning of \<open>main\<close> in
  \<open>src/main.rs\<close> and \<open>src/notify.rs\<close>. Which flags are on the command line, the environment, the log
  filter's parser, the directory listings and the session bus are parameters. The settings of the helper of
  \<open>src/bin/socket-handoff.rs\<close> are here as well. Shown: a flag wins over the environment and that over the
  default; the recorder is told once; the socket that is proxied and the public one are different exactly when
  the two names are, which nothing checks; a program of the system's directory keeps its id whatever the user
  installs; a recovery does not depend on the notification.
\<close>

section \<open>Settings\<close>

record cli =
  cli_display :: string
  cli_record :: "string option"
  cli_log_level :: string
  cli_listen :: string

text \<open>Explicit flag, environment variable, default, in this order.\<close>

definition given :: "string option \<Rightarrow> string option \<Rightarrow> string option" where
  "given flag var = (case flag of Some v \<Rightarrow> Some v | None \<Rightarrow> var)"

definition given_or :: "string option \<Rightarrow> string option \<Rightarrow> string \<Rightarrow> string" where
  "given_or flag var default_value = (case given flag var of Some v \<Rightarrow> v | None \<Rightarrow> default_value)"

definition cli_parse :: "(string \<Rightarrow> string option) \<Rightarrow> (string \<Rightarrow> string option) \<Rightarrow> cli" where
  "cli_parse flag var =
    \<lparr>cli_display = given_or (flag ''display'') (var ''WAYLAND_DISPLAY'') ''wayland-1'',
     cli_record = given (flag ''record'') (var ''WAYLAND_PROXY_RECORD''),
     cli_log_level = given_or (flag ''log-level'') (var ''RUST_LOG'') ''info'',
     cli_listen = given_or (flag ''listen'') (var ''WAYLAND_PROXY_LISTEN'') ''wayland-proxy-0''\<rparr>"

lemma cli_defaults: "cli_parse (\<lambda>_. None) (\<lambda>_. None) =
    \<lparr>cli_display = ''wayland-1'', cli_record = None, cli_log_level = ''info'', cli_listen = ''wayland-proxy-0''\<rparr>"
  by (simp add: cli_parse_def given_def given_or_def)

lemma cli_flags_win:
  assumes "flag ''display'' = Some d" "flag ''record'' = Some r" "flag ''log-level'' = Some l" "flag ''listen'' = Some n"
  shows "cli_parse flag var = \<lparr>cli_display = d, cli_record = Some r, cli_log_level = l, cli_listen = n\<rparr>"
  using assms by (simp add: cli_parse_def given_def given_or_def)

section \<open>The application index\<close>

text \<open>\<open>DesktopAppIndex::build\<close>: the system's directory, then the user's, as \<open>read_dir\<close> lists them.\<close>

definition desktop_index_build :: "(string \<Rightarrow> (string \<times> byte list option) list option) \<Rightarrow> string option \<Rightarrow> desktop_app_index" where
  "desktop_index_build list_dir home =
    (let dirs = [''/usr/share/applications'']
     in case home of
          None \<Rightarrow> build_from_dirs (map list_dir dirs)
        | Some h \<Rightarrow> build_from_dirs (map list_dir (dirs @ [join_path h ''.local/share/applications''])))"

lemma add_entry_keeps:
  "resolve_by_binary idx b = Some a \<Longrightarrow> resolve_by_binary (add_entry e idx) b = Some a"
  "has_id idx a \<Longrightarrow> has_id (add_entry e idx) a"
  by (auto simp: resolve_by_binary_def has_id_def add_entry_def Let_def split: prod.split option.split)

lemma add_entries_keep:
  "resolve_by_binary idx b = Some a \<Longrightarrow> resolve_by_binary (fold add_entry es idx) b = Some a"
  "has_id idx a \<Longrightarrow> has_id (fold add_entry es idx) a"
  by (induction es arbitrary: idx) (simp_all add: add_entry_keeps)

text \<open>What the system's directory says of a program, the user's cannot change; it can only add.\<close>

lemma system_directory_wins:
  assumes "system = build_from_dirs [list_dir ''/usr/share/applications'']"
  shows "resolve_by_binary system b = Some a \<Longrightarrow> resolve_by_binary (desktop_index_build list_dir home) b = Some a"
    and "has_id system a \<Longrightarrow> has_id (desktop_index_build list_dir home) a"
  using assms
  by (auto simp: desktop_index_build_def build_from_dirs_def Let_def add_entries_keep split: option.splits)

section \<open>Settings of the helper\<close>

text \<open>The first four are required. The parsers of a number and of a method belong to \<open>clap\<close>.\<close>

record handoff_cli =
  hc_dir :: string
  hc_watch_name :: string
  hc_rename_to :: string
  hc_freeze_pid :: int
  hc_timeout_secs :: u64
  hc_freeze_method :: freeze_method

definition parsed_or :: "(string \<Rightarrow> 'v option) \<Rightarrow> string option \<Rightarrow> 'v \<Rightarrow> 'v option" where
  "parsed_or parse flag default_value = (case flag of None \<Rightarrow> Some default_value | Some v \<Rightarrow> parse v)"

definition handoff_parse :: "(string \<Rightarrow> int option) \<Rightarrow> (string \<Rightarrow> u64 option) \<Rightarrow> (string \<Rightarrow> freeze_method option)
    \<Rightarrow> (string \<Rightarrow> string option) \<Rightarrow> handoff_cli option" where
  "handoff_parse parse_pid parse_secs parse_method flag =
    (case (flag ''dir'', flag ''watch-name'', flag ''rename-to'', Option.bind (flag ''freeze-pid'') parse_pid,
           parsed_or parse_secs (flag ''timeout-secs'') 30, parsed_or parse_method (flag ''freeze-method'') Ptrace) of
       (Some d, Some w, Some r, Some p, Some t, Some m) \<Rightarrow>
         Some \<lparr>hc_dir = d, hc_watch_name = w, hc_rename_to = r, hc_freeze_pid = p, hc_timeout_secs = t, hc_freeze_method = m\<rparr>
     | _ \<Rightarrow> None)"

text \<open>\<open>main\<close> of the helper on a clock in milliseconds that shows \<open>started\<close> when the deadline is set.\<close>

definition handoff_main :: "handoff_cli \<Rightarrow> nat \<Rightarrow> bool \<Rightarrow> bool \<Rightarrow> trace_start \<Rightarrow> (nat \<Rightarrow> trace_round)
    \<Rightarrow> bool \<Rightarrow> bool \<Rightarrow> (nat \<Rightarrow> watch_round) \<Rightarrow> (handoff_error + unit) option" where
  "handoff_main c started target_present removes st trace_rounds inotify_ok watch_ok watch_rounds =
    run_handoff (hc_freeze_method c) (hc_watch_name c) (started + 1000 * unat (hc_timeout_secs c))
      target_present removes st trace_rounds inotify_ok watch_ok watch_rounds"

text \<open>Without \<open>--timeout-secs\<close> the helper is done once thirty seconds have passed.\<close>

lemma helper_done_in_time:
  assumes "handoff_parse parse_pid parse_secs parse_method flag = Some c" "flag ''timeout-secs'' = None"
    and "started + 30000 \<le> now (tr m)" "started + 30000 \<le> watch_now (wr k)"
  shows "\<exists>res. handoff_main c started p rm st tr i w wr = Some res"
proof -
  have "unat (hc_timeout_secs c) = 30"
    using assms(1,2) by (auto simp: handoff_parse_def parsed_or_def split: option.splits)
  then show ?thesis using assms(3,4) by (auto simp: handoff_main_def intro: run_handoff_returns)
qed

lemma helper_traces_by_default:
  "handoff_parse parse_pid parse_secs parse_method flag = Some c \<Longrightarrow> flag ''freeze-method'' = None \<Longrightarrow>
   hc_freeze_method c = Ptrace"
  by (auto simp: handoff_parse_def parsed_or_def split: option.splits)

section \<open>Up to the first accept\<close>

datatype start_error = BadLogFilter | NoRuntimeDirectory | ListenFailed bind_error | NoSignalHandler

text \<open>\<open>owner_of\<close> says who has a path before the start. The value is the path that is proxied, the public
  path and the process; \<open>installs\<close> is about the handler of \<open>SIGUSR1\<close>.\<close>

definition process_start :: "(string \<Rightarrow> bool) \<Rightarrow> string option \<Rightarrow> cli \<Rightarrow> (string \<Rightarrow> name_owner) \<Rightarrow> bool \<Rightarrow> bool
    \<Rightarrow> bool \<Rightarrow> recorder_cells \<Rightarrow> (start_error + string \<times> string \<times> 'b server) \<times> recorder_cells" where
  "process_start filter_ok runtime_dir args owner_of removes binds installs cells =
    (if \<not> filter_ok (cli_log_level args) then (Inl BadLogFilter, cells)
     else
       let cells = recorder_init (cli_record args) cells in
       (case runtime_dir of
          None \<Rightarrow> (Inl NoRuntimeDirectory, cells)
        | Some dir \<Rightarrow>
           let target = join_path dir (cli_display args); public = join_path dir (cli_listen args) in
           (case server_start removes binds (owner_of public) of
              Inl e \<Rightarrow> (Inl (ListenFailed e), cells)
            | Inr sv \<Rightarrow> if installs then (Inr (target, public, sv), cells) else (Inl NoSignalHandler, cells))))"

lemma join_path_inj:
  assumes "a \<noteq> []" "b \<noteq> []" "hd a \<noteq> CHR ''/''" "hd b \<noteq> CHR ''/''"
  shows "join_path d a = join_path d b \<longleftrightarrow> a = b"
  using assms by (cases a; cases b) (simp_all add: join_path_def)

lemma process_started:
  assumes "process_start filter_ok rd args owner_of removes binds installs cells = (Inr (target, public, sv), cells')"
  shows "cells' = recorder_init (cli_record args) cells \<and> public_name sv = Ours (listener sv) \<and> clients sv = [] \<and>
    (\<exists>dir. rd = Some dir \<and> target = join_path dir (cli_display args) \<and> public = join_path dir (cli_listen args))"
  using assms
  by (auto simp: process_start_def server_start_def bind_listener_def Let_def split: if_splits option.splits sum.splits prod.splits)

text \<open>Started without flags in a session whose \<open>WAYLAND_DISPLAY\<close> is the proxy's public name, it proxies for itself.\<close>

lemma proxies_itself:
  assumes "var ''WAYLAND_DISPLAY'' = Some ''wayland-proxy-0''" "var ''WAYLAND_PROXY_LISTEN'' = None"
    and "process_start filter_ok rd (cli_parse (\<lambda>_. None) var) owner_of removes binds installs cells = (Inr (target, public, sv), cells')"
  shows "target = public \<and> public_name sv = Ours (listener sv)"
  using process_started [OF assms(3)] assms(1,2) by (auto simp: cli_parse_def given_def given_or_def)

lemma different_names_different_paths:
  assumes "process_start filter_ok rd args owner_of removes binds installs cells = (Inr (target, public, sv), cells')"
    and "cli_display args \<noteq> []" "cli_listen args \<noteq> []" "hd (cli_display args) \<noteq> CHR ''/''" "hd (cli_listen args) \<noteq> CHR ''/''"
  shows "target = public \<longleftrightarrow> cli_display args = cli_listen args"
  using process_started [OF assms(1)] join_path_inj [OF assms(2-5)] by auto

section \<open>Telling the user\<close>

record notification =
  notify_app :: string
  notify_replaces :: u32
  notify_icon :: string
  notify_summary :: string
  notify_body :: string
  notify_actions :: "string list"
  notify_hints :: "(string \<times> string) list"
  notify_timeout :: int

definition notification_of :: "string \<Rightarrow> notification" where
  "notification_of body =
    \<lparr>notify_app = ''wl-resprox'', notify_replaces = 0, notify_icon = ''dialog-information'',
     notify_summary = ''Compositor recovered'', notify_body = body, notify_actions = [], notify_hints = [], notify_timeout = 5000\<rparr>"

text \<open>The session bus: whether it can be reached, and whether the call succeeds. The value says whether a
  warning is logged.\<close>

definition notify_send :: "bool \<Rightarrow> (notification \<Rightarrow> bool) \<Rightarrow> string \<Rightarrow> bool" where
  "notify_send session call body = (session \<and> call (notification_of body))"

definition notify_recovered :: "bool \<Rightarrow> (notification \<Rightarrow> bool) \<Rightarrow> (int \<Rightarrow> byte list option) \<Rightarrow> int option \<Rightarrow> bool" where
  "notify_recovered session call comm pid = (\<not> notify_send session call (notification_body comm pid))"

lemma notify_unknown_client:
  "pid = None \<or> (\<exists>i. pid = Some i \<and> comm i = None) \<Longrightarrow>
     notification_body comm pid = ''A client reconnected after the compositor restarted.''"
  by (auto simp: notification_body_def process_name_def)

end
