(* ===== verification/ProbeRules.thy ===== *)
theory ProbeRules
  imports ProbeClient
begin

text \<open>
  Rules to reason about the phases of the probes. The locale \<open>trail\<close> follows a list that the phases
  add to; it is interpreted for what reaches the wire when the kernel takes every write and for the
  messages that are taken off the stream. \<open>watched\<close> says that a phase comes back while a watchdog
  runs, and by its instant. Each is a predicate on phases with one rule per way of building them, so that a fact
  about a \<open>main\<close> is the composition of those of its steps.
\<close>

section \<open>A kernel that takes every write\<close>

definition logged :: "byte list \<Rightarrow> fd list \<Rightarrow> probe \<Rightarrow> probe" where
  "logged msg fds p = p\<lparr>desk := (desk p)\<lparr>wire_log := wire_log (desk p) @ [(msg, send_cmsgs fds)]\<rparr>\<rparr>"

lemma logged_fields [simp]:
  "inbox (logged msg fds p) = inbox p" "incoming (logged msg fds p) = incoming p" "clock (logged msg fds p) = clock p"
  "read_timeout (logged msg fds p) = read_timeout p" "watchdog (logged msg fds p) = watchdog p"
  "accepts (desk (logged msg fds p)) = accepts (desk p)" "fd_queue (desk (logged msg fds p)) = fd_queue (desk p)"
  "wire_log (desk (logged msg fds p)) = wire_log (desk p) @ [(msg, send_cmsgs fds)]"
  "stream_of (logged msg fds p) = stream_of p"
  by (simp_all add: logged_def stream_of_def)

lemma send_all_willing: "accepts (desk p) = [] \<Longrightarrow> msg \<noteq> [] \<Longrightarrow> send_all msg p = (Inr (), logged msg [] p)"
  by (simp add: send_all_def on_desk_def write_all_def logged_def send_cmsgs_def)

lemma send_fds_willing: "accepts (desk p) = [] \<Longrightarrow> send_fds msg fds p = (Inr (), logged msg fds p)"
  by (simp add: send_fds_def on_desk_def send_with_fds_def logged_def)

lemma and_then_willing:
  "accepts (desk p) = [] \<Longrightarrow> msg \<noteq> [] \<Longrightarrow> and_then (send_all msg) f p = f () (logged msg [] p)"
  "accepts (desk p) = [] \<Longrightarrow> and_then (send_fds msg fds) g p = g () (logged msg fds p)"
  by (simp_all add: and_then_eq send_all_willing send_fds_willing)

lemma phase_apply [simp]: "go a s = (Inr a, s)" "halt e s = (Inl e, s)"
  by (simp_all add: go_def halt_def)

lemma and_then_halt [simp]: "and_then (halt e) f = halt e"
  by (simp add: and_then_def halt_def)

lemma and_then_modify [simp]: "and_then (modify g) f p = f () (g p)"
  by (simp add: and_then_def modify_def)

text \<open>A loop that only looks leaves the desk alone, and what it gives up with is its caller's or its
  body's.\<close>

definition gives_up :: "('a, 'r) message_body \<Rightarrow> probe_end \<Rightarrow> bool" where
  "gives_up body e \<longleftrightarrow> (\<exists>h payload a d. fst (body h payload a d) = Inl e)"

lemma run_frames_gives_up: "fst (run_frames body fs a d) = Inl e \<Longrightarrow> gives_up body e"
proof (induction fs arbitrary: a d)
  case (Cons hp fs)
  obtain h payload where hp: "hp = (h, payload)" by fastforce
  obtain x d' where b: "body h payload a d = (x, d')" by fastforce
  show ?case
  proof (cases x)
    case (Inl e')
    then have "fst (body h payload a d) = Inl e" using Cons.prems b by (simp add: hp and_then_def)
    then show ?thesis unfolding gives_up_def by blast
  next
    case (Inr y)
    then show ?thesis using Cons b by (cases y) (auto simp: hp and_then_def go_def)
  qed
qed (simp add: go_def)

lemma scan_inbox_gives_up: "scan_inbox en body a p = (Inl e, p') \<Longrightarrow> gives_up body e"
  using scan_inbox_run [where en = en and body = body and a = a and p = p]
    run_frames_gives_up [of body "frames_of en (inbox p)" a "desk p" e]
  by (auto split: prod.splits sum.splits)

lemma pull_gives_up: "pull k p = (Inl e, p') \<Longrightarrow> e \<in> {NeverReturns, KilledByWatchdog} \<and> desk p' = desk p"
  by (auto simp: pull_def and_then_def blocking_read_def Let_def recv_with_fds_def
      split: prod.splits sum.splits read_result.splits option.splits if_splits list.splits)

lemma pull_desk: "pull False p = (r, p') \<Longrightarrow> desk p' = desk p"
  by (auto simp: pull_def and_then_def blocking_read_def Let_def recv_with_fds_def
      split: prod.splits sum.splits read_result.splits option.splits if_splits list.splits)

lemma read_loop_looks:
  assumes "read_loop en False body closed failed a p = (r, p')" "looks_only body"
  shows "desk p' = desk p \<and> (\<forall>e. r = Inl e \<longrightarrow> e \<in> {NeverReturns, KilledByWatchdog, closed, failed} \<or> gives_up body e)"
  using assms
proof (induction en "False" body closed failed a p rule: read_loop.induct)
  case (1 en body closed failed a p)
  obtain x p1 where pl: "pull False p = (x, p1)" by fastforce
  note d1 = pull_desk [OF pl]
  show ?case
  proof (cases "x = Inr GotData")
    case True
    obtain y p2 where sc: "scan_inbox en body a p1 = (y, p2)" by fastforce
    note d2 = scan_inbox_looks [OF 1(3) sc]
    show ?thesis
    proof (cases "\<exists>a'. y = Inr (Inr a')")
      case cont: True
      then obtain a' where y: "y = Inr (Inr a')" by blast
      have "read_loop en False body closed failed a' p2 = (r, p')"
        using 1(2) pl True sc y by (subst (asm) read_loop.simps) simp
      with 1(1) [OF pl [symmetric] True refl sc [symmetric] y refl _ 1(3)] d1 d2 show ?thesis by simp
    next
      case False
      then show ?thesis using 1(2) pl True sc d1 d2 scan_inbox_gives_up
        by (subst (asm) read_loop.simps) (fastforce split: sum.splits)
    qed
  next
    case False
    then show ?thesis using 1(2) pl d1 pull_gives_up [of False p _ p1]
      by (subst (asm) read_loop.simps) (fastforce split: sum.splits pulled.splits)
  qed
qed

section \<open>Trails\<close>

text \<open>A trail is a list that a phase adds to: the writes it makes, the messages it takes off the
  stream. \<open>ok\<close> is what has to hold of the state for it to be kept; trails of consecutive phases are
  appended.\<close>

definition traces :: "(probe \<Rightarrow> bool) \<Rightarrow> (probe \<Rightarrow> probe \<Rightarrow> 'l list \<Rightarrow> bool) \<Rightarrow> 'a probing
    \<Rightarrow> ((probe_end + 'a) \<Rightarrow> 'l list \<Rightarrow> bool) \<Rightarrow> bool" where
  "traces ok tr m W \<longleftrightarrow> (\<forall>p r p'. ok p \<and> m p = (r, p') \<longrightarrow> ok p' \<and> (\<exists>ext. tr p p' ext \<and> W r ext))"

definition in_turn :: "((probe_end + 'a) \<Rightarrow> 'l list \<Rightarrow> bool) \<Rightarrow> ('a \<Rightarrow> (probe_end + 'b) \<Rightarrow> 'l list \<Rightarrow> bool)
    \<Rightarrow> (probe_end + 'b) \<Rightarrow> 'l list \<Rightarrow> bool" where
  "in_turn W R r ext \<longleftrightarrow>
    (\<exists>e. r = Inl e \<and> W (Inl e) ext) \<or> (\<exists>a x y. ext = x @ y \<and> W (Inr a) x \<and> R a r y)"

lemma tracesD: "traces ok tr m W \<Longrightarrow> m p = (r, p') \<Longrightarrow> ok p \<Longrightarrow> ok p' \<and> (\<exists>ext. tr p p' ext \<and> W r ext)"
  by (simp add: traces_def)

lemma traces_mono: "traces ok tr m W \<Longrightarrow> (\<And>r ext. W r ext \<Longrightarrow> W' r ext) \<Longrightarrow> traces ok tr m W'"
  unfolding traces_def by blast

abbreviation no_trail :: "(probe_end + 'a) \<Rightarrow> 'l list \<Rightarrow> bool" where
  "no_trail \<equiv> \<lambda>r ext. r \<noteq> Inl ExitSuccess \<and> ext = []"

locale trail =
  fixes ok :: "probe \<Rightarrow> bool" and tr :: "probe \<Rightarrow> probe \<Rightarrow> 'l list \<Rightarrow> bool"
  assumes stay: "ok p \<Longrightarrow> tr p p []"
    and join: "tr p1 p2 x \<Longrightarrow> tr p2 p3 y \<Longrightarrow> tr p1 p3 (x @ y)"
begin

lemma and_then:
  assumes "traces ok tr m W" "\<And>a. traces ok tr (f a) (R a)"
  shows "traces ok tr (and_then m f) (in_turn W R)"
  unfolding traces_def
proof (intro allI impI, elim conjE)
  fix p r p' assume a: "ok p" and e: "and_then m f p = (r, p')"
  obtain x p1 where m: "m p = (x, p1)" by fastforce
  from tracesD [OF assms(1) m a] obtain ext where 1: "ok p1" "tr p p1 ext" "W x ext" by blast
  show "ok p' \<and> (\<exists>ext. tr p p' ext \<and> in_turn W R r ext)"
  proof (cases x)
    case (Inl y)
    then show ?thesis using e m 1 by (auto simp: and_then_eq in_turn_def)
  next
    case (Inr y)
    then have "f y p1 = (r, p')" using e m by (simp add: and_then_eq)
    from tracesD [OF assms(2) this 1(1)] obtain ext' where "ok p'" "tr p1 p' ext'" "R y r ext'" by blast
    then show ?thesis using 1 Inr join by (fastforce simp: in_turn_def)
  qed
qed

lemma go: "traces ok tr (go a) (\<lambda>r ext. r = Inr a \<and> ext = [])"
  and halt: "traces ok tr (halt e) (\<lambda>r ext. r = Inl e \<and> ext = [])"
  by (auto simp: traces_def stay)

lemma branch: "traces ok tr m W \<Longrightarrow> traces ok tr n V \<Longrightarrow> traces ok tr (if b then m else n) (\<lambda>r ext. if b then W r ext else V r ext)"
  by simp

lemma pair: "(\<And>a b. traces ok tr (f a b) (R a b)) \<Longrightarrow> traces ok tr (case_prod f x) (case_prod R x)"
  by (cases x) simp

text \<open>A phase that leaves no trail and does not end the probe with success.\<close>

lemma silent:
  assumes "\<And>p r p'. ok p \<Longrightarrow> m p = (r, p') \<Longrightarrow> ok p' \<and> tr p p' [] \<and> r \<noteq> Inl ExitSuccess"
  shows "traces ok tr m no_trail"
  using assms unfolding traces_def by blast

lemma quiet_ends: "traces ok tr (go a) no_trail" "e \<noteq> ExitSuccess \<Longrightarrow> traces ok tr (halt e) no_trail"
  by (auto simp: traces_def stay)

lemma quiet_and_then:
  assumes "traces ok tr m no_trail" "\<And>a. traces ok tr (f a) no_trail"
  shows "traces ok tr (and_then m f) no_trail"
  by (rule traces_mono [OF and_then [OF assms]]) (auto simp: in_turn_def)

lemmas quiet = quiet_ends quiet_and_then

lemmas rules = and_then go halt branch pair

end

section \<open>What is written\<close>

type_synonym send_log = "(byte list \<times> cmsg list) list"

abbreviation obliging :: "probe \<Rightarrow> bool" where
  "obliging p \<equiv> accepts (desk p) = []"

definition wrote :: "probe \<Rightarrow> probe \<Rightarrow> send_log \<Rightarrow> bool" where
  "wrote p p' ext \<longleftrightarrow> wire_log (desk p') = wire_log (desk p) @ ext"

interpretation outgoing: trail obliging wrote
  by unfold_locales (auto simp: wrote_def)

abbreviation writes :: "'a probing \<Rightarrow> ((probe_end + 'a) \<Rightarrow> send_log \<Rightarrow> bool) \<Rightarrow> bool" where
  "writes \<equiv> traces obliging wrote"

named_theorems write_rules "what the phases of a probe write"

lemmas [write_rules] = outgoing.rules

lemma writesD:
  "writes m W \<Longrightarrow> m p = (r, p') \<Longrightarrow> obliging p \<Longrightarrow> obliging p' \<and> (\<exists>ext. wire_log (desk p') = wire_log (desk p) @ ext \<and> W r ext)"
  by (auto dest: tracesD simp: wrote_def)

lemma writes_send_all [write_rules]: "msg \<noteq> [] \<Longrightarrow> writes (send_all msg) (\<lambda>r ext. r = Inr () \<and> ext = [(msg, [])])"
  by (auto simp: traces_def wrote_def send_all_willing send_cmsgs_def)

lemma writes_send_fds [write_rules]: "writes (send_fds msg fds) (\<lambda>r ext. r = Inr () \<and> ext = [(msg, send_cmsgs fds)])"
  by (auto simp: traces_def wrote_def send_fds_willing)

lemma writes_timeout [write_rules]: "writes (set_read_timeout t) no_trail"
  and writes_watchdog [write_rules]: "writes (start_watchdog ms) no_trail"
  and writes_display [write_rules]: "writes (open_display d os) no_trail"
  by (rule outgoing.silent; auto simp: wrote_def set_read_timeout_def start_watchdog_def modify_def open_display_def
      split: option.splits if_splits)+

lemma writes_read_loop [write_rules]:
  assumes "looks_only body" "\<not> gives_up body ExitSuccess" "closed \<noteq> ExitSuccess" "failed \<noteq> ExitSuccess"
  shows "writes (read_loop en False body closed failed a) no_trail"
  by (rule outgoing.silent) (use read_loop_looks [OF _ assms(1)] assms(2-4) in \<open>fastforce simp: wrote_def\<close>)

section \<open>Under a watchdog\<close>

definition in_time :: "nat \<Rightarrow> probe \<Rightarrow> probe \<Rightarrow> bool" where
  "in_time w p p' \<longleftrightarrow> watchdog p' = Some w \<and> clock p \<le> clock p' \<and> clock p' \<le> w"

definition watched :: "'a probing \<Rightarrow> bool" where
  "watched m \<longleftrightarrow> (\<forall>p r p' w. watchdog p = Some w \<and> clock p \<le> w \<and> m p = (r, p') \<longrightarrow> in_time w p p' \<and> r \<noteq> Inl NeverReturns)"

named_theorems watch_rules "phases that come back while a watchdog runs"

lemma watchedD: "watched m \<Longrightarrow> m p = (r, p') \<Longrightarrow> watchdog p = Some w \<Longrightarrow> clock p \<le> w \<Longrightarrow> in_time w p p' \<and> r \<noteq> Inl NeverReturns"
  by (simp add: watched_def)

lemma in_time_trans: "in_time w p1 p2 \<Longrightarrow> in_time w p2 p3 \<Longrightarrow> in_time w p1 p3"
  by (simp add: in_time_def)

lemma watched_and_then [watch_rules]:
  assumes "watched m" "\<And>a. watched (f a)"
  shows "watched (and_then m f)"
  unfolding watched_def
proof (intro allI impI, elim conjE)
  fix p r p' w assume w: "watchdog p = Some w" "clock p \<le> w" and e: "and_then m f p = (r, p')"
  obtain x p1 where m: "m p = (x, p1)" by fastforce
  note i = watchedD [OF assms(1) m w]
  show "in_time w p p' \<and> r \<noteq> Inl NeverReturns"
  proof (cases x)
    case (Inl y)
    then show ?thesis using e m i by (auto simp: and_then_eq)
  next
    case (Inr y)
    then have "f y p1 = (r, p')" using e m by (simp add: and_then_eq)
    from watchedD [OF assms(2) this] i show ?thesis by (auto simp: in_time_def)
  qed
qed

lemma watched_go [watch_rules]: "watched (go a)"
  and watched_halt [watch_rules]: "e \<noteq> NeverReturns \<Longrightarrow> watched (halt e)"
  and watched_timeout [watch_rules]: "watched (set_read_timeout t)"
  by (auto simp: watched_def in_time_def set_read_timeout_def split: option.splits if_splits)

lemma watched_send_all [watch_rules]: "watched (send_all msg)"
  and watched_send_fds [watch_rules]: "watched (send_fds msg fds)"
  by (auto simp: watched_def in_time_def send_all_def send_fds_def on_desk_def write_all_def send_with_fds_def
      split: prod.splits if_splits list.splits send_outcome.splits)

lemma watched_if [watch_rules]: "watched m \<Longrightarrow> watched n \<Longrightarrow> watched (if b then m else n)"
  by simp

lemma watched_prod [watch_rules]: "(\<And>a b. watched (f a b)) \<Longrightarrow> watched (case_prod f x)"
  by (cases x) simp

lemma watched_clock: "(\<And>t. watched (f t)) \<Longrightarrow> watched (\<lambda>p. f (clock p) p)"
  unfolding watched_def by blast

lemma pull_watched:
  assumes "pull k p = (r, p')" "watchdog p = Some w" "clock p \<le> w"
  shows "in_time w p p' \<and> r \<noteq> Inl NeverReturns"
  using assms
  by (auto simp: in_time_def pull_def and_then_def blocking_read_def Let_def recv_with_fds_def
      split: prod.splits sum.splits read_result.splits option.splits if_splits list.splits)

lemma scan_watched:
  assumes "scan_inbox en body a p = (r, p')" "watchdog p = Some w" "clock p \<le> w" "\<not> gives_up body NeverReturns"
  shows "in_time w p p' \<and> r \<noteq> Inl NeverReturns"
  using scan_inbox_keeps [OF assms(1)] scan_inbox_gives_up [of en body a p NeverReturns] assms by (auto simp: in_time_def)

lemma no_gives_up [simp]:
  "\<not> gives_up (wait_body en s oc) e" "\<not> gives_up (both_body en f g) e" "\<not> gives_up (ack_body en i) NeverReturns"
  "\<not> gives_up (ack_body en i) ExitSuccess"
  by (auto simp: gives_up_def wait_body_def both_body_def ack_body_def Let_def and_then_def write_all_def
      split: option.splits prod.splits if_splits)

lemma watched_read_until [watch_rules]: "watched (read_until en s oc)"
  unfolding watched_def
proof (intro allI impI, elim conjE)
  fix p r p' w
  show "in_time w p p' \<and> r \<noteq> Inl NeverReturns"
    if "watchdog p = Some w" "clock p \<le> w" "read_until en s oc p = (r, p')"
    using that
  proof (induction en s oc p rule: read_until.induct)
    case (1 en s oc p)
    obtain x p1 where sc: "scan_inbox en (wait_body en s oc) () p = (x, p1)" by fastforce
    note w1 = scan_watched [OF sc 1(2,3) no_gives_up(1)]
    obtain y p2 where rd: "read_some p1 = (y, p2)" by fastforce
    have w2: "in_time w p p2 \<and> y \<noteq> Inl NeverReturns"
      using pull_watched [OF rd [unfolded read_some_def]] w1 by (auto simp: in_time_def)
    show ?case
    proof (cases "x = Inr (Inr ()) \<and> y = Inr GotData")
      case True
      then have "read_until en s oc p2 = (r, p')" using 1(4) sc rd by (subst (asm) read_until.simps) simp
      with 1(1) [OF sc [symmetric] _ refl rd [symmetric], of "()" GotData] True w2 have "in_time w p2 p' \<and> r \<noteq> Inl NeverReturns"
        by (simp add: in_time_def)
      then show ?thesis using w2 in_time_trans by blast
    next
      case False
      then show ?thesis using 1(4) sc rd w1 w2
        by (subst (asm) read_until.simps) (auto split: sum.splits pulled.splits)
    qed
  qed
qed

lemma watched_both_loop: "watched (both_loop en f g dl seen)"
  unfolding watched_def
proof (intro allI impI, elim conjE)
  fix p r p' w
  show "in_time w p p' \<and> r \<noteq> Inl NeverReturns"
    if "watchdog p = Some w" "clock p \<le> w" "both_loop en f g dl seen p = (r, p')"
    using that
  proof (induction en f g dl seen p rule: both_loop.induct)
    case (1 en f g dl seen p)
    obtain x p1 where sc: "scan_inbox en (both_body en f g) seen p = (x, p1)" by fastforce
    note w1 = scan_watched [OF sc 1(3,4) no_gives_up(2)]
    obtain y p2 where rd: "read_some p1 = (y, p2)" by fastforce
    have w2: "in_time w p p2 \<and> y \<noteq> Inl NeverReturns"
      using pull_watched [OF rd [unfolded read_some_def]] w1 by (auto simp: in_time_def)
    show ?case
    proof (cases "\<exists>s. x = Inr (Inr s) \<and> \<not> dl \<le> clock p1 \<and> (y = Inr GotData \<or> y = Inr GotWouldBlock \<and> \<not> dl \<le> clock p2)")
      case True
      then obtain s where s: "x = Inr (Inr s)" "\<not> dl \<le> clock p1" "y = Inr GotData \<or> y = Inr GotWouldBlock \<and> \<not> dl \<le> clock p2" by blast
      then have "both_loop en f g dl s p2 = (r, p')" using 1(5) sc rd by (subst (asm) both_loop.simps) auto
      with 1(1,2) [OF sc [symmetric] s(1) refl s(2) rd [symmetric]] s(3) w2 show ?thesis by (auto simp: in_time_def)
    next
      case False
      then show ?thesis using 1(5) sc rd w1 w2
        by (subst (asm) both_loop.simps) (auto split: sum.splits pulled.splits if_splits)
    qed
  qed
qed

lemma watched_read_both [watch_rules]: "watched (read_until_both en f g dl)"
  unfolding read_until_both_def by (rule watched_both_loop)

lemma watched_drain_loop: "watched (drain_loop en i q l)"
  unfolding watched_def
proof (intro allI impI, elim conjE)
  fix p r p' w
  show "in_time w p p' \<and> r \<noteq> Inl NeverReturns"
    if "watchdog p = Some w" "clock p \<le> w" "drain_loop en i q l p = (r, p')"
    using that
  proof (induction en i q l p rule: drain_loop.induct)
    case (1 en i q l p)
    obtain x p1 where sc: "scan_inbox en (ack_body en i) False p = (x, p1)" by fastforce
    note w1 = scan_watched [OF sc 1(3,4) no_gives_up(3)]
    obtain y p2 where rd: "read_some p1 = (y, p2)" by fastforce
    have w2: "in_time w p p2 \<and> y \<noteq> Inl NeverReturns"
      using pull_watched [OF rd [unfolded read_some_def]] w1 by (auto simp: in_time_def)
    show ?case
    proof (cases "\<exists>a. x = Inr (Inr a) \<and> \<not> q \<le> clock p1 - (if a then clock p1 else l) \<and> (y = Inr GotData \<or> y = Inr GotWouldBlock)")
      case True
      then obtain a where a: "x = Inr (Inr a)" "\<not> q \<le> clock p1 - (if a then clock p1 else l)" and y: "y = Inr GotData \<or> y = Inr GotWouldBlock"
        by blast
      define l' where "l' = (if y = Inr GotData then clock p2 else if a then clock p1 else l)"
      have e: "drain_loop en i q l' p2 = (r, p')" using 1(5) sc rd a y unfolding l'_def
        by (subst (asm) drain_loop.simps) (auto simp: Let_def split: if_splits)
      have "in_time w p2 p' \<and> r \<noteq> Inl NeverReturns"
      proof (cases "y = Inr GotData")
        case True
        then show ?thesis using 1(1) [OF sc [symmetric] a(1) refl refl a(2) rd [symmetric] True refl] e w2 by (simp add: l'_def in_time_def)
      next
        case False
        with y have y': "y = Inr GotWouldBlock" by simp
        then show ?thesis using 1(2) [OF sc [symmetric] a(1) refl refl a(2) rd [symmetric] y' refl] e w2 by (simp add: l'_def in_time_def)
      qed
      then show ?thesis using w2 in_time_trans by blast
    next
      case False
      then show ?thesis using 1(5) sc rd w1 w2
        by (subst (asm) drain_loop.simps) (auto simp: Let_def split: sum.splits pulled.splits if_splits)
    qed
  qed
qed

lemma watched_drain [watch_rules]: "watched (drain_and_ack_configures en i q)"
  using watched_drain_loop unfolding watched_def drain_and_ack_configures_def by blast

lemma watched_retry [watch_rules]: "watched (retry_sync en i)"
  unfolding watched_def
proof (intro allI impI, elim conjE)
  fix p r p' w
  show "in_time w p p' \<and> r \<noteq> Inl NeverReturns"
    if "watchdog p = Some w" "clock p \<le> w" "retry_sync en i p = (r, p')"
    using that
  proof (induction en i p rule: retry_sync.induct)
    case (1 en i p)
    obtain x p1 where s: "send_all (sync_message en i) p = (x, p1)" by fastforce
    note w1 = watchedD [OF watched_send_all s 1(2,3)]
    obtain y p2 where rd: "read_until en i 0 p1 = (y, p2)" by fastforce
    have w2: "in_time w p p2 \<and> y \<noteq> Inl NeverReturns"
      using watchedD [OF watched_read_until rd] w1 by (auto simp: in_time_def)
    then have nw: "watchdog p2 \<noteq> None" by (simp add: in_time_def)
    show ?case
    proof (cases "x = Inr () \<and> y = Inr WaitTimedOut")
      case True
      then have "retry_sync en (i + 1) p2 = (r, p')" using 1(4) s rd nw by (subst (asm) retry_sync.simps) simp
      with 1(1) [OF s [symmetric] _ rd [symmetric], of "()" WaitTimedOut] True w2 nw
      have "in_time w p2 p' \<and> r \<noteq> Inl NeverReturns" by (simp add: in_time_def)
      then show ?thesis using w2 in_time_trans by blast
    next
      case False
      then show ?thesis using 1(4) s rd w1 w2
        by (subst (asm) retry_sync.simps) (auto split: sum.splits wait_result.splits)
    qed
  qed
qed

text \<open>Starting the watchdog bounds everything after it.\<close>

lemma watched_from_start:
  assumes "watched m" "and_then (start_watchdog ms) (\<lambda>_. m) p = (r, p')"
  shows "r \<noteq> Inl NeverReturns" "clock p' \<le> clock p + ms"
  using watchedD [OF assms(1), of "p\<lparr>watchdog := Some (clock p + ms)\<rparr>" r p' "clock p + ms"] assms(2)
  by (auto simp: start_watchdog_def in_time_def)

section \<open>What is heard\<close>

text \<open>A script with nothing behind the end of the stream.\<close>

fun ends_once :: "peer_event list \<Rightarrow> bool" where
  "ends_once [] = True"
| "ends_once (PeerSends d bs cs # evs) = (if bs = [] then evs = [] else ends_once evs)"
| "ends_once (PeerFails d # evs) = (evs = [])"

abbreviation one_ending :: "probe \<Rightarrow> bool" where
  "one_ending p \<equiv> ends_once (incoming p)"

type_synonym frame = "message_header \<times> byte list"

text \<open>The messages that a phase takes off the stream, in whatever pieces and at whatever times it arrives.\<close>

definition heard :: "endianness \<Rightarrow> probe \<Rightarrow> probe \<Rightarrow> frame list \<Rightarrow> bool" where
  "heard en p p' fs \<longleftrightarrow> frames_of en (stream_of p) = fs @ frames_of en (stream_of p')"

interpretation hearing: trail one_ending "heard en"
  by unfold_locales (auto simp: heard_def)

abbreviation hears :: "endianness \<Rightarrow> 'a probing \<Rightarrow> ((probe_end + 'a) \<Rightarrow> frame list \<Rightarrow> bool) \<Rightarrow> bool" where
  "hears en \<equiv> traces one_ending (heard en)"

named_theorems hear_rules "what the phases of a probe take off the stream"

lemmas [hear_rules] = hearing.rules

lemma heard_same: "inbox p' = inbox p \<Longrightarrow> incoming p' = incoming p \<Longrightarrow> heard en p p' []"
  by (simp add: heard_def stream_of_def)

lemma hears_silent:
  assumes "\<And>p r p'. m p = (r, p') \<Longrightarrow> inbox p' = inbox p \<and> incoming p' = incoming p \<and> r \<noteq> Inl ExitSuccess"
  shows "hears en m no_trail"
proof (rule hearing.silent)
  fix p r p'
  assume "one_ending p" "m p = (r, p')"
  then show "one_ending p' \<and> heard en p p' [] \<and> r \<noteq> Inl ExitSuccess" using assms heard_same by metis
qed

lemma hears_steps [hear_rules]:
  "hears en (set_read_timeout t) no_trail" "hears en (start_watchdog ms) no_trail" "hears en (open_display d os) no_trail"
  "hears en (send_all msg) no_trail" "hears en (send_fds msg fds) no_trail"
  by (rule hears_silent; auto simp: set_read_timeout_def start_watchdog_def modify_def open_display_def send_all_def
      send_fds_def on_desk_def write_all_def send_with_fds_def
      split: option.splits if_splits prod.splits list.splits send_outcome.splits)+

lemma pull_heard:
  assumes "pull k p = (r, p')" "one_ending p"
  shows "one_ending p' \<and> heard en p p' [] \<and> r \<noteq> Inl ExitSuccess"
proof (cases "incoming p")
  case Nil
  then show ?thesis using assms
    by (auto simp: pull_def and_then_def blocking_read_def Let_def wake_after_def heard_def stream_of_def
        split: option.splits if_splits)
next
  case (Cons ev evs)
  then show ?thesis using assms
    by (cases ev)
      (auto simp: pull_def and_then_def blocking_read_def Let_def recv_with_fds_def heard_def stream_of_def
        split: option.splits if_splits)
qed

text \<open>A scan hears the frames its body ran over, the last of which is the one it leaves with.\<close>

lemma scan_heard:
  assumes "scan_inbox en body a p = (r, p')"
  shows "\<exists>fs. heard en p p' fs \<and>
    (case r of
       Inl e \<Rightarrow> gives_up body e
     | Inr x \<Rightarrow> run_frames body fs a (desk p) = (Inr x, desk p') \<and>
        (\<forall>y. x = Inl y \<longrightarrow> (\<exists>gs f a' d. fs = gs @ [f] \<and> run_frames body gs a (desk p) = (Inr (Inr a'), d))))"
  using assms
proof (induction en body a p arbitrary: r p' rule: scan_inbox.induct)
  case (1 en body a p)
  show ?case
  proof (cases "take_message en (inbox p)")
    case None
    then show ?thesis using 1(2) by (intro exI [of _ "[]"]) (auto simp: scan_inbox_None heard_def)
  next
    case (Some mn)
    obtain msg n where mn: "mn = (msg, n)" by fastforce
    note t = Some [unfolded mn]
    obtain x d where b: "body (the (parse_header en msg)) (drop HEADER_LEN msg) a (desk p) = (x, d)" by fastforce
    note sc = scan_inbox_Some [of en p, OF t, of body, OF b]
    let ?f = "(the (parse_header en msg), drop HEADER_LEN msg)"
    have n: "n \<le> length (inbox p)" using take_message_SomeD(2) [OF t] .
    have st: "frames_of en (stream_of p) = ?f # frames_of en (drop n (inbox p) @ stream_bytes (incoming p))"
      using frames_of_Some [OF take_message_append [OF t, of "stream_bytes (incoming p)"]] n by (simp add: stream_of_def)
    show ?thesis
    proof (cases x)
      case (Inl e)
      then have "gives_up body e" using b unfolding gives_up_def by (metis fst_conv)
      then show ?thesis using 1(2) sc Inl by (intro exI [of _ "[]"]) (auto simp: heard_def stream_of_def)
    next
      case x: (Inr y)
      show ?thesis
      proof (cases y)
        case (Inl z)
        then show ?thesis using 1(2) sc x b st
          by (intro exI [of _ "[?f]"]) (force simp: heard_def stream_of_def and_then_eq)
      next
        case (Inr a')
        let ?p = "p\<lparr>inbox := drop n (inbox p), desk := d\<rparr>"
        have e: "scan_inbox en body a' ?p = (r, p')" using 1(2) sc x Inr by simp
        from 1(1) [OF Some mn [symmetric] b [symmetric] x Inr e] obtain fs where
          h: "heard en ?p p' fs" and c: "case r of Inl e \<Rightarrow> gives_up body e
            | Inr x \<Rightarrow> run_frames body fs a' (desk ?p) = (Inr x, desk p') \<and>
              (\<forall>y. x = Inl y \<longrightarrow> (\<exists>gs f a'' d'. fs = gs @ [f] \<and> run_frames body gs a' (desk ?p) = (Inr (Inr a''), d')))" by blast
        have h': "heard en p p' (?f # fs)" using h st by (simp add: heard_def stream_of_def)
        have run: "run_frames body (?f # gs) a (desk p) = run_frames body gs a' (desk ?p)" for gs
          using b x Inr by (simp add: and_then_eq)
        have "\<exists>gs f a'' d'. ?f # fs = gs @ [f] \<and> run_frames body gs a (desk p) = (Inr (Inr a''), d')"
          if "\<exists>gs f a'' d'. fs = gs @ [f] \<and> run_frames body gs a' (desk ?p) = (Inr (Inr a''), d')"
          using that run by (metis append_Cons)
        then show ?thesis using h' c run by (intro exI [of _ "?f # fs"]) (auto split: sum.splits)
      qed
    qed
  qed
qed

lemma read_loop_heard:
  assumes "read_loop en k body closed failed a p = (r, p')" "one_ending p"
  shows "one_ending p' \<and> (\<exists>fs. heard en p p' fs) \<and>
    (r = Inl ExitSuccess \<longrightarrow> gives_up body ExitSuccess \<or> closed = ExitSuccess \<or> failed = ExitSuccess)"
  using assms
proof (induction en k body closed failed a p rule: read_loop.induct)
  case (1 en k body closed failed a p)
  obtain x p1 where pl: "pull k p = (x, p1)" by fastforce
  note h1 = pull_heard [OF pl 1(3)]
  obtain y p2 where sc: "scan_inbox en body a p1 = (y, p2)" by fastforce
  from scan_heard [OF sc] obtain fs where h2: "heard en p1 p2 fs" by blast
  have o2: "one_ending p2" using scan_inbox_keeps [OF sc] h1 by simp
  have h: "heard en p p2 fs" using h1 h2 hearing.join [of en p p1 "[]" p2 fs] by simp
  show ?case
  proof (cases "\<exists>a'. x = Inr GotData \<and> y = Inr (Inr a')")
    case True
    then obtain a' where xy: "x = Inr GotData" "y = Inr (Inr a')" by blast
    then have "read_loop en k body closed failed a' p2 = (r, p')" using 1(2) pl sc by (subst (asm) read_loop.simps) simp
    from 1(1) [OF pl [symmetric] xy(1) refl sc [symmetric] xy(2) refl this o2] h hearing.join show ?thesis by blast
  next
    case False
    then show ?thesis using 1(2) pl sc h h1 o2 
      by (subst (asm) read_loop.simps) (auto split: sum.splits pulled.splits dest: scan_inbox_gives_up)
  qed
qed

lemma hears_read_loop [hear_rules]:
  assumes "\<not> gives_up body ExitSuccess" "closed \<noteq> ExitSuccess" "failed \<noteq> ExitSuccess"
  shows "hears en (read_loop en k body closed failed a) (\<lambda>r fs. r \<noteq> Inl ExitSuccess)"
  unfolding traces_def using read_loop_heard assms by fastforce

definition no_error :: "frame list \<Rightarrow> bool" where
  "no_error fs \<longleftrightarrow> (\<forall>f \<in> set fs. \<not> is_display_error (fst f))"

lemma no_error_simps [simp]: "no_error []" "no_error (fs @ gs) \<longleftrightarrow> no_error fs \<and> no_error gs"
  by (auto simp: no_error_def)

lemma verdict_None: "verdict en s oc fs = None \<longleftrightarrow> (\<forall>f \<in> set fs. \<not> is_display_error (fst f) \<and> \<not> (sender_id (fst f) = s \<and> opcode (fst f) = oc))"
  by (induction fs) (auto split: if_splits)

text \<open>A message that a wait was for, after messages without an error.\<close>

definition answered :: "u32 \<Rightarrow> u16 \<Rightarrow> frame list \<Rightarrow> bool" where
  "answered s oc fs \<longleftrightarrow> (\<exists>gs f. fs = gs @ [f] \<and> no_error fs \<and> sender_id (fst f) = s \<and> opcode (fst f) = oc)"

lemma answered_after: "no_error gs \<Longrightarrow> answered s oc fs \<Longrightarrow> answered s oc (gs @ fs)"
  unfolding answered_def by (metis append.assoc no_error_simps(2))

text \<open>Messages that decide nothing for a wait.\<close>

definition undecided :: "u32 \<Rightarrow> u16 \<Rightarrow> frame list \<Rightarrow> bool" where
  "undecided s oc fs \<longleftrightarrow> no_error fs \<and> (\<forall>f \<in> set fs. \<not> (sender_id (fst f) = s \<and> opcode (fst f) = oc))"

lemma undecided_append: "undecided s oc (fs @ gs) \<longleftrightarrow> undecided s oc fs \<and> undecided s oc gs"
  by (auto simp: undecided_def)

lemma verdict_undecided: "verdict en s oc fs = None \<longleftrightarrow> undecided s oc fs"
  by (auto simp: verdict_None undecided_def no_error_def)

lemma read_until_heard:
  assumes "read_until en s oc p = (r, p')" "one_ending p"
  shows "one_ending p' \<and> (\<exists>fs. heard en p p' fs \<and> r \<noteq> Inl ExitSuccess \<and>
    (r = Inr Matched \<longrightarrow> answered s oc fs) \<and> (r = Inr WaitTimedOut \<longrightarrow> undecided s oc fs))"
  using assms
proof (induction en s oc p rule: read_until.induct)
  case (1 en s oc p)
  obtain x p1 where sc: "scan_inbox en (wait_body en s oc) () p = (x, p1)" by fastforce
  from scan_heard [OF sc] obtain fs where h1: "heard en p p1 fs"
    and c: "case x of Inl e \<Rightarrow> gives_up (wait_body en s oc) e
      | Inr y \<Rightarrow> run_frames (wait_body en s oc) fs () (desk p) = (Inr y, desk p1) \<and>
        (\<forall>z. y = Inl z \<longrightarrow> (\<exists>gs f a' d. fs = gs @ [f] \<and> run_frames (wait_body en s oc) gs () (desk p) = (Inr (Inr a'), d)))"
    by blast
  have o1: "one_ending p1" using scan_inbox_keeps [OF sc] 1(3) by simp
  obtain y p2 where rd: "read_some p1 = (y, p2)" by fastforce
  note h2 = pull_heard [OF rd [unfolded read_some_def] o1]
  from c obtain u where x: "x = Inr u" by (cases x) auto
  show ?case
  proof (cases u)
    case (Inl z)
    with c x obtain gs f where fs: "fs = gs @ [f]" "verdict en s oc gs = None" "verdict en s oc fs = Some z"
      by (auto simp: run_wait_body split: option.splits)
    then have "verdict en s oc [f] = Some z" by (simp add: verdict_append)
    with fs have "z = Matched \<longrightarrow> answered s oc fs"
      by (cases f) (auto simp: answered_def verdict_None no_error_def split: if_splits)
    moreover have "z \<noteq> WaitTimedOut" using fs(3) verdict_not_timed_out by metis
    moreover have "r = Inr z" "p' = p1" using 1(2) sc x Inl by (auto simp: read_until.simps [of en s oc p])
    ultimately show ?thesis using h1 o1 by blast
  next
    case (Inr v)
    with c x have v: "verdict en s oc fs = None" by (auto simp: run_wait_body split: option.splits)
    then have un: "undecided s oc fs" by (simp add: verdict_undecided)
    then have ne: "no_error fs" by (simp add: undecided_def)
    have h: "heard en p p2 fs" using h1 h2 hearing.join [of en p p1 fs p2 "[]"] by simp
    show ?thesis
    proof (cases "y = Inr GotData")
      case True
      then have "read_until en s oc p2 = (r, p')" using 1(2) sc rd x Inr by (simp add: read_until.simps [of en s oc p])
      with 1(1) [OF sc [symmetric] _ _ rd [symmetric], of u v GotData] True x Inr h2 obtain gs where
        g: "one_ending p'" "heard en p2 p' gs" "r \<noteq> Inl ExitSuccess"
          "r = Inr Matched \<longrightarrow> answered s oc gs" "r = Inr WaitTimedOut \<longrightarrow> undecided s oc gs" by auto
      then show ?thesis using hearing.join [OF h g(2)] ne un answered_after undecided_append by metis
    next
      case False
      then have "p' = p2 \<and> r \<noteq> Inr Matched \<and> r \<noteq> Inl ExitSuccess" using 1(2) sc rd x Inr h2
        by (auto simp: read_until.simps [of en s oc p] split: sum.splits pulled.splits)
      then show ?thesis using h h2 un by auto
    qed
  qed
qed

lemma hears_read_until [hear_rules]:
  "hears en (read_until en s oc) (\<lambda>r fs. r \<noteq> Inl ExitSuccess \<and> (r = Inr Matched \<longrightarrow> answered s oc fs))"
  unfolding traces_def using read_until_heard by blast

text \<open>Both of two messages, and no error.\<close>

definition seen_in :: "frame list \<Rightarrow> u32 \<times> u16 \<Rightarrow> bool" where
  "seen_in fs m \<longleftrightarrow> (\<exists>f \<in> set fs. (sender_id (fst f), opcode (fst f)) = m)"

lemma seen_in_simps [simp]:
  "\<not> seen_in [] m" "seen_in (fs @ gs) m \<longleftrightarrow> seen_in fs m \<or> seen_in gs m"
  "seen_in (f # fs) m \<longleftrightarrow> (sender_id (fst f), opcode (fst f)) = m \<or> seen_in fs m"
  "no_error (f # fs) \<longleftrightarrow> \<not> is_display_error (fst f) \<and> no_error fs"
  by (auto simp: seen_in_def no_error_def)

lemma run_frames_append:
  "run_frames body gs a d = (Inr (Inr a'), d') \<Longrightarrow> run_frames body (gs @ fs) a d = run_frames body fs a' d'"
proof (induction gs arbitrary: a d)
  case (Cons hp gs)
  obtain h payload where hp: "hp = (h, payload)" by fastforce
  obtain x d1 where b: "body h payload a d = (x, d1)" by fastforce
  then show ?case using Cons by (cases x) (auto simp: hp and_then_def split: sum.splits)
qed simp

lemma both_body_apply: "both_body en m1 m2 h payload seen d =
    (Inr (if is_display_error h then Inl (WaitError (display_error en payload))
      else if (fst seen \<or> (sender_id h, opcode h) = m1) \<and> (snd seen \<or> (sender_id h, opcode h) = m2) then Inl Matched
      else Inr (fst seen \<or> (sender_id h, opcode h) = m1, snd seen \<or> (sender_id h, opcode h) = m2)), d)"
  by (simp add: both_body_def Let_def)

lemma run_both_on:
  "run_frames (both_body en m1 m2) fs seen d = (Inr (Inr seen'), d') \<Longrightarrow>
     no_error fs \<and> (fst seen' \<longleftrightarrow> fst seen \<or> seen_in fs m1) \<and> (snd seen' \<longleftrightarrow> snd seen \<or> seen_in fs m2)"
proof (induction fs arbitrary: seen)
  case (Cons hp fs)
  obtain h payload where hp: "hp = (h, payload)" by fastforce
  let ?s = "(fst seen \<or> (sender_id h, opcode h) = m1, snd seen \<or> (sender_id h, opcode h) = m2)"
  have "\<not> is_display_error h" "run_frames (both_body en m1 m2) fs ?s d = (Inr (Inr seen'), d')"
    using Cons.prems both_body_apply [of en m1 m2 h payload seen d] by (auto simp: hp and_then_def split: if_splits)
  with Cons.IH [of ?s] show ?case by (auto simp: hp)
qed simp

lemma run_both_out:
  assumes "run_frames (both_body en m1 m2) [f] seen d = (Inr (Inl v), d')"
  shows "v \<noteq> WaitTimedOut \<and> (v = Matched \<longrightarrow> no_error [f] \<and> (fst seen \<or> seen_in [f] m1) \<and> (snd seen \<or> seen_in [f] m2))"
  using assms by (cases f) (auto simp: and_then_def both_body_def Let_def split: if_splits)

lemma both_loop_heard:
  assumes "both_loop en m1 m2 dl seen p = (r, p')" "one_ending p"
  shows "one_ending p' \<and> (\<exists>fs. heard en p p' fs \<and> r \<noteq> Inl ExitSuccess \<and>
    (r = Inr Matched \<longrightarrow> no_error fs \<and> (fst seen \<or> seen_in fs m1) \<and> (snd seen \<or> seen_in fs m2)))"
  using assms
proof (induction en m1 m2 dl seen p rule: both_loop.induct)
  case (1 en m1 m2 dl seen p)
  let ?b = "both_body en m1 m2"
  obtain x p1 where sc: "scan_inbox en ?b seen p = (x, p1)" by fastforce
  from scan_heard [OF sc] obtain fs where h1: "heard en p p1 fs"
    and c: "case x of Inl e \<Rightarrow> gives_up ?b e
      | Inr y \<Rightarrow> run_frames ?b fs seen (desk p) = (Inr y, desk p1) \<and>
        (\<forall>z. y = Inl z \<longrightarrow> (\<exists>gs f a' d. fs = gs @ [f] \<and> run_frames ?b gs seen (desk p) = (Inr (Inr a'), d)))"
    by blast
  then obtain u where x: "x = Inr u" by (cases x) auto
  have o1: "one_ending p1" using scan_inbox_keeps [OF sc] 1(4) by simp
  show ?case
  proof (cases u)
    case (Inl z)
    with c x obtain gs f a' d where fs: "fs = gs @ [f]" "run_frames ?b gs seen (desk p) = (Inr (Inr a'), d)"
      "run_frames ?b fs seen (desk p) = (Inr (Inl z), desk p1)" by auto
    from run_frames_append [OF fs(2)] fs(1,3) have "run_frames ?b [f] a' d = (Inr (Inl z), desk p1)" by metis
    from run_both_out [OF this] run_both_on [OF fs(2)] fs(1)
    have "z = Matched \<longrightarrow> no_error fs \<and> (fst seen \<or> seen_in fs m1) \<and> (snd seen \<or> seen_in fs m2)" by auto
    moreover have "r = Inr z" "p' = p1" using 1(3) sc x Inl by (auto simp: both_loop.simps [of en m1 m2 dl seen p])
    ultimately show ?thesis using h1 o1 by blast
  next
    case (Inr s)
    with c x have on: "no_error fs" "fst s \<longleftrightarrow> fst seen \<or> seen_in fs m1" "snd s \<longleftrightarrow> snd seen \<or> seen_in fs m2"
      using run_both_on by fastforce+
    obtain y p2 where rd: "read_some p1 = (y, p2)" by fastforce
    note h2 = pull_heard [OF rd [unfolded read_some_def] o1]
    have h: "heard en p p2 fs" using h1 h2 hearing.join [of en p p1 fs p2 "[]"] by simp
    show ?thesis
    proof (cases "\<not> dl \<le> clock p1 \<and> (y = Inr GotData \<or> y = Inr GotWouldBlock \<and> \<not> dl \<le> clock p2)")
      case True
      then have e: "both_loop en m1 m2 dl s p2 = (r, p')" using 1(3) sc x Inr rd
        by (auto simp: both_loop.simps [of en m1 m2 dl seen p])
      with 1(1,2) [OF sc [symmetric] x [unfolded Inr] refl _ rd [symmetric]] True h2 obtain gs where
        g: "one_ending p'" "heard en p2 p' gs" "r \<noteq> Inl ExitSuccess"
          "r = Inr Matched \<longrightarrow> no_error gs \<and> (fst s \<or> seen_in gs m1) \<and> (snd s \<or> seen_in gs m2)" by blast
      show ?thesis
        by (intro conjI g(1) exI [of _ "fs @ gs"] hearing.join [OF h g(2)] g(3)) (use g(4) on in auto)
    next
      case False
      then have "(p' = p1 \<or> p' = p2) \<and> r \<noteq> Inr Matched \<and> r \<noteq> Inl ExitSuccess" using 1(3) sc x Inr rd h2
        by (auto simp: both_loop.simps [of en m1 m2 dl seen p] split: sum.splits pulled.splits if_splits)
      then show ?thesis using h h1 h2 o1 by blast
    qed
  qed
qed

definition both_answered :: "u32 \<times> u16 \<Rightarrow> u32 \<times> u16 \<Rightarrow> frame list \<Rightarrow> bool" where
  "both_answered m1 m2 fs \<longleftrightarrow> no_error fs \<and> seen_in fs m1 \<and> seen_in fs m2"

lemma hears_read_both [hear_rules]:
  "hears en (read_until_both en m1 m2 dl) (\<lambda>r fs. r \<noteq> Inl ExitSuccess \<and> (r = Inr Matched \<longrightarrow> both_answered m1 m2 fs))"
  unfolding traces_def read_until_both_def both_answered_def using both_loop_heard by fastforce

lemma hears_clock:
  "(\<And>t. hears en (f t) H) \<Longrightarrow> hears en (\<lambda>p. f (clock p) p) H"
  unfolding traces_def by blast

lemma drain_loop_heard:
  assumes "drain_loop en i q l p = (r, p')" "one_ending p"
  shows "one_ending p' \<and> (\<exists>fs. heard en p p' fs) \<and> r \<noteq> Inl ExitSuccess"
  using assms
proof (induction en i q l p rule: drain_loop.induct)
  case (1 en i q l p)
  obtain x p1 where sc: "scan_inbox en (ack_body en i) False p = (x, p1)" by fastforce
  from scan_heard [OF sc] obtain fs where h1: "heard en p p1 fs" by blast
  have o1: "one_ending p1" using scan_inbox_keeps [OF sc] 1(4) by simp
  have x0: "x \<noteq> Inl ExitSuccess" using scan_inbox_gives_up [of en "ack_body en i" False p ExitSuccess] sc by auto
  obtain y p2 where rd: "read_some p1 = (y, p2)" by fastforce
  note h2 = pull_heard [OF rd [unfolded read_some_def] o1]
  have h: "heard en p p2 fs" using h1 h2 hearing.join [of en p p1 fs p2 "[]"] by simp
  show ?case
  proof (cases "\<exists>b. x = Inr (Inr b) \<and> \<not> q \<le> clock p1 - (if b then clock p1 else l) \<and> (y = Inr GotData \<or> y = Inr GotWouldBlock)")
    case True
    then obtain b where b: "x = Inr (Inr b)" "\<not> q \<le> clock p1 - (if b then clock p1 else l)" "y = Inr GotData \<or> y = Inr GotWouldBlock"
      by blast
    have "one_ending p' \<and> (\<exists>gs. heard en p2 p' gs) \<and> r \<noteq> Inl ExitSuccess"
    proof (cases "y = Inr GotData")
      case True
      then have "drain_loop en i q (clock p2) p2 = (r, p')" using 1(3) sc b rd by (simp add: drain_loop.simps [of en i q l p] Let_def)
      with 1(1) [OF sc [symmetric] b(1) refl refl b(2) rd [symmetric] True refl] h2 show ?thesis by simp
    next
      case False
      with b have y: "y = Inr GotWouldBlock" by simp
      then have "drain_loop en i q (if b then clock p1 else l) p2 = (r, p')" using 1(3) sc b rd
        by (simp add: drain_loop.simps [of en i q l p] Let_def)
      with 1(2) [OF sc [symmetric] b(1) refl refl b(2) rd [symmetric] y refl] h2 show ?thesis by simp
    qed
    then show ?thesis using hearing.join [OF h] by blast
  next
    case False
    then have "(p' = p1 \<or> p' = p2) \<and> r \<noteq> Inl ExitSuccess" using 1(3) sc rd h2 x0
      by (auto simp: drain_loop.simps [of en i q l p] Let_def split: sum.splits pulled.splits if_splits)
    then show ?thesis using h h1 h2 o1 by blast
  qed
qed

lemma hears_drain [hear_rules]: "hears en (drain_and_ack_configures en i q) (\<lambda>r fs. r \<noteq> Inl ExitSuccess)"
  unfolding traces_def drain_and_ack_configures_def using drain_loop_heard by blast

end
