(* ===== verification/ProbeBind.thy ===== *)
theory ProbeBind
  imports ProbeRules
begin

text \<open>
  \<open>examples/probe_bind.rs\<close>, which binds a list of globals in one burst and asks whether the
  compositor objects, and \<open>examples/probe_create_pool_resize.rs\<close>, which replaces one buffer by
  another of a different size in one burst.
\<close>

section \<open>Numbers and separators on the command line\<close>

text \<open>\<open>str::parse\<close> for an unsigned type with that many values: an optional plus sign, then digits.\<close>

definition is_digit :: "char \<Rightarrow> bool" where
  "is_digit c \<longleftrightarrow> 48 \<le> (of_char c :: nat) \<and> of_char c \<le> (57 :: nat)"

definition digits_value :: "string \<Rightarrow> nat" where
  "digits_value ds = foldl (\<lambda>n c. 10 * n + (of_char c - 48)) 0 ds"

definition parse_unsigned :: "nat \<Rightarrow> string \<Rightarrow> nat option" where
  "parse_unsigned bound str =
    (let ds = (case str of [] \<Rightarrow> [] | c # cs \<Rightarrow> if c = CHR ''+'' then cs else str)
     in if ds = [] \<or> \<not> list_all is_digit ds \<or> bound \<le> digits_value ds then None else Some (digits_value ds))"

fun split_once :: "char \<Rightarrow> string \<Rightarrow> (string \<times> string) option" where
  "split_once sep [] = None"
| "split_once sep (c # cs) =
    (if c = sep then Some ([], cs) else map_option (map_prod ((#) c) id) (split_once sep cs))"

section \<open>Binding a burst of globals\<close>

record advertised =
  adv_name :: u32
  adv_interface :: string
  adv_version :: u32

definition bind_collect_body :: "endianness \<Rightarrow> (advertised list, advertised list) message_body" where
  "bind_collect_body en h payload globals =
    (if sender_id h = 2 \<and> opcode h = 0 then
       go (Inr (case announced en payload of
                  None \<Rightarrow> globals
                | Some (name, iface, version) \<Rightarrow>
                    globals @ [\<lparr>adv_name = name, adv_interface = iface, adv_version = version\<rparr>]))
     else if sender_id h = 1 \<and> opcode h = 0 then halt (ExitFailure (display_error en payload))
     else if sender_id h = 3 \<and> opcode h = 0 then go (Inl globals)
     else go (Inr globals))"

record bind_target =
  bt_name :: u32
  bt_interface :: string
  bt_version :: u32
  bt_followup :: "u16 option"

text \<open>One argument: \<open>SKIP\<close>, or an interface with an optional version and an optional request to send
  right after the bind.\<close>

definition followup_of :: "string \<Rightarrow> probe_end + string \<times> u16 option" where
  "followup_of spec =
    (case split_once (CHR ''!'') spec of
       None \<Rightarrow> Inr (spec, None)
     | Some (base, opc) \<Rightarrow>
        (case parse_unsigned (2 ^ 16) opc of
           None \<Rightarrow> Inl (Panicked BadNumber)
         | Some n \<Rightarrow> Inr (base, Some (word_of_nat n))))"

definition version_of :: "string \<Rightarrow> probe_end + string \<times> u32 option" where
  "version_of spec =
    (case split_once (CHR '':'') spec of
       None \<Rightarrow> Inr (spec, None)
     | Some (iface, v) \<Rightarrow>
        (case parse_unsigned (2 ^ 32) v of
           None \<Rightarrow> Inl (Panicked BadNumber)
         | Some n \<Rightarrow> Inr (iface, Some (word_of_nat n))))"

definition resolve_spec :: "advertised list \<Rightarrow> string \<Rightarrow> probe_end + bind_target option" where
  "resolve_spec globals spec =
    (if spec = ''SKIP'' then Inr None
     else case followup_of spec of
       Inl e \<Rightarrow> Inl e
     | Inr (base, followup) \<Rightarrow>
        (case version_of base of
           Inl e \<Rightarrow> Inl e
         | Inr (iface, override) \<Rightarrow>
            (case find (\<lambda>g. adv_interface g = iface) globals of
               None \<Rightarrow> Inl (ExitFailure (NotAdvertised iface))
             | Some g \<Rightarrow>
                Inr (Some \<lparr>bt_name = adv_name g, bt_interface = adv_interface g,
                  bt_version = (case override of None \<Rightarrow> adv_version g | Some v \<Rightarrow> v), bt_followup = followup\<rparr>))))"

fun resolve_specs :: "advertised list \<Rightarrow> string list \<Rightarrow> probe_end + bind_target option list" where
  "resolve_specs globals [] = Inr []"
| "resolve_specs globals (spec # specs) =
    (case resolve_spec globals spec of
       Inl e \<Rightarrow> Inl e
     | Inr t \<Rightarrow> (case resolve_specs globals specs of Inl e \<Rightarrow> Inl e | Inr ts \<Rightarrow> Inr (t # ts)))"

text \<open>The burst, and the first id it has not used.\<close>

fun bind_burst :: "endianness \<Rightarrow> bind_target option list \<Rightarrow> u32 \<Rightarrow> byte list \<times> u32" where
  "bind_burst en [] next_id = ([], next_id)"
| "bind_burst en (None # targets) next_id = bind_burst en targets (next_id + 1)"
| "bind_burst en (Some t # targets) next_id =
    (let bound_id = next_id;
         bind = bind_message en (bt_name t) (bt_interface t) (bt_version t) bound_id;
         (followup, next_id') =
           (case bt_followup t of
              None \<Rightarrow> ([], bound_id + 1)
            | Some opc \<Rightarrow> (build_message en bound_id opc (u32s en [bound_id + 1]), bound_id + 2));
         (rest, last_id) = bind_burst en targets next_id'
     in (bind @ followup @ rest, last_id))"

text \<open>The loop that waits for the verdict: an error of the display first, then the callback.\<close>

definition bind_verdict_body :: "endianness \<Rightarrow> u32 \<Rightarrow> (unit, unit) message_body" where
  "bind_verdict_body en sync_id h payload _ =
    (if sender_id h = 1 \<and> opcode h = 0 then halt (ExitFailure (display_error en payload))
     else if sender_id h = sync_id \<and> opcode h = 0 then halt ExitSuccess
     else go (Inr ()))"

definition collect_binds :: "endianness \<Rightarrow> advertised list probing" where
  "collect_binds en = and_then (send_all (registry_burst en)) (\<lambda>_.
    read_loop en False (bind_collect_body en) (ExitFailure ConnectionClosed) (Panicked ReadFailed) [])"

text \<open>The bytes left in the buffer are cleared before the verdict is waited for.\<close>

definition await_bind_verdict :: "endianness \<Rightarrow> u32 \<Rightarrow> unit probing" where
  "await_bind_verdict en sync_id = and_then (modify (\<lambda>p. p\<lparr>inbox := []\<rparr>)) (\<lambda>_.
    read_loop en False (bind_verdict_body en sync_id) (ExitFailure ConnectionClosed) (ExitFailure ReadFailed) ())"

definition probe_bind :: "endianness \<Rightarrow> probe_os \<Rightarrow> string list \<Rightarrow> unit probing" where
  "probe_bind en os args =
    (if args = [] then halt (ExitFailure BadUsage)
     else
       and_then (open_display ''wayland-proxy-0'' os) (\<lambda>_.
       and_then (collect_binds en) (\<lambda>globals.
       case resolve_specs globals args of
         Inl e \<Rightarrow> halt e
       | Inr targets \<Rightarrow>
          (case bind_burst en targets 4 of
             (binds, sync_id) \<Rightarrow>
               and_then (send_all (binds @ sync_message en sync_id)) (\<lambda>_.
               await_bind_verdict en sync_id)))))"

section \<open>Replacing a buffer\<close>

text \<open>The probe that talks to the compositor directly. The last \<open>wl_shm\<close> announced wins.\<close>

definition shm_collect_body :: "endianness \<Rightarrow> ((u32 \<times> u32) option, (u32 \<times> u32) option) message_body" where
  "shm_collect_body en h payload shm =
    (if sender_id h = 2 \<and> opcode h = 0 then
       go (Inr (case announced en payload of
                  Some (name, iface, version) \<Rightarrow> if iface = ''wl_shm'' then Some (name, version) else shm
                | None \<Rightarrow> shm))
     else if sender_id h = 3 \<and> opcode h = 0 then go (Inl shm)
     else go (Inr shm))"

definition backing_file :: "probe_os \<Rightarrow> string \<Rightarrow> nat \<Rightarrow> fd probing" where
  "backing_file os name len = (case os_file os name len of None \<Rightarrow> halt (Panicked FileFailed) | Some f \<Rightarrow> go f)"

definition create_temp_dir :: "probe_os \<Rightarrow> unit probing" where
  "create_temp_dir os = (if os_temp_dir os then go () else halt (Panicked TempDirFailed))"

definition expect_global :: "string \<Rightarrow> 'a option \<Rightarrow> 'a probing" where
  "expect_global iface found = (case found of None \<Rightarrow> halt (Panicked (NotAdvertised iface)) | Some x \<Rightarrow> go x)"

text \<open>\<open>wl_shm.create_pool\<close> with its file, then \<open>wl_shm_pool.create_buffer\<close>.\<close>

definition create_pool :: "endianness \<Rightarrow> probe_os \<Rightarrow> u32 \<Rightarrow> u32 \<Rightarrow> string \<Rightarrow> u32 \<Rightarrow> unit probing" where
  "create_pool en os shm pool name bytes =
    and_then (backing_file os name (unat bytes)) (\<lambda>f.
    send_fds (build_message en shm 0 (u32s en [pool, bytes])) [f])"

definition create_buffer :: "endianness \<Rightarrow> u32 \<Rightarrow> u32 \<Rightarrow> u32 \<Rightarrow> u32 \<Rightarrow> u32 \<Rightarrow> unit probing" where
  "create_buffer en pool buffer width height stride =
    send_all (build_message en pool 0 (u32s en [buffer, 0, width, height, stride, 0]))"

definition destroy_buffer_and_pool :: "endianness \<Rightarrow> u32 \<Rightarrow> u32 \<Rightarrow> unit probing" where
  "destroy_buffer_and_pool en buffer pool =
    and_then (send_all (build_message en buffer 0 [])) (\<lambda>_. send_all (build_message en pool 1 []))"

definition probe_create_pool_resize :: "endianness \<Rightarrow> probe_os \<Rightarrow> unit probing" where
  "probe_create_pool_resize en os =
    and_then (open_display ''wayland-0'' os) (\<lambda>_.
    and_then (send_all (registry_burst en)) (\<lambda>_.
    and_then (read_loop en False (shm_collect_body en) (ExitFailure ConnectionClosed) (Panicked ReadFailed) None) (\<lambda>found.
    and_then (expect_global ''wl_shm'' found) (\<lambda>(name, version).
    and_then (create_temp_dir os) (\<lambda>_.
    and_then (send_all (bind_message en name ''wl_shm'' version 4)) (\<lambda>_.
    and_then (create_pool en os 4 5 ''pool_a'' 584640) (\<lambda>_.
    and_then (create_buffer en 5 6 320 240 1280) (\<lambda>_.
    and_then (destroy_buffer_and_pool en 6 5) (\<lambda>_.
    and_then (create_pool en os 4 7 ''pool_b'' 1056096) (\<lambda>_.
    and_then (create_buffer en 7 8 579 456 2316) (\<lambda>_.
    and_then (send_all (sync_message en 9)) (\<lambda>_.
    await_bind_verdict en 9))))))))))))"

section \<open>What the burst says\<close>

definition frame_of :: "u32 \<Rightarrow> u16 \<Rightarrow> byte list \<Rightarrow> message_header \<times> byte list" where
  "frame_of sender opc payload =
    (\<lparr>sender_id = sender, opcode = opc, msg_length = word_of_nat (HEADER_LEN + length payload)\<rparr>, payload)"

definition bind_payload_of :: "endianness \<Rightarrow> bind_target \<Rightarrow> u32 \<Rightarrow> byte list" where
  "bind_payload_of en t new_id =
    put_u32 en (put_u32 en (put_str en (put_u32 en [] (bt_name t)) (bt_interface t)) (bt_version t)) new_id"

lemma length_u32s [simp]: "length (u32s en ws) = 4 * length ws"
proof -
  have "length (foldl (put_u32 en) bs ws) = length bs + 4 * length ws" for bs
    by (induction ws arbitrary: bs) simp_all
  then show ?thesis by (simp add: u32s_def)
qed

text \<open>The ids a target uses up, the first of them, and the requests it stands for.\<close>

definition spent :: "bind_target option \<Rightarrow> nat" where
  "spent target = (case target of None \<Rightarrow> 1 | Some t \<Rightarrow> (if bt_followup t = None then 1 else 2))"

definition ids_from :: "u32 \<Rightarrow> bind_target option list \<Rightarrow> u32 list" where
  "ids_from next_id targets = map (\<lambda>i. next_id + word_of_nat (sum_list (map spent (take i targets)))) [0..<length targets]"

definition requests_of :: "endianness \<Rightarrow> bind_target option \<Rightarrow> u32 \<Rightarrow> (message_header \<times> byte list) list" where
  "requests_of en target bound_id =
    (case target of
       None \<Rightarrow> []
     | Some t \<Rightarrow> frame_of 2 0 (bind_payload_of en t bound_id) #
        (case bt_followup t of None \<Rightarrow> [] | Some opc \<Rightarrow> [frame_of bound_id opc (u32s en [bound_id + 1])]))"

definition short_names :: "bind_target option list \<Rightarrow> bool" where
  "short_names targets \<longleftrightarrow> (\<forall>t. Some t \<in> set targets \<longrightarrow> length (bt_interface t) < 65000)"

lemma frames_of_bind:
  assumes "length (bt_interface t) < 65000"
  shows "frames_of en (bind_message en (bt_name t) (bt_interface t) (bt_version t) new_id @ rest) =
    frame_of 2 0 (bind_payload_of en t new_id) # frames_of en rest"
proof -
  have "next_multiple_of_4 (length (bt_interface t) + 1) < length (bt_interface t) + 5"
    using next_multiple_of_4_bounds(2) [of "length (bt_interface t) + 1"] by simp
  then have "HEADER_LEN + length (bind_payload_of en t new_id) < 2 ^ 16"
    using assms by (simp add: bind_payload_of_def HEADER_LEN_def)
  from frames_of_build [OF this] show ?thesis by (simp add: bind_message_def bind_payload_of_def frame_of_def)
qed

lemma frames_of_u32s:
  "length ws < 1000 \<Longrightarrow> frames_of en (build_message en s opc (u32s en ws) @ rest) = frame_of s opc (u32s en ws) # frames_of en rest"
  by (subst frames_of_build) (simp_all add: HEADER_LEN_def frame_of_def)

lemma frames_of_empty:
  "frames_of en (build_message en s opc [] @ rest) = frame_of s opc [] # frames_of en rest"
  by (subst frames_of_build) (simp_all add: HEADER_LEN_def frame_of_def)

lemma frames_of_Nil [simp]: "frames_of en [] = []"
  by (rule frames_of_None [THEN conjunct1]) (simp add: take_message_def parse_header_def HEADER_LEN_def)

lemma ids_from_Cons: "ids_from next_id (t # targets) = next_id # ids_from (next_id + word_of_nat (spent t)) targets"
  by (simp add: ids_from_def upt_conv_Cons map_Suc_upt [symmetric] comp_def add.assoc del: upt_Suc map_Suc_upt)

lemma spent_simps [simp]:
  "spent None = 1" "bt_followup t = None \<Longrightarrow> spent (Some t) = 1" "bt_followup t = Some opc \<Longrightarrow> spent (Some t) = 2"
  "requests_of en None i = []"
  by (simp_all add: spent_def requests_of_def)

lemma bind_burst_spec:
  assumes "short_names targets"
  shows "frames_of en (fst (bind_burst en targets next_id) @ rest) =
      concat (map2 (requests_of en) targets (ids_from next_id targets)) @ frames_of en rest \<and>
    snd (bind_burst en targets next_id) = next_id + word_of_nat (sum_list (map spent targets))"
  using assms
proof (induction en targets next_id rule: bind_burst.induct)
  case (1 en next_id)
  then show ?case by (simp add: ids_from_def)
next
  case (2 en targets next_id)
  then show ?case by (simp add: ids_from_Cons short_names_def add.assoc)
next
  case (3 en t targets next_id)
  then have t: "length (bt_interface t) < 65000" and ts: "short_names targets" by (auto simp: short_names_def)
  note b = frames_of_bind [OF t]
  show ?case
  proof (cases "bt_followup t")
    case None
    have n: "([], next_id + 1) = (case bt_followup t of None \<Rightarrow> ([], next_id + 1)
        | Some opc \<Rightarrow> (build_message en next_id opc (u32s en [next_id + 1]), next_id + 2))" using None by simp
    show ?thesis
      using 3(1) [OF refl refl n refl ts] None
      by (simp add: ids_from_Cons requests_of_def b Let_def split_beta add.assoc)
  next
    case (Some opc)
    have n: "(build_message en next_id opc (u32s en [next_id + 1]), next_id + 2) = (case bt_followup t of None \<Rightarrow> ([], next_id + 1)
        | Some opc \<Rightarrow> (build_message en next_id opc (u32s en [next_id + 1]), next_id + 2))" using Some by simp
    show ?thesis
      using 3(1) [OF refl refl n refl ts] Some
      by (simp add: ids_from_Cons requests_of_def b frames_of_u32s Let_def split_beta add.assoc)
  qed
qed

text \<open>A bind repeats the announcement, with the version that was asked for.\<close>

lemma bind_announces:
  assumes "length (bt_interface t) < 65000" "valid_utf8 (bytes_of (bt_interface t))"
  shows "announced en (bind_payload_of en t new_id) = Some (bt_name t, bt_interface t, bt_version t)"
proof -
  let ?a = "put_u32 en [] (bt_name t)"
  let ?b = "put_str en ?a (bt_interface t)"
  have e: "bind_payload_of en t new_id = ?b @ put_u32 en [] (bt_version t) @ put_u32 en [] new_id"
    "bind_payload_of en t new_id = put_u32 en ?b (bt_version t) @ put_u32 en [] new_id"
    "bind_payload_of en t new_id = ?a @ put_str en [] (bt_interface t) @ put_u32 en [] (bt_version t) @ put_u32 en [] new_id"
    unfolding bind_payload_of_def by (metis append.assoc put_u32_append, metis put_u32_append, metis append.assoc put_u32_append put_str_append)
  have r0: "read_u32 en (bind_payload_of en t new_id) 0 = Some (bt_name t)"
    unfolding e(3) using read_u32_put [of en "[]" "bt_name t"] by simp
  have r4: "read_str en (bind_payload_of en t new_id) 4 = Some (bt_interface t, 8 + next_multiple_of_4 (length (bt_interface t) + 1))"
    unfolding e(1) using read_str_put [of "bt_interface t" en ?a] assms by simp
  have rv: "read_u32 en (bind_payload_of en t new_id) (8 + next_multiple_of_4 (length (bt_interface t) + 1)) = Some (bt_version t)"
    unfolding e(2) using read_u32_put [of en ?b "bt_version t" "put_u32 en [] new_id"] by (simp add: add.commute)
  show ?thesis using r0 r4 rv by (simp add: announced_def)
qed

lemma resolve_spec_known:
  assumes "resolve_spec globals spec = Inr (Some t)"
  shows "\<exists>g \<in> set globals. bt_name t = adv_name g \<and> bt_interface t = adv_interface g"
  using assms find_Some_iff [of "\<lambda>g. adv_interface g = _" globals]
  by (auto simp: resolve_spec_def split: if_splits sum.splits prod.splits option.splits)

lemma resolve_specs_known:
  "resolve_specs globals specs = Inr targets \<Longrightarrow> Some t \<in> set targets \<Longrightarrow>
     \<exists>g \<in> set globals. bt_name t = adv_name g \<and> bt_interface t = adv_interface g"
proof (induction globals specs arbitrary: targets rule: resolve_specs.induct)
  case (2 globals spec specs)
  then show ?case by (auto split: sum.splits dest: resolve_spec_known)
qed simp

text \<open>The burst is what the arguments ask for, and every bind repeats an announcement.\<close>

lemma binds_are_announced:
  assumes "resolve_specs globals specs = Inr targets"
    and "\<forall>g \<in> set globals. length (adv_interface g) < 65000 \<and> valid_utf8 (bytes_of (adv_interface g))"
  shows "frames_of en (fst (bind_burst en targets first_id) @ rest) =
      concat (map2 (requests_of en) targets (ids_from first_id targets)) @ frames_of en rest \<and>
    snd (bind_burst en targets first_id) = first_id + word_of_nat (sum_list (map spent targets)) \<and>
    (\<forall>t. Some t \<in> set targets \<longrightarrow>
      (\<exists>g \<in> set globals. bt_name t = adv_name g \<and> bt_interface t = adv_interface g) \<and>
      (\<forall>i. announced en (bind_payload_of en t i) = Some (bt_name t, bt_interface t, bt_version t)))"
proof -
  have known: "\<exists>g \<in> set globals. bt_name t = adv_name g \<and> bt_interface t = adv_interface g" if "Some t \<in> set targets" for t
    using resolve_specs_known [OF assms(1) that] .
  then have "short_names targets" unfolding short_names_def using assms(2) by metis
  then show ?thesis using bind_burst_spec [of targets en first_id rest] known assms(2) bind_announces by metis
qed

section \<open>What the resizing probe sends\<close>

lemma looks_shm: "looks_only (shm_collect_body en)" and looks_verdict: "looks_only (bind_verdict_body en i)"
  by (simp_all add: looks_only_def shm_collect_body_def bind_verdict_body_def go_def halt_def)

lemma gives_up_shm: "\<not> gives_up (shm_collect_body en) e"
  by (simp add: gives_up_def shm_collect_body_def go_def)

lemma messages_not_Nil [simp]:
  "registry_burst en \<noteq> []" "bind_message en n i v w \<noteq> []" "sync_message en w \<noteq> []"
  by (simp_all add: registry_burst_def bind_message_def sync_message_def)

lemma writes_temp_dir [write_rules]: "writes (create_temp_dir os) no_trail"
  by (rule outgoing.silent) (auto simp: wrote_def create_temp_dir_def split: if_splits)

lemma writes_expect [write_rules]: "writes (expect_global n found) no_trail"
  by (rule outgoing.silent) (auto simp: wrote_def expect_global_def split: option.splits)

lemma writes_create_pool [write_rules]:
  "writes (create_pool en os shm pool name bytes) (\<lambda>r ext. r \<noteq> Inl ExitSuccess \<and>
     (r = Inr () \<longrightarrow> (\<exists>f. os_file os name (unat bytes) = Some f \<and>
        ext = [(build_message en shm 0 (u32s en [pool, bytes]), send_cmsgs [f])])))"
proof (cases "os_file os name (unat bytes)")
  case None
  then show ?thesis by (auto simp: traces_def wrote_def create_pool_def backing_file_def)
next
  case (Some f)
  then show ?thesis by (auto simp: traces_def wrote_def create_pool_def backing_file_def send_fds_willing)
qed

lemma writes_create_buffer [write_rules]:
  "writes (create_buffer en pool buffer w h st)
    (\<lambda>r ext. r = Inr () \<and> ext = [(build_message en pool 0 (u32s en [buffer, 0, w, h, st, 0]), [])])"
  unfolding create_buffer_def by (rule writes_send_all) simp

lemma writes_destroy [write_rules]:
  "writes (destroy_buffer_and_pool en buffer pool)
    (\<lambda>r ext. r = Inr () \<and> ext = [(build_message en buffer 0 [], []), (build_message en pool 1 [], [])])"
  unfolding destroy_buffer_and_pool_def
  by (rule traces_mono, (rule write_rules | (simp; fail))+) (auto simp: in_turn_def)

lemma writes_await_verdict [write_rules]: "writes (await_bind_verdict en i) (\<lambda>r ext. ext = [])"
  using read_loop_looks [OF _ looks_verdict] by (fastforce simp: traces_def wrote_def await_bind_verdict_def)

definition resize_writes :: "endianness \<Rightarrow> u32 \<times> u32 \<Rightarrow> fd \<Rightarrow> fd \<Rightarrow> (byte list \<times> fd list) list" where
  "resize_writes en shm fa fb =
    [(registry_burst en, []),
     (bind_message en (fst shm) ''wl_shm'' (snd shm) 4, []),
     (build_message en 4 0 (u32s en [5, 584640]), [fa]),
     (build_message en 5 0 (u32s en [6, 0, 320, 240, 1280, 0]), []),
     (build_message en 6 0 [], []),
     (build_message en 5 1 [], []),
     (build_message en 4 0 (u32s en [7, 1056096]), [fb]),
     (build_message en 7 0 (u32s en [8, 0, 579, 456, 2316, 0]), []),
     (sync_message en 9, [])]"

lemma resize_probe_log:
  assumes "probe_create_pool_resize en os p = (Inl ExitSuccess, p')" "accepts (desk p) = []"
  shows "\<exists>shm fa fb. os_file os ''pool_a'' 584640 = Some fa \<and> os_file os ''pool_b'' 1056096 = Some fb \<and>
    wire_log (desk p') = wire_log (desk p) @ map (map_prod id send_cmsgs) (resize_writes en shm fa fb)"
proof -
  have "writes (probe_create_pool_resize en os) (\<lambda>r ext. r = Inl ExitSuccess \<longrightarrow>
    (\<exists>shm fa fb. os_file os ''pool_a'' 584640 = Some fa \<and> os_file os ''pool_b'' 1056096 = Some fb \<and>
      ext = map (map_prod id send_cmsgs) (resize_writes en shm fa fb)))"
    unfolding probe_create_pool_resize_def
    by (rule traces_mono, (rule write_rules looks_shm gives_up_shm | (simp; fail))+)
      (auto simp: in_turn_def resize_writes_def send_cmsgs_def; blast)
  from writesD [OF this assms] show ?thesis by blast
qed

text \<open>What goes out is what the source lists, and the messages of it.\<close>

definition resize_requests :: "endianness \<Rightarrow> u32 \<times> u32 \<Rightarrow> (message_header \<times> byte list) list" where
  "resize_requests en shm =
    [frame_of 1 1 (u32s en [2]), frame_of 1 0 (u32s en [3]),
     frame_of 2 0 (bind_payload_of en \<lparr>bt_name = fst shm, bt_interface = ''wl_shm'', bt_version = snd shm, bt_followup = None\<rparr> 4),
     frame_of 4 0 (u32s en [5, 584640]), frame_of 5 0 (u32s en [6, 0, 320, 240, 1280, 0]),
     frame_of 6 0 [], frame_of 5 1 [],
     frame_of 4 0 (u32s en [7, 1056096]), frame_of 7 0 (u32s en [8, 0, 579, 456, 2316, 0]),
     frame_of 1 0 (u32s en [9])]"

lemma resize_writes_frames: "frames_of en (concat (map fst (resize_writes en shm fa fb))) = resize_requests en shm"
  using frames_of_bind [of "\<lparr>bt_name = fst shm, bt_interface = ''wl_shm'', bt_version = snd shm, bt_followup = None\<rparr>" en 4]
    frames_of_u32s [of "[9]" en 1 0 "[]"]
  by (simp add: resize_writes_def resize_requests_def registry_burst_def sync_message_def frames_of_u32s frames_of_empty)

lemma resize_writes_fds: "concat (map snd (resize_writes en shm fa fb)) = [fa, fb]"
  by (simp add: resize_writes_def)

section \<open>The cleared buffer\<close>

text \<open>A connection on which the compositor answers the probe, in two reads; \<open>k\<close> bytes of what follows
  the first callback come with it.\<close>

definition answers_cut :: "nat \<Rightarrow> probe" where
  "answers_cut k =
    (let en = LittleEndian;
         first = build_message en 3 0 (u32s en [0]);
         deleted = build_message en 1 1 (u32s en [3]);
         last_one = build_message en 5 0 (u32s en [0])
     in probe_connected [PeerSends 1 (first @ take k deleted) [], PeerSends 1 (drop k deleted @ last_one) []] [])"

definition quiet_os :: probe_os where
  "quiet_os = \<lparr>os_runtime_dir = Some ''/run/user/1000'', os_display = None, os_connects = (\<lambda>_. True), os_temp_dir = True,
     os_file = (\<lambda>_ _. Some 7), os_pkill = True, os_is_socket = (\<lambda>_. False), os_room = (\<lambda>_. None)\<rparr>"

lemma probe_bind_cuts:
  "fst (probe_bind LittleEndian quiet_os [''SKIP''] (answers_cut 12)) = Inl ExitSuccess"
  "fst (probe_bind LittleEndian quiet_os [''SKIP''] (answers_cut 4)) = Inl NeverReturns"
  "stream_of (answers_cut 12) = stream_of (answers_cut 4)"
  by code_simp+

end
