(* ===== verification/ProbeCuts.thy ===== *)
theory ProbeCuts
  imports ProbeBind
begin

text \<open>
  \<open>examples/probe_bind.rs\<close> and \<open>examples/probe_create_pool_resize.rs\<close> clear their receive buffer
  between the two waits. Shown here: whatever came behind the answer to the first wait, in the read that
  brought it, makes no difference to how the probe ends.
\<close>

section \<open>Phases that do not look at the buffer\<close>

text \<open>A phase that a different receive buffer makes no difference to.\<close>

definition blind :: "'a probing \<Rightarrow> bool" where
  "blind m \<longleftrightarrow> (\<forall>p i. \<exists>j. m (p\<lparr>inbox := i\<rparr>) = (fst (m p), (snd (m p))\<lparr>inbox := j\<rparr>))"

lemma blindI: "(\<And>p i. \<exists>j. m (p\<lparr>inbox := i\<rparr>) = (fst (m p), (snd (m p))\<lparr>inbox := j\<rparr>)) \<Longrightarrow> blind m"
  by (simp add: blind_def)

lemma blindD: "blind m \<Longrightarrow> fst (m (p\<lparr>inbox := i\<rparr>)) = fst (m p)"
  unfolding blind_def by (metis fst_conv)

lemma blind_and_then: "blind m \<Longrightarrow> (\<And>a. blind (f a)) \<Longrightarrow> blind (and_then m f)"
proof (rule blindI)
  fix p i assume m: "blind m" and f: "\<And>a. blind (f a)"
  from m obtain j where j: "m (p\<lparr>inbox := i\<rparr>) = (fst (m p), (snd (m p))\<lparr>inbox := j\<rparr>)" unfolding blind_def by blast
  show "\<exists>j. and_then m f (p\<lparr>inbox := i\<rparr>) = (fst (and_then m f p), (snd (and_then m f p))\<lparr>inbox := j\<rparr>)"
  proof (cases "fst (m p)")
    case (Inl e)
    then show ?thesis using j by (auto simp: and_then_def split: prod.split)
  next
    case (Inr a)
    with f [of a] obtain k where "f a ((snd (m p))\<lparr>inbox := j\<rparr>) = (fst (f a (snd (m p))), (snd (f a (snd (m p))))\<lparr>inbox := k\<rparr>)"
      unfolding blind_def by blast
    then show ?thesis using j Inr by (auto simp: and_then_def split: prod.split)
  qed
qed

lemma blind_on_desk: "blind (on_desk m)"
proof (rule blindI)
  fix p i
  show "\<exists>j. on_desk m (p\<lparr>inbox := i\<rparr>) = (fst (on_desk m p), (snd (on_desk m p))\<lparr>inbox := j\<rparr>)"
    by (cases p; cases "m (desk p)") (auto simp: on_desk_def)
qed

lemma blind_same: "blind (\<lambda>p. (r, p))"
  by (rule blindI) auto

lemma blind_go: "blind (go a)" and blind_halt: "blind (halt e)"
  using blind_same by (simp_all add: go_def [abs_def] halt_def [abs_def])

lemma blind_if: "blind m \<Longrightarrow> blind n \<Longrightarrow> blind (if b then m else n)"
  by simp

lemma blind_option: "blind m \<Longrightarrow> (\<And>a. blind (f a)) \<Longrightarrow> blind (case x of None \<Rightarrow> m | Some a \<Rightarrow> f a)"
  and blind_sum: "(\<And>a. blind (g a)) \<Longrightarrow> (\<And>b. blind (h b)) \<Longrightarrow> blind (case y of Inl a \<Rightarrow> g a | Inr b \<Rightarrow> h b)"
  and blind_prod: "(\<And>a b. blind (k a b)) \<Longrightarrow> blind (case z of (a, b) \<Rightarrow> k a b)"
  by (simp_all split: option.split sum.split prod.split)

lemma blind_await: "blind (await_bind_verdict en i)"
proof (rule blindI)
  fix p b
  have "await_bind_verdict en i (p\<lparr>inbox := b\<rparr>) = await_bind_verdict en i p" by (simp add: await_bind_verdict_def)
  then show "\<exists>j. await_bind_verdict en i (p\<lparr>inbox := b\<rparr>) =
      (fst (await_bind_verdict en i p), (snd (await_bind_verdict en i p))\<lparr>inbox := j\<rparr>)"
    by (intro exI [of _ "inbox (snd (await_bind_verdict en i p))"]) simp
qed

lemmas blind_rules = blind_and_then blind_go blind_halt blind_if blind_option blind_sum blind_prod blind_await
  blind_on_desk [of "write_all msg" for msg, folded send_all_def]
  blind_on_desk [of "send_with_fds msg fds" for msg fds, folded send_fds_def]

text \<open>A body whose loop returns at the first message with the property \<open>P\<close>, if not before with the end of the probe.\<close>

definition returns_at :: "('a, 'r) message_body \<Rightarrow> (message_header \<Rightarrow> bool) \<Rightarrow> bool" where
  "returns_at body P \<longleftrightarrow> (\<forall>h payload a d. case fst (body h payload a d) of
     Inl e \<Rightarrow> True | Inr (Inl r) \<Rightarrow> P h | Inr (Inr a') \<Rightarrow> \<not> P h)"

definition occurs :: "(message_header \<Rightarrow> bool) \<Rightarrow> (message_header \<times> byte list) list \<Rightarrow> bool" where
  "occurs P fs \<longleftrightarrow> (\<exists>f \<in> set fs. P (fst f))"

lemma occurs_simps [simp]: "\<not> occurs P []" "occurs P (f # fs) \<longleftrightarrow> P (fst f) \<or> occurs P fs"
  "occurs P (fs @ gs) \<longleftrightarrow> occurs P fs \<or> occurs P gs"
  by (auto simp: occurs_def)

lemma run_frames_returns:
  assumes "returns_at body P"
  shows "case run_frames body fs a d of
      (Inl e, d') \<Rightarrow> True
    | (Inr (Inl r), d') \<Rightarrow> occurs P fs
    | (Inr (Inr a'), d') \<Rightarrow> \<not> occurs P fs"
proof (induction fs arbitrary: a d)
  case (Cons hp fs)
  obtain h payload where hp: "hp = (h, payload)" by fastforce
  obtain x d1 where b: "body h payload a d = (x, d1)" by fastforce
  have "case x of Inl e \<Rightarrow> True | Inr (Inl r) \<Rightarrow> P h | Inr (Inr a') \<Rightarrow> \<not> P h"
    using assms b unfolding returns_at_def by (metis fst_conv)
  then show ?case using b Cons.IH [of "case x of Inr (Inr a') \<Rightarrow> a'" d1]
    by (cases x) (auto simp: hp and_then_def split: sum.splits prod.splits)
qed simp

text \<open>Once a run has left the loop, further messages make no difference.\<close>

lemma run_frames_left:
  assumes "run_frames body fs a d = (x, d')" "\<forall>a'. x \<noteq> Inr (Inr a')"
  shows "run_frames body (fs @ gs) a d = (x, d')"
  using assms
proof (induction fs arbitrary: a d)
  case (Cons hp fs)
  obtain h payload where hp: "hp = (h, payload)" by fastforce
  obtain y d1 where b: "body h payload a d = (y, d1)" by fastforce
  show ?case using Cons b by (cases y) (auto simp: hp and_then_def split: sum.splits)
qed auto

lemma scan_more_input:
  assumes "scan_inbox en body a p = (x, p')" "\<forall>a'. x \<noteq> Inr (Inr a')"
  shows "\<exists>i. scan_inbox en body a (p\<lparr>inbox := inbox p @ rest\<rparr>) = (x, p'\<lparr>inbox := i\<rparr>)"
proof -
  let ?q = "p\<lparr>inbox := inbox p @ rest\<rparr>"
  obtain y d where r: "run_frames body (frames_of en (inbox p)) a (desk p) = (y, d)" by fastforce
  have s: "x = y \<and> (\<exists>i. p' = p\<lparr>inbox := i, desk := d\<rparr>)"
    using scan_inbox_run [where en = en and body = body and a = a and p = p] assms r
    by (auto split: sum.splits)
  have f: "frames_of en (inbox ?q) = frames_of en (inbox p) @ frames_of en (unframed en (inbox p) @ rest)"
    using frames_of_append [of en "inbox p" rest] by simp
  have "run_frames body (frames_of en (inbox ?q)) a (desk ?q) = (x, d)"
    unfolding f using run_frames_left [OF r] s assms(2) by simp
  with scan_inbox_run [where en = en and body = body and a = a and p = ?q] assms(2)
  have "\<exists>i. scan_inbox en body a ?q = (x, ?q\<lparr>inbox := i, desk := d\<rparr>)"
    by (simp split: sum.splits)
  then obtain i where "scan_inbox en body a ?q = (x, p\<lparr>inbox := i, desk := d\<rparr>)" by auto
  with s show ?thesis by (intro exI [of _ i]) auto
qed

section \<open>The read that ends a wait\<close>

lemma pull_more:
  assumes "incoming p = PeerSends d bs cs # evs" "bs \<noteq> []"
  shows "(fst (pull False p) \<noteq> Inr GotData \<and> fst (pull False (p\<lparr>incoming := PeerSends d (bs @ x) cs # evs\<rparr>)) = fst (pull False p)) \<or>
    (\<exists>c. pull False p = (Inr GotData, p\<lparr>inbox := inbox p @ bs, incoming := evs, clock := c\<rparr>) \<and>
      pull False (p\<lparr>incoming := PeerSends d (bs @ x) cs # evs\<rparr>) =
        (Inr GotData, p\<lparr>inbox := inbox p @ bs @ x, incoming := evs, clock := c\<rparr>))"
  using assms
  by (cases p) (auto simp: pull_def blocking_read_def wake_after_def and_then_def recv_with_fds_def Let_def split: option.splits)

lemma pull_later:
  assumes "incoming p = ev # evs"
  shows "(fst (pull False p) \<noteq> Inr GotData \<and> fst (pull False (p\<lparr>incoming := ev # evs'\<rparr>)) = fst (pull False p)) \<or>
    (\<exists>c d bs cs. ev = PeerSends d bs cs \<and> bs \<noteq> [] \<and> pull False p = (Inr GotData, p\<lparr>inbox := inbox p @ bs, incoming := evs, clock := c\<rparr>) \<and>
      pull False (p\<lparr>incoming := ev # evs'\<rparr>) = (Inr GotData, p\<lparr>inbox := inbox p @ bs, incoming := evs', clock := c\<rparr>))"
  using assms
  by (cases p; cases ev) (auto simp: pull_def blocking_read_def wake_after_def and_then_def recv_with_fds_def Let_def split: option.splits)

lemma scan_incoming:
  "fst (scan_inbox en body a (p\<lparr>incoming := evs\<rparr>)) = fst (scan_inbox en body a p)"
  "scan_inbox en body a p = (Inr (Inr a'), p') \<Longrightarrow> scan_inbox en body a (p\<lparr>incoming := evs\<rparr>) = (Inr (Inr a'), p'\<lparr>incoming := evs\<rparr>)"
  using scan_inbox_run [where en = en and body = body and a = a and p = p]
    scan_inbox_run [where en = en and body = body and a = a and p = "p\<lparr>incoming := evs\<rparr>"]
  by (auto split: prod.splits sum.splits)

lemma scan_returns:
  assumes "returns_at body P" "scan_inbox en body a p = (x, p')"
  shows "(\<exists>a'. x = Inr (Inr a')) \<longrightarrow> \<not> occurs P (frames_of en (inbox p)) \<and> inbox p' = unframed en (inbox p)"
    "(\<exists>r. x = Inr (Inl r)) \<longrightarrow> occurs P (frames_of en (inbox p))"
  using scan_inbox_run [where en = en and body = body and a = a and p = p] assms(2)
    run_frames_returns [OF assms(1), of "frames_of en (inbox p)" a "desk p"]
  by (auto split: prod.splits sum.splits)

text \<open>The event that brings the message a wait returns at may bring anything behind it: the wait comes to the same
  result, in the same state but for the buffer.\<close>

lemma read_loop_rest:
  assumes ret: "returns_at body P" and bs: "bs \<noteq> []"
    and "\<not> occurs P (frames_of en (inbox p @ stream_bytes pre))"
    and "occurs P (frames_of en (inbox p @ stream_bytes (pre @ [PeerSends d bs cs])))"
    and "incoming p = pre @ PeerSends d bs cs # evs"
  shows "\<exists>q. read_loop en False body closed failed a (p\<lparr>incoming := pre @ PeerSends d (bs @ x) cs # evs\<rparr>) =
      (fst (read_loop en False body closed failed a p), q) \<and>
    (\<forall>r. fst (read_loop en False body closed failed a p) = Inr r \<longrightarrow>
      incoming (snd (read_loop en False body closed failed a p)) = evs \<and> (\<exists>i. q = (snd (read_loop en False body closed failed a p))\<lparr>inbox := i\<rparr>))"
  using assms(3-5)
proof (induction pre arbitrary: p a)
  case Nil
  let ?q = "p\<lparr>incoming := PeerSends d (bs @ x) cs # evs\<rparr>"
  have inc: "incoming p = PeerSends d bs cs # evs" using Nil by simp
  from pull_more [OF this bs, of x] show ?case
  proof (elim disjE exE conjE)
    assume "fst (pull False p) \<noteq> Inr GotData" "fst (pull False ?q) = fst (pull False p)"
    then show ?thesis
      by (cases "pull False p"; cases "pull False ?q"; subst (1 2 3 4 5) read_loop.simps) (auto split: sum.splits pulled.splits)
  next
    fix c
    let ?p1 = "p\<lparr>inbox := inbox p @ bs, incoming := evs, clock := c\<rparr>"
    assume pl: "pull False p = (Inr GotData, ?p1)"
      "pull False ?q = (Inr GotData, p\<lparr>inbox := inbox p @ bs @ x, incoming := evs, clock := c\<rparr>)"
    obtain y p2 where sc: "scan_inbox en body a ?p1 = (y, p2)" by fastforce
    have "occurs P (frames_of en (inbox ?p1))" using Nil(2) bs by simp
    then have y: "\<forall>a'. y \<noteq> Inr (Inr a')" using scan_returns(1) [OF ret sc] by auto
    have e: "?p1\<lparr>inbox := inbox ?p1 @ x\<rparr> = p\<lparr>inbox := inbox p @ bs @ x, incoming := evs, clock := c\<rparr>" by simp
    from scan_more_input [OF sc y, of x] obtain i where
      "scan_inbox en body a (p\<lparr>inbox := inbox p @ bs @ x, incoming := evs, clock := c\<rparr>) = (y, p2\<lparr>inbox := i\<rparr>)"
      unfolding e by blast
    then show ?thesis using pl sc y scan_inbox_keeps [OF sc]
      by (subst (1 2 3 4 5) read_loop.simps) (auto split: sum.splits)
  qed
next
  case (Cons ev pre)
  let ?q = "p\<lparr>incoming := (ev # pre) @ PeerSends d (bs @ x) cs # evs\<rparr>"
  have inc: "incoming p = ev # (pre @ PeerSends d bs cs # evs)" using Cons.prems(3) by simp
  from pull_later [OF this, of "pre @ PeerSends d (bs @ x) cs # evs"] show ?case
  proof (elim disjE exE conjE)
    assume "fst (pull False p) \<noteq> Inr GotData"
      "fst (pull False (p\<lparr>incoming := ev # pre @ PeerSends d (bs @ x) cs # evs\<rparr>)) = fst (pull False p)"
    then show ?thesis
      by (cases "pull False p"; cases "pull False ?q"; subst (1 2 3 4 5) read_loop.simps) (auto split: sum.splits pulled.splits)
  next
    fix c d1 bs1 cs1
    let ?p1 = "p\<lparr>inbox := inbox p @ bs1, incoming := pre @ PeerSends d bs cs # evs, clock := c\<rparr>"
    let ?q1 = "?p1\<lparr>incoming := pre @ PeerSends d (bs @ x) cs # evs\<rparr>"
    assume ev: "ev = PeerSends d1 bs1 cs1" "bs1 \<noteq> []" and pl: "pull False p = (Inr GotData, ?p1)"
      "pull False (p\<lparr>incoming := ev # pre @ PeerSends d (bs @ x) cs # evs\<rparr>) =
         (Inr GotData, p\<lparr>inbox := inbox p @ bs1, incoming := pre @ PeerSends d (bs @ x) cs # evs, clock := c\<rparr>)"
    then have pl': "pull False ?q = (Inr GotData, ?q1)" by simp
    have none: "\<not> occurs P (frames_of en (inbox ?p1))"
      using Cons.prems(1) ev frames_of_append [of en "inbox p @ bs1" "stream_bytes pre"] by simp
    obtain y p2 where sc: "scan_inbox en body a ?p1 = (y, p2)" by fastforce
    then have fq: "fst (scan_inbox en body a ?q1) = y" by (simp only: scan_incoming fst_conv)
    show ?thesis
    proof (cases "\<exists>a'. y = Inr (Inr a')")
      case False
      then obtain e where "y = Inl e" using scan_returns(2) [OF ret sc] none by (cases y) (auto, metis sum.exhaust)
      then show ?thesis using pl(1) pl' sc fq
        by (cases "scan_inbox en body a ?q1"; subst (1 2 3 4 5) read_loop.simps) auto
    next
      case True
      then obtain a' where y: "y = Inr (Inr a')" by blast
      note sq = scan_incoming(2) [OF sc [unfolded y], of "pre @ PeerSends d (bs @ x) cs # evs"]
      have i: "inbox p2 = unframed en (inbox p @ bs1)" using scan_returns(1) [OF ret sc] y by simp
      have inc2: "incoming p2 = pre @ PeerSends d bs cs # evs" using scan_inbox_keeps [OF sc] by simp
      have o: "occurs P (frames_of en (inbox p2 @ z)) = occurs P (frames_of en (inbox p @ bs1 @ z))" for z
        using frames_of_append [of en "inbox p @ bs1" z] none i by simp
      have e: "read_loop en False body closed failed a p = read_loop en False body closed failed a' p2"
        "read_loop en False body closed failed a ?q =
          read_loop en False body closed failed a' (p2\<lparr>incoming := pre @ PeerSends d (bs @ x) cs # evs\<rparr>)"
        using pl(1) pl' sc sq y by (subst read_loop.simps, simp)+
      show ?thesis unfolding e
        by (rule Cons.IH) (use Cons.prems(1,2) ev o inc2 in simp_all)
    qed
  qed
qed

text \<open>A phase that ends with a wait for something that has not arrived yet.\<close>

definition starves :: "'a probing \<Rightarrow> bool" where
  "starves m \<longleftrightarrow> (\<forall>p. incoming p = [] \<longrightarrow> fst (m p) \<noteq> Inl ExitSuccess \<and> incoming (snd (m p)) = [])"

lemma starves_and_then: "starves m \<Longrightarrow> (\<And>a. starves (f a)) \<Longrightarrow> starves (and_then m f)"
  by (auto simp: starves_def and_then_def split: prod.split sum.split; metis fst_conv snd_conv)

lemma starves_steps:
  "starves (go a)" "e \<noteq> ExitSuccess \<Longrightarrow> starves (halt e)" "starves (send_all msg)" "starves (send_fds msg fds)"
  "starves (create_temp_dir os)" "starves (backing_file os name len)" "starves (expect_global name found)"
  by (auto simp: starves_def send_all_def send_fds_def on_desk_def write_all_def send_with_fds_def create_temp_dir_def
      backing_file_def expect_global_def split: prod.split list.split send_outcome.split option.split)

lemma starves_await: "starves (await_bind_verdict en i)"
  unfolding starves_def await_bind_verdict_def
  by (auto simp: read_loop.simps pull_def blocking_read_def wake_after_def and_then_def Let_def modify_def
      split: option.split sum.splits)

lemma starves_prod: "(\<And>a b. starves (k a b)) \<Longrightarrow> starves (case z of (a, b) \<Rightarrow> k a b)"
  by (simp split: prod.split)

lemmas starves_rules = starves_and_then starves_steps starves_await starves_prod

text \<open>A wait, and what follows it without looking at the buffer.\<close>

definition first_answer :: "message_header \<Rightarrow> bool" where
  "first_answer h \<longleftrightarrow> sender_id h = 3 \<and> opcode h = 0"

definition collected_in :: "endianness \<Rightarrow> byte list \<Rightarrow> peer_event list \<Rightarrow> nat \<Rightarrow> byte list \<Rightarrow> cmsg list \<Rightarrow> bool" where
  "collected_in en buf pre d bs cs \<longleftrightarrow> bs \<noteq> [] \<and> \<not> occurs first_answer (frames_of en (buf @ stream_bytes pre)) \<and>
     occurs first_answer (frames_of en (buf @ stream_bytes (pre @ [PeerSends d bs cs])))"

lemma wait_then_blind:
  assumes "returns_at body first_answer" "collected_in en (inbox p) pre d bs cs" "incoming p = pre @ PeerSends d bs cs # evs"
    and "\<And>r. blind (K r)"
  shows "fst (and_then (read_loop en False body closed failed a) K (p\<lparr>incoming := pre @ PeerSends d (bs @ x) cs # evs\<rparr>)) =
      fst (and_then (read_loop en False body closed failed a) K p)"
    "evs = [] \<Longrightarrow> closed \<noteq> ExitSuccess \<Longrightarrow> failed \<noteq> ExitSuccess \<Longrightarrow> looks_only body \<Longrightarrow> \<not> gives_up body ExitSuccess \<Longrightarrow>
      (\<And>r. starves (K r)) \<Longrightarrow> fst (and_then (read_loop en False body closed failed a) K p) \<noteq> Inl ExitSuccess"
proof -
  obtain y p1 where r: "read_loop en False body closed failed a p = (y, p1)" by fastforce
  from read_loop_rest [OF assms(1) _ _ _ assms(3), of en closed failed a x] assms(2) r obtain q where
    q: "read_loop en False body closed failed a (p\<lparr>incoming := pre @ PeerSends d (bs @ x) cs # evs\<rparr>) = (y, q)"
      "\<forall>r. y = Inr r \<longrightarrow> incoming p1 = evs \<and> (\<exists>i. q = p1\<lparr>inbox := i\<rparr>)"
    unfolding collected_in_def by (metis fst_conv snd_conv)
  show "fst (and_then (read_loop en False body closed failed a) K (p\<lparr>incoming := pre @ PeerSends d (bs @ x) cs # evs\<rparr>)) =
      fst (and_then (read_loop en False body closed failed a) K p)"
    using r q blindD [OF assms(4)] by (cases y) (auto simp: and_then_eq)
  assume "evs = []" "closed \<noteq> ExitSuccess" "failed \<noteq> ExitSuccess" "looks_only body" "\<not> gives_up body ExitSuccess"
    "\<And>r. starves (K r)"
  then show "fst (and_then (read_loop en False body closed failed a) K p) \<noteq> Inl ExitSuccess"
    using r q(2) read_loop_looks [OF r] by (cases y) (auto simp: and_then_eq starves_def)
qed

text \<open>What comes before the wait takes nothing off the connection.\<close>

lemma send_all_later: "send_all msg (p\<lparr>incoming := evs\<rparr>) = (fst (send_all msg p), (snd (send_all msg p))\<lparr>incoming := evs\<rparr>)"
  by (cases p) (auto simp: send_all_def on_desk_def split: prod.split)

lemma display_then: "and_then (open_display dd os) f p = (let r = fst (open_display dd os p) in
    case r of Inl e \<Rightarrow> (Inl e, p) | Inr _ \<Rightarrow> f () p)"
  "fst (open_display dd os p) \<noteq> Inl ExitSuccess" "fst (open_display dd os (p\<lparr>incoming := evs\<rparr>)) = fst (open_display dd os p)"
  by (auto simp: open_display_def and_then_def split: option.split)

lemma after_greeting:
  assumes "returns_at body first_answer" "collected_in en (inbox p) pre d bs cs" "incoming p = pre @ PeerSends d bs cs # evs"
    and "\<And>r. blind (K r)" "closed \<noteq> ExitSuccess" "failed \<noteq> ExitSuccess" "looks_only body" "\<not> gives_up body ExitSuccess"
    and "\<And>r. starves (K r)"
    and m: "m = and_then (open_display dd os) (\<lambda>_. and_then (send_all msg) (\<lambda>_. and_then (read_loop en False body closed failed a) K))"
  shows "fst (m (p\<lparr>incoming := pre @ PeerSends d (bs @ x) cs # evs\<rparr>)) = fst (m p) \<and> (evs = [] \<longrightarrow> fst (m p) \<noteq> Inl ExitSuccess)"
proof (cases "\<exists>u. fst (open_display dd os p) = Inr u \<and> fst (send_all msg p) = Inr ()")
  case True
  let ?p = "snd (send_all msg p)"
  have k: "inbox ?p = inbox p" "incoming ?p = incoming p"
    using send_all_keeps [of msg p "fst (send_all msg p)" "snd (send_all msg p)"] by simp_all
  have e: "m p = and_then (read_loop en False body closed failed a) K ?p"
    "m (p\<lparr>incoming := evs'\<rparr>) = and_then (read_loop en False body closed failed a) K (?p\<lparr>incoming := evs'\<rparr>)" for evs'
    using True send_all_later [of msg _ p] by (auto simp: m display_then Let_def and_then_eq [of "send_all msg"] prod_eq_iff)
  show ?thesis unfolding e
    using wait_then_blind [where body = body and en = en and p = ?p and closed = closed and failed = failed and a = a and K = K, OF assms(1)]
      assms(2-9) k by simp
next
  case False
  then consider e where "fst (open_display dd os p) = Inl e" | u e where "fst (open_display dd os p) = Inr u" "fst (send_all msg p) = Inl e"
    by (metis old.unit.exhaust sum.exhaust)
  then show ?thesis
  proof cases
    case 1
    then have "fst (m p) = Inl e" "fst (m (p\<lparr>incoming := evs'\<rparr>)) = Inl e" for evs' by (simp_all add: m display_then Let_def)
    then show ?thesis using 1 display_then(2) [of dd os p] by simp
  next
    case 2
    then have "fst (m p) = Inl e" "fst (m (p\<lparr>incoming := evs'\<rparr>)) = Inl e" for evs'
      using send_all_later [of msg _ p]
      by (cases "send_all msg p"; simp add: m display_then Let_def and_then_eq)+
    moreover have "e \<noteq> ExitSuccess"
      using 2(2) by (auto simp: send_all_def on_desk_def write_all_def split: prod.splits if_splits)
    ultimately show ?thesis by simp
  qed
qed

section \<open>The two probes\<close>

lemma returns_collect: "returns_at (bind_collect_body en) first_answer" "returns_at (shm_collect_body en) first_answer"
  by (auto simp: returns_at_def bind_collect_body_def shm_collect_body_def first_answer_def)

lemma looks_collect: "looks_only (bind_collect_body en)" "\<not> gives_up (bind_collect_body en) ExitSuccess"
  by (auto simp: looks_only_def gives_up_def bind_collect_body_def go_def halt_def split: if_splits)

lemma resolve_specs_fails: "resolve_specs globals specs = Inl e \<Longrightarrow> e \<noteq> ExitSuccess"
  by (induction globals specs rule: resolve_specs.induct)
    (auto simp: resolve_spec_def followup_of_def version_of_def split: sum.splits prod.splits option.splits if_splits)

lemma probe_bind_rest:
  assumes "collected_in en (inbox p) pre d bs cs" "incoming p = pre @ PeerSends d bs cs # evs"
  shows "fst (probe_bind en os args (p\<lparr>incoming := pre @ PeerSends d (bs @ x) cs # evs\<rparr>)) = fst (probe_bind en os args p) \<and>
    (evs = [] \<longrightarrow> fst (probe_bind en os args p) \<noteq> Inl ExitSuccess)"
proof (cases "args = []")
  case False
  let ?K = "\<lambda>globals. case resolve_specs globals args of Inl e \<Rightarrow> halt e | Inr targets \<Rightarrow>
    (case bind_burst en targets 4 of (binds, sync_id) \<Rightarrow>
       and_then (send_all (binds @ sync_message en sync_id)) (\<lambda>_. await_bind_verdict en sync_id))"
  have "blind (?K globals)" for globals by (intro blind_rules)
  moreover have "starves (?K globals)" for globals
    using resolve_specs_fails [of globals args]
    by (cases "resolve_specs globals args") (auto intro!: starves_rules)
  moreover have "probe_bind en os args = and_then (open_display ''wayland-proxy-0'' os) (\<lambda>_.
      and_then (send_all (registry_burst en)) (\<lambda>_.
      and_then (read_loop en False (bind_collect_body en) (ExitFailure ConnectionClosed) (Panicked ReadFailed) []) ?K))"
    using False by (simp add: probe_bind_def collect_binds_def and_then_assoc)
  ultimately show ?thesis
    by (intro after_greeting [OF returns_collect(1) assms, of ?K]) (simp_all add: looks_collect)
qed (simp add: probe_bind_def)

lemma resize_rest:
  assumes "collected_in en (inbox p) pre d bs cs" "incoming p = pre @ PeerSends d bs cs # evs"
  shows "fst (probe_create_pool_resize en os (p\<lparr>incoming := pre @ PeerSends d (bs @ x) cs # evs\<rparr>)) = fst (probe_create_pool_resize en os p) \<and>
    (evs = [] \<longrightarrow> fst (probe_create_pool_resize en os p) \<noteq> Inl ExitSuccess)"
proof -
  let ?K = "\<lambda>found. and_then (expect_global ''wl_shm'' found) (\<lambda>(name, version).
    and_then (create_temp_dir os) (\<lambda>_.
    and_then (send_all (bind_message en name ''wl_shm'' version 4)) (\<lambda>_.
    and_then (create_pool en os 4 5 ''pool_a'' 584640) (\<lambda>_.
    and_then (create_buffer en 5 6 320 240 1280) (\<lambda>_.
    and_then (destroy_buffer_and_pool en 6 5) (\<lambda>_.
    and_then (create_pool en os 4 7 ''pool_b'' 1056096) (\<lambda>_.
    and_then (create_buffer en 7 8 579 456 2316) (\<lambda>_.
    and_then (send_all (sync_message en 9)) (\<lambda>_.
    await_bind_verdict en 9)))))))))"
  have "blind (?K found)" for found
    unfolding create_pool_def create_buffer_def destroy_buffer_and_pool_def expect_global_def create_temp_dir_def backing_file_def
    by (intro blind_rules)
  moreover have "starves (?K found)" for found
    unfolding create_pool_def create_buffer_def destroy_buffer_and_pool_def by (intro starves_rules)
  moreover have "probe_create_pool_resize en os = and_then (open_display ''wayland-0'' os) (\<lambda>_. and_then (send_all (registry_burst en)) (\<lambda>_.
      and_then (read_loop en False (shm_collect_body en) (ExitFailure ConnectionClosed) (Panicked ReadFailed) None) ?K))"
    by (simp add: probe_create_pool_resize_def)
  ultimately show ?thesis
    by (intro after_greeting [OF returns_collect(2) assms, of ?K]) (simp_all add: looks_shm gives_up_shm)
qed

end
