(* ===== verification/ProbeReconnect.thy ===== *)
theory ProbeReconnect
  imports ProbeBind
begin

text \<open>
  The probes that kill the compositor behind the proxy and look at what the proxy makes of it:
  \<open>examples/probe_reconnect_resize.rs\<close> (a pool and a buffer), \<open>..._with_surface.rs\<close> (a mapped window
  whose configures are acknowledged) and \<open>examples/probe_dmabuf_reconnect.rs\<close> (a dmabuf buffer, whose
  frame callback is waited for after the reconnect).
\<close>

section \<open>Steps they share\<close>

text \<open>A handshake before the crash: any other outcome of the wait ends the probe.\<close>

definition await_matched :: "wait_result \<Rightarrow> unit probing" where
  "await_matched r =
    (case r of
       Matched \<Rightarrow> go ()
     | WaitError e \<Rightarrow> halt (ExitFailure e)
     | _ \<Rightarrow> halt (ExitFailure NoAnswer))"

text \<open>The two probes with a window only say whether there was an error.\<close>

definition await_matched_brief :: "wait_result \<Rightarrow> unit probing" where
  "await_matched_brief r = (if r = Matched then go () else halt (ExitFailure NoAnswer))"

definition crash_compositor :: "probe_os \<Rightarrow> unit probing" where
  "crash_compositor os = (if os_pkill os then go () else halt (ExitFailure CrashFailed))"

text \<open>The last match of each \<open>main\<close>.\<close>

definition report_result :: "wait_result \<Rightarrow> unit probing" where
  "report_result r =
    (case r of
       Matched \<Rightarrow> halt ExitSuccess
     | WaitError e \<Rightarrow> halt (ExitFailure e)
     | WaitClosed \<Rightarrow> halt (ExitFailure ConnectionClosed)
     | WaitTimedOut \<Rightarrow> halt (ExitFailure NoAnswer))"

text \<open>Three globals by interface name, the last announcement of each. A closed connection is a failed
  assertion here.\<close>

type_synonym 'a three = "'a option \<times> 'a option \<times> 'a option"

definition three_collect_body :: "endianness \<Rightarrow> string \<times> string \<times> string
    \<Rightarrow> ((u32 \<times> u32) three, (u32 \<times> u32) three) message_body" where
  "three_collect_body en names h payload found =
    (case (names, found) of ((n1, n2, n3), (f1, f2, f3)) \<Rightarrow>
      if sender_id h = 2 \<and> opcode h = 0 then
        go (Inr (case announced en payload of
                   None \<Rightarrow> found
                 | Some (name, iface, version) \<Rightarrow>
                     if iface = n1 then (Some (name, version), f2, f3)
                     else if iface = n2 then (f1, Some (name, version), f3)
                     else if iface = n3 then (f1, f2, Some (name, version))
                     else found))
      else if sender_id h = 3 \<and> opcode h = 0 then go (Inl found)
      else go (Inr found))"

definition collect_three :: "endianness \<Rightarrow> string \<times> string \<times> string \<Rightarrow> ((u32 \<times> u32) \<times> (u32 \<times> u32) \<times> (u32 \<times> u32)) probing" where
  "collect_three en names =
    (case names of (n1, n2, n3) \<Rightarrow>
      and_then (send_all (registry_burst en)) (\<lambda>_.
      and_then (read_loop en False (three_collect_body en names) (Panicked ConnectionClosed) (Panicked ReadFailed) (None, None, None))
        (\<lambda>(f1, f2, f3).
      and_then (expect_global n1 f1) (\<lambda>g1.
      and_then (expect_global n2 f2) (\<lambda>g2.
      and_then (expect_global n3 f3) (\<lambda>g3. go (g1, g2, g3)))))))"

text \<open>\<open>wl_compositor\<close> 4, \<open>xdg_wm_base\<close> 5 and the buffer factory 6; surface 7, xdg surface 8, toplevel 9.\<close>

definition surface_chain :: "endianness \<Rightarrow> string \<times> string \<times> string \<Rightarrow> (u32 \<times> u32) \<times> (u32 \<times> u32) \<times> (u32 \<times> u32) \<Rightarrow> byte list" where
  "surface_chain en names globals =
    (case (names, globals) of ((n1, n2, n3), (g1, g2, g3)) \<Rightarrow>
      bind_message en (fst g1) n1 (snd g1) 4 @ bind_message en (fst g2) n2 (snd g2) 5 @
      bind_message en (fst g3) n3 (snd g3) 6 @
      build_message en 4 0 (u32s en [7]) @
      build_message en 5 2 (u32s en [8, 7]) @
      build_message en 8 1 (u32s en [9]))"

text \<open>Bind, chain, an empty commit, and the first configure.\<close>

definition map_window :: "endianness \<Rightarrow> string \<times> string \<times> string \<Rightarrow> (u32 \<times> u32) \<times> (u32 \<times> u32) \<times> (u32 \<times> u32) \<Rightarrow> unit probing" where
  "map_window en names globals =
    and_then (send_all (surface_chain en names globals)) (\<lambda>_.
    and_then (send_all (build_message en 7 6 [])) (\<lambda>_.
    and_then (set_read_timeout (Some 500)) (\<lambda>_.
    drain_and_ack_configures en 8 800)))"

definition attach_burst :: "endianness \<Rightarrow> u32 \<Rightarrow> u32 \<Rightarrow> u32 \<Rightarrow> byte list" where
  "attach_burst en buffer width height =
    build_message en 7 1 (u32s en [buffer, 0, 0]) @ build_message en 7 9 (u32s en [0, 0, width, height])"

definition attach_and_commit :: "endianness \<Rightarrow> u32 \<Rightarrow> u32 \<Rightarrow> u32 \<Rightarrow> unit probing" where
  "attach_and_commit en buffer width height =
    send_all (attach_burst en buffer width height @ build_message en 7 6 [])"

definition sync_and_wait :: "endianness \<Rightarrow> u32 \<Rightarrow> wait_result probing" where
  "sync_and_wait en sync_id = and_then (send_all (sync_message en sync_id)) (\<lambda>_. read_until en sync_id 0)"

text \<open>After the crash: the watchdog, and callbacks until one is answered.\<close>

definition crash_and_watch :: "probe_os \<Rightarrow> nat \<Rightarrow> nat option \<Rightarrow> unit probing" where
  "crash_and_watch os watch timeout =
    and_then (crash_compositor os) (\<lambda>_.
    and_then (start_watchdog watch) (\<lambda>_.
    case timeout of None \<Rightarrow> go () | Some ms \<Rightarrow> set_read_timeout (Some ms)))"

definition crash_and_reconnect :: "endianness \<Rightarrow> probe_os \<Rightarrow> nat \<Rightarrow> nat option \<Rightarrow> u32 \<Rightarrow> u32 probing" where
  "crash_and_reconnect en os watch timeout first_id =
    and_then (crash_and_watch os watch timeout) (\<lambda>_. retry_sync en first_id)"

section \<open>A pool and a buffer\<close>

text \<open>Each \<open>main\<close> is cut at its waits: what it sets up, the handshake, what it does after the reconnect,
  and the request whose answer is the verdict.\<close>

definition resize_setup :: "endianness \<Rightarrow> probe_os \<Rightarrow> unit probing" where
  "resize_setup en os =
    and_then (send_all (registry_burst en)) (\<lambda>_.
    and_then (read_loop en False (shm_collect_body en) (Panicked ConnectionClosed) (Panicked ReadFailed) None) (\<lambda>found.
    and_then (expect_global ''wl_shm'' found) (\<lambda>(name, version).
    and_then (create_temp_dir os) (\<lambda>_.
    and_then (send_all (bind_message en name ''wl_shm'' version 4)) (\<lambda>_.
    and_then (create_pool en os 4 5 ''pool_a'' 584640) (\<lambda>_.
    create_buffer en 5 6 320 240 1280))))))"

definition resize_before_crash :: "endianness \<Rightarrow> probe_os \<Rightarrow> unit probing" where
  "resize_before_crash en os =
    and_then (resize_setup en os) (\<lambda>_.
    and_then (sync_and_wait en 7) await_matched)"

definition resize_second_buffer :: "endianness \<Rightarrow> probe_os \<Rightarrow> unit probing" where
  "resize_second_buffer en os =
    and_then (set_read_timeout None) (\<lambda>_.
    and_then (destroy_buffer_and_pool en 6 5) (\<lambda>_.
    and_then (create_pool en os 4 9 ''pool_b'' 1056096) (\<lambda>_.
    create_buffer en 9 10 579 456 2316)))"

definition resize_after_crash :: "endianness \<Rightarrow> probe_os \<Rightarrow> unit probing" where
  "resize_after_crash en os =
    and_then (resize_second_buffer en os) (\<lambda>_.
    and_then (sync_and_wait en 11) report_result)"

definition probe_reconnect_resize :: "endianness \<Rightarrow> probe_os \<Rightarrow> unit probing" where
  "probe_reconnect_resize en os =
    and_then (open_display ''wayland-0'' os) (\<lambda>_.
    and_then (resize_before_crash en os) (\<lambda>_.
    and_then (crash_and_reconnect en os 20000 (Some 400) 8) (\<lambda>_.
    resize_after_crash en os)))"

section \<open>A mapped window\<close>

definition shm_names :: "string \<times> string \<times> string" where
  "shm_names = (''wl_compositor'', ''xdg_wm_base'', ''wl_shm'')"

definition window_setup :: "endianness \<Rightarrow> probe_os \<Rightarrow> unit probing" where
  "window_setup en os =
    and_then (collect_three en shm_names) (\<lambda>globals.
    and_then (create_temp_dir os) (\<lambda>_.
    and_then (map_window en shm_names globals) (\<lambda>_.
    and_then (create_pool en os 6 10 ''pool_a'' 584640) (\<lambda>_.
    and_then (create_buffer en 10 11 320 240 1280) (\<lambda>_.
    attach_and_commit en 11 320 240)))))"

definition window_before_crash :: "endianness \<Rightarrow> probe_os \<Rightarrow> unit probing" where
  "window_before_crash en os =
    and_then (window_setup en os) (\<lambda>_.
    and_then (sync_and_wait en 12) await_matched_brief)"

definition window_second_buffer :: "endianness \<Rightarrow> probe_os \<Rightarrow> unit probing" where
  "window_second_buffer en os =
    and_then (drain_and_ack_configures en 8 1500) (\<lambda>_.
    and_then (set_read_timeout None) (\<lambda>_.
    and_then (destroy_buffer_and_pool en 11 10) (\<lambda>_.
    and_then (create_pool en os 6 14 ''pool_b'' 1056096) (\<lambda>_.
    and_then (create_buffer en 14 15 579 456 2316) (\<lambda>_.
    attach_and_commit en 15 579 456)))))"

definition window_after_crash :: "endianness \<Rightarrow> probe_os \<Rightarrow> unit probing" where
  "window_after_crash en os =
    and_then (window_second_buffer en os) (\<lambda>_.
    and_then (sync_and_wait en 16) report_result)"

definition probe_reconnect_resize_with_surface :: "endianness \<Rightarrow> probe_os \<Rightarrow> unit probing" where
  "probe_reconnect_resize_with_surface en os =
    and_then (open_display ''wayland-0'' os) (\<lambda>_.
    and_then (window_before_crash en os) (\<lambda>_.
    and_then (crash_and_reconnect en os 25000 None 13) (\<lambda>_.
    window_after_crash en os)))"

section \<open>A dmabuf buffer\<close>

text \<open>What the GBM library and the driver answer: whether the render node opens and the device is made,
  the buffer object of either allocation path, and its layout. \<open>gbm_argb8888\<close> is the format's code.\<close>

record dmabuf_object =
  bo_stride :: u32
  bo_modifier :: u64
  bo_fd :: "fd option"

record gbm_world =
  gbm_node :: bool
  gbm_device :: bool
  gbm_explicit :: "dmabuf_object option"
  gbm_implicit :: "dmabuf_object option"
  gbm_argb8888 :: u32

definition allocate_dmabuf :: "gbm_world \<Rightarrow> (dmabuf_object \<times> fd) probing" where
  "allocate_dmabuf g =
    (if \<not> gbm_node g \<or> \<not> gbm_device g then halt (Panicked NoDmabuf)
     else case (case gbm_explicit g of Some bo \<Rightarrow> Some bo | None \<Rightarrow> gbm_implicit g) of
       None \<Rightarrow> halt (Panicked NoDmabuf)
     | Some bo \<Rightarrow> (case bo_fd bo of None \<Rightarrow> halt (Panicked NoDmabuf) | Some f \<Rightarrow> go (bo, f)))"

text \<open>\<open>zwp_linux_buffer_params_v1.add\<close>: the modifier goes out in two halves.\<close>

definition plane_payload :: "endianness \<Rightarrow> dmabuf_object \<Rightarrow> byte list" where
  "plane_payload en bo =
    u32s en [0, 0, bo_stride bo, ucast (drop_bit 32 (bo_modifier bo)), ucast (bo_modifier bo AND 0xFFFFFFFF)]"

definition create_dmabuf_buffer :: "endianness \<Rightarrow> gbm_world \<Rightarrow> dmabuf_object \<times> fd \<Rightarrow> unit probing" where
  "create_dmabuf_buffer en g alloc =
    (case alloc of (bo, f) \<Rightarrow>
      and_then (send_all (build_message en 6 1 (u32s en [10]))) (\<lambda>_.
      and_then (send_fds (build_message en 10 1 (plane_payload en bo)) [f]) (\<lambda>_.
      send_all (build_message en 10 3 (u32s en [11, 320, 240, gbm_argb8888 g, 0])))))"

definition dmabuf_names :: "string \<times> string \<times> string" where
  "dmabuf_names = (''wl_compositor'', ''xdg_wm_base'', ''zwp_linux_dmabuf_v1'')"

definition dmabuf_setup :: "endianness \<Rightarrow> gbm_world \<Rightarrow> unit probing" where
  "dmabuf_setup en g =
    and_then (collect_three en dmabuf_names) (\<lambda>globals.
    and_then (map_window en dmabuf_names globals) (\<lambda>_.
    and_then (allocate_dmabuf g) (\<lambda>alloc.
    and_then (create_dmabuf_buffer en g alloc) (\<lambda>_.
    attach_and_commit en 11 320 240))))"

definition dmabuf_before_crash :: "endianness \<Rightarrow> gbm_world \<Rightarrow> unit probing" where
  "dmabuf_before_crash en g =
    and_then (dmabuf_setup en g) (\<lambda>_.
    and_then (sync_and_wait en 12) await_matched_brief)"

definition reattach_burst :: "endianness \<Rightarrow> u32 \<Rightarrow> u32 \<Rightarrow> byte list" where
  "reattach_burst en frame_id final_sync_id =
    attach_burst en 11 320 240 @ build_message en 7 3 (u32s en [frame_id]) @
    build_message en 7 6 [] @ sync_message en final_sync_id"

text \<open>The actual test, once recovery is confirmed. The receive timeout is off by then.\<close>

definition reattach_and_wait :: "endianness \<Rightarrow> u32 \<Rightarrow> wait_result probing" where
  "reattach_and_wait en sync_id =
    and_then (send_all (reattach_burst en (sync_id + 1) (sync_id + 2))) (\<lambda>_ p.
    read_until_both en (sync_id + 1, 0) (sync_id + 2, 0) (clock p + 10000) p)"

definition settle_again :: "endianness \<Rightarrow> unit probing" where
  "settle_again en = and_then (drain_and_ack_configures en 8 1500) (\<lambda>_. set_read_timeout None)"

definition dmabuf_after_crash :: "endianness \<Rightarrow> u32 \<Rightarrow> unit probing" where
  "dmabuf_after_crash en sync_id =
    and_then (settle_again en) (\<lambda>_.
    and_then (reattach_and_wait en sync_id) report_result)"

definition probe_dmabuf_reconnect :: "endianness \<Rightarrow> probe_os \<Rightarrow> gbm_world \<Rightarrow> unit probing" where
  "probe_dmabuf_reconnect en os g =
    and_then (open_display ''wayland-0'' os) (\<lambda>_.
    and_then (dmabuf_before_crash en g) (\<lambda>_.
    and_then (crash_and_reconnect en os 30000 None 13) (\<lambda>sync_id.
    dmabuf_after_crash en sync_id)))"

section \<open>They end\<close>

lemma watched_steps [watch_rules]:
  "watched (report_result r)" "watched (create_pool en os shm pool n bytes)" "watched (create_buffer en pool b wd h st)"
  "watched (destroy_buffer_and_pool en b pool)" "watched (attach_and_commit en b wd h)" "watched (sync_and_wait en i)"
  unfolding report_result_def create_pool_def backing_file_def create_buffer_def destroy_buffer_and_pool_def
    attach_and_commit_def sync_and_wait_def
  by (auto intro!: watch_rules split: wait_result.split option.split)

lemma watched_reattach [watch_rules]: "watched (reattach_and_wait en i)"
  unfolding reattach_and_wait_def
  by (intro watched_and_then watched_send_all watched_clock [where f = "\<lambda>t. read_until_both en (i + 1, 0) (i + 2, 0) (t + 10000)"] watch_rules)

lemma watched_after_crash [watch_rules]:
  "watched (resize_after_crash en os)" "watched (window_after_crash en os)" "watched (dmabuf_after_crash en i)"
  unfolding resize_after_crash_def window_after_crash_def dmabuf_after_crash_def resize_second_buffer_def window_second_buffer_def
    settle_again_def
  by (intro watch_rules)+

lemma crash_and_reconnect_ends:
  assumes "\<And>a. watched (f a)" "and_then (crash_and_reconnect en os ms t i) f p = (r, p')"
  shows "r \<noteq> Inl NeverReturns \<and> clock p' \<le> clock p + ms"
proof (cases "os_pkill os")
  case True
  let ?rest = "and_then (case t of None \<Rightarrow> go () | Some ms \<Rightarrow> set_read_timeout (Some ms)) (\<lambda>_. and_then (retry_sync en i) f)"
  have "watched ?rest" using assms(1) by (cases t) (auto intro!: watch_rules)
  moreover have "and_then (start_watchdog ms) (\<lambda>_. ?rest) p = (r, p')"
    using assms(2) True by (simp add: crash_and_reconnect_def crash_and_watch_def crash_compositor_def and_then_assoc)
  ultimately show ?thesis using watched_from_start by blast
next
  case False
  then show ?thesis using assms(2) by (auto simp: crash_and_reconnect_def crash_and_watch_def crash_compositor_def)
qed

text \<open>Once the handshake before the crash has come back, a probe comes back, by its watchdog's instant.\<close>

definition ends_after :: "unit probing \<Rightarrow> unit probing \<Rightarrow> nat \<Rightarrow> bool" where
  "ends_after before main ms \<longleftrightarrow> (\<forall>p r p1. before p = (r, p1) \<and> r \<noteq> Inl NeverReturns \<longrightarrow>
     fst (main p) \<noteq> Inl NeverReturns \<and> clock (snd (main p)) \<le> clock p1 + ms)"

lemma open_display_cases: "open_display d os = go () \<or> (\<exists>e. e \<noteq> NeverReturns \<and> open_display d os = halt e)"
  by (auto simp: open_display_def split: option.split)

lemma ends_after_crash:
  assumes "\<And>a. watched (f a)"
  shows "ends_after (and_then (open_display d os) (\<lambda>_. before))
    (and_then (open_display d os) (\<lambda>_. and_then before (\<lambda>_. and_then (crash_and_reconnect en os ms t i) f))) ms"
  unfolding ends_after_def
proof (intro allI impI, elim conjE)
  fix p r p1
  assume b: "and_then (open_display d os) (\<lambda>_. before) p = (r, p1)" and r: "r \<noteq> Inl NeverReturns"
  let ?main = "and_then (open_display d os) (\<lambda>_. and_then before (\<lambda>_. and_then (crash_and_reconnect en os ms t i) f))"
  show "fst (?main p) \<noteq> Inl NeverReturns \<and> clock (snd (?main p)) \<le> clock p1 + ms"
  proof (cases r)
    case (Inl e)
    have "?main = and_then (and_then (open_display d os) (\<lambda>_. before)) (\<lambda>_. and_then (crash_and_reconnect en os ms t i) f)"
      by (simp add: and_then_assoc)
    then show ?thesis using b r Inl by (simp add: and_then_eq)
  next
    case (Inr u)
    have "?main p = and_then (crash_and_reconnect en os ms t i) f p1"
      using b Inr and_then_assoc [of "open_display d os" "\<lambda>_. before" "\<lambda>_. and_then (crash_and_reconnect en os ms t i) f", symmetric]
      by (simp add: and_then_eq)
    moreover obtain x p2 where "and_then (crash_and_reconnect en os ms t i) f p1 = (x, p2)" by fastforce
    ultimately show ?thesis using crash_and_reconnect_ends [OF assms] by auto
  qed
qed

section \<open>A compositor that stays silent\<close>

lemma both_loop_expired: "both_loop en f g dl seen p = (r, p') \<Longrightarrow> dl \<le> clock p \<Longrightarrow> incoming p' = incoming p"
  by (subst (asm) both_loop.simps) (auto split: prod.splits sum.splits if_splits dest!: scan_inbox_keeps)

text \<open>With the receive timeout off, \<open>read_until_both\<close> gives up only after something has arrived.\<close>

lemma both_loop_timed_out:
  assumes "both_loop en f g dl seen p = (Inr WaitTimedOut, p')" "read_timeout p = 0" "clock p < dl"
  shows "length (incoming p') < length (incoming p)"
  using assms
proof (induction en f g dl seen p rule: both_loop.induct)
  case (1 en f g dl seen p)
  obtain x p1 where sc: "scan_inbox en (both_body en f g) seen p = (x, p1)" by fastforce
  note k = scan_inbox_keeps [OF sc]
  have "\<exists>s. x = Inr (Inr s)"
  proof (rule ccontr)
    assume n: "\<nexists>s. x = Inr (Inr s)"
    have "x \<noteq> Inr (Inl WaitTimedOut)"
    proof
      assume "x = Inr (Inl WaitTimedOut)"
      with scan_heard [OF sc] obtain fs where "run_frames (both_body en f g) fs seen (desk p) = (Inr (Inl WaitTimedOut), desk p1)" by auto
      then show False
        by (induction fs arbitrary: seen) (auto simp: and_then_def both_body_def Let_def split: if_splits)
    qed
    then show False using 1(3) sc n by (subst (asm) both_loop.simps) (auto split: sum.splits)
  qed
  then obtain s where x: "x = Inr (Inr s)" by blast
  obtain y p2 where rd: "read_some p1 = (y, p2)" by fastforce
  have dl: "\<not> dl \<le> clock p1" using 1(5) k by simp
  show ?case
  proof (cases y)
    case (Inl e)
    then show ?thesis using 1(3) sc x rd dl by (subst (asm) both_loop.simps) simp
  next
    case (Inr gg)
    note pc = pull_cases [OF rd [unfolded read_some_def Inr]]
    have "gg = GotData" using 1(3,4) sc x rd dl Inr pc(1) k
      by (subst (asm) both_loop.simps) (cases gg, auto)
    then have y: "y = Inr GotData" "both_loop en f g dl s p2 = (Inr WaitTimedOut, p')" "length (incoming p2) < length (incoming p)"
      using 1(3) sc x rd dl Inr pc(1) k by (auto simp: both_loop.simps [of en f g dl seen p])
    show ?thesis
    proof (cases "clock p2 < dl")
      case True
      with 1(1) [OF sc [symmetric] x refl dl rd [symmetric] y(1) refl y(2)] 1(4) k pc(3) y(3) show ?thesis by simp
    next
      case False
      then have "incoming p' = incoming p2" using both_loop_expired [OF y(2)] by simp
      then show ?thesis using y(3) by simp
    qed
  qed
qed

lemma silent_read:
  assumes "incoming p = []" "watchdog p = Some w" "clock p \<le> w" "read_some p = (x, p')"
  shows "(x = Inl KilledByWatchdog \<or> x = Inr GotWouldBlock \<and> 0 < read_timeout p) \<and> incoming p' = [] \<and> desk p' = desk p \<and>
    inbox p' = inbox p \<and> read_timeout p' = read_timeout p"
  using assms
  by (auto simp: read_some_def pull_def and_then_def blocking_read_def wake_after_def Let_def split: if_splits option.splits)

lemma ack_body_willing:
  "accepts d = [] \<Longrightarrow> \<exists>d'. ack_body en i h payload a d = (Inr (Inr True), d') \<and> accepts d' = []"
  by (auto simp: ack_body_def and_then_def write_all_def split: option.split)

lemma run_ack_willing:
  "accepts d = [] \<Longrightarrow> \<exists>b d'. run_frames (ack_body en i) fs a d = (Inr (Inr b), d') \<and> accepts d' = []"
proof (induction fs arbitrary: a d)
  case (Cons hp fs)
  obtain h payload where hp: "hp = (h, payload)" by fastforce
  from ack_body_willing [OF Cons.prems, of en i h payload a] Cons.IH show ?case by (fastforce simp: hp and_then_def)
qed simp

lemma drain_loop_silent:
  assumes "incoming p = []" "watchdog p = Some w" "clock p \<le> w" "obliging p" "drain_loop en i q l p = (r, p')"
  shows "(r = Inr () \<or> r = Inl KilledByWatchdog) \<and> incoming p' = [] \<and> obliging p' \<and> frames_of en (inbox p') = []"
  using assms
proof (induction en i q l p rule: drain_loop.induct)
  case (1 en i q l p)
  from run_ack_willing [OF 1(6), of en i "frames_of en (inbox p)" False] obtain b d where
    "run_frames (ack_body en i) (frames_of en (inbox p)) False (desk p) = (Inr (Inr b), d)" and d: "accepts d = []" by blast
  then have sc: "scan_inbox en (ack_body en i) False p = (Inr (Inr b), p\<lparr>inbox := unframed en (inbox p), desk := d\<rparr>)"
    using scan_inbox_run [where en = en and body = "ack_body en i" and a = False and p = p] by simp
  let ?p1 = "p\<lparr>inbox := unframed en (inbox p), desk := d\<rparr>"
  have p1: "incoming ?p1 = []" "watchdog ?p1 = Some w" "clock ?p1 \<le> w" "obliging ?p1" "frames_of en (inbox ?p1) = []"
    using 1(3-5) d unframed_stuck [THEN frames_of_None] by auto
  obtain y p2 where rd: "read_some ?p1 = (y, p2)" by fastforce
  note sr = silent_read [OF p1(1-3) rd]
  note w2 = pull_watched [OF rd [unfolded read_some_def] p1(2,3)]
  show ?case
  proof (cases "q \<le> clock ?p1 - (if b then clock ?p1 else l) \<or> y = Inl KilledByWatchdog")
    case True
    then show ?thesis using 1(7) sc rd sr p1 by (subst (asm) drain_loop.simps) (auto simp: Let_def split: if_splits)
  next
    case False
    then have y: "y = Inr GotWouldBlock" using sr by blast
    then have "drain_loop en i q (if b then clock ?p1 else l) p2 = (r, p')"
      using 1(7) sc rd False by (subst (asm) drain_loop.simps) (auto simp: Let_def)
    with 1(2) [OF sc [symmetric] refl refl refl _ rd [symmetric] y refl] False sr w2 p1 show ?thesis
      by (auto simp: in_time_def)
  qed
qed

lemma both_loop_silent:
  assumes "incoming p = []" "watchdog p = Some w" "clock p \<le> w" "read_timeout p = 0" "frames_of en (inbox p) = []" "clock p < dl"
  shows "fst (both_loop en f g dl seen p) = Inl KilledByWatchdog"
proof -
  have "take_message en (inbox p) = None" using assms(5) by (cases "take_message en (inbox p)") (auto dest: frames_of_Some)
  then have sc: "scan_inbox en (both_body en f g) seen p = (Inr (Inr seen), p)" by (rule scan_inbox_None)
  obtain y p2 where rd: "read_some p = (y, p2)" by fastforce
  have "y = Inl KilledByWatchdog" using silent_read [OF assms(1-3) rd] assms(4) by simp
  then show ?thesis using sc rd assms(6) by (simp add: both_loop.simps [of en f g dl seen p])
qed

lemma dmabuf_silence:
  assumes "incoming p = []" "watchdog p = Some w" "clock p \<le> w" "obliging p"
  shows "fst (dmabuf_after_crash en i p) = Inl KilledByWatchdog"
proof -
  obtain x p1 where dr: "drain_and_ack_configures en 8 1500 p = (x, p1)" by fastforce
  note d = drain_loop_silent [OF assms dr [unfolded drain_and_ack_configures_def]]
  note t = watchedD [OF watched_drain dr assms(2,3)]
  show ?thesis
  proof (cases "x = Inl KilledByWatchdog")
    case True
    then show ?thesis using dr by (simp add: dmabuf_after_crash_def settle_again_def and_then_eq)
  next
    case False
    then have x: "x = Inr ()" using d by blast
    let ?p2 = "p1\<lparr>read_timeout := 0\<rparr>"
    let ?p3 = "logged (reattach_burst en (i + 1) (i + 2)) [] ?p2"
    have ne: "reattach_burst en (i + 1) (i + 2) \<noteq> []" by (simp add: reattach_burst_def attach_burst_def)
    have "fst (both_loop en (i + 1, 0) (i + 2, 0) (clock p1 + 10000) (False, False) ?p3) = Inl KilledByWatchdog"
      using d t by (intro both_loop_silent) (auto simp: in_time_def)
    then show ?thesis using dr x d ne
      by (simp add: dmabuf_after_crash_def settle_again_def and_then_eq set_read_timeout_def reattach_and_wait_def and_then_assoc
          and_then_willing read_until_both_def) (auto simp: and_then_def split: prod.splits sum.splits)
  qed
qed

end
