(* ===== verification/ProbePass.thy ===== *)
theory ProbePass
  imports ProbeReconnect
begin

text \<open>
  What a PASS of the reconnect probes means. A probe that ends with success went through three waits: for the
  callback before the crash, for a callback requested after it, and for the last requests. Each is
  stated between two states of the run: the request goes out in the first, and the messages that the wait takes
  off the stream before the second are no errors and end with the answer.
\<close>

section \<open>A wait that was answered\<close>

text \<open>A callback is requested and its answer awaited.\<close>

definition settled_by :: "endianness \<Rightarrow> u32 \<Rightarrow> probe \<Rightarrow> probe \<Rightarrow> bool" where
  "settled_by en sync_id p p' \<longleftrightarrow> (\<exists>p1 fs. send_all (sync_message en sync_id) p = (Inr (), p1) \<and>
     heard en p1 p' fs \<and> answered sync_id 0 fs)"

text \<open>A callback is requested, and given up after messages that were neither its answer nor an error.\<close>

definition given_up_on :: "endianness \<Rightarrow> u32 \<Rightarrow> probe \<Rightarrow> probe \<Rightarrow> bool" where
  "given_up_on en sync_id p p' \<longleftrightarrow> (\<exists>p1 fs. send_all (sync_message en sync_id) p = (Inr (), p1) \<and>
     heard en p1 p' fs \<and> undecided sync_id 0 fs)"

text \<open>Callbacks with consecutive ids, up to the one that is answered.\<close>

inductive asked_until_answered :: "endianness \<Rightarrow> u32 \<Rightarrow> probe \<Rightarrow> u32 \<Rightarrow> probe \<Rightarrow> bool" for en where
  answered_now: "settled_by en i p p' \<Longrightarrow> asked_until_answered en i p i p'"
| asked_again: "given_up_on en i p p1 \<Longrightarrow> asked_until_answered en (i + 1) p1 k p' \<Longrightarrow> asked_until_answered en i p k p'"

text \<open>The surface is attached again, and both its frame callback and a further sync are answered.\<close>

definition shown_again :: "endianness \<Rightarrow> u32 \<Rightarrow> probe \<Rightarrow> probe \<Rightarrow> bool" where
  "shown_again en k p p' \<longleftrightarrow> (\<exists>p1 fs. send_all (reattach_burst en (k + 1) (k + 2)) p = (Inr (), p1) \<and>
     heard en p1 p' fs \<and> both_answered (k + 1, 0) (k + 2, 0) fs)"

lemma send_all_hears: "send_all msg p = (r, p') \<Longrightarrow> one_ending p \<Longrightarrow> one_ending p' \<and> r \<noteq> Inl ExitSuccess"
  using tracesD [OF hears_steps(4)] by fastforce

lemma sync_and_wait_settles:
  assumes "sync_and_wait en i p = (r, p')" "one_ending p"
  shows "one_ending p' \<and> r \<noteq> Inl ExitSuccess \<and> (r = Inr Matched \<longrightarrow> settled_by en i p p')"
proof -
  obtain x p1 where s: "send_all (sync_message en i) p = (x, p1)" by fastforce
  note o = send_all_hears [OF s assms(2)]
  show ?thesis
  proof (cases x)
    case (Inl e)
    then show ?thesis using assms(1) s o by (auto simp: sync_and_wait_def and_then_eq)
  next
    case (Inr u)
    then have "read_until en i 0 p1 = (r, p')" using assms(1) s by (simp add: sync_and_wait_def and_then_eq)
    from read_until_heard [OF this] o s Inr show ?thesis unfolding settled_by_def by fastforce
  qed
qed

lemma retry_sync_answered:
  assumes "retry_sync en i p = (r, p')" "one_ending p"
  shows "one_ending p' \<and> r \<noteq> Inl ExitSuccess \<and> (\<forall>k. r = Inr k \<longrightarrow> asked_until_answered en i p k p')"
  using assms
proof (induction en i p rule: retry_sync.induct)
  case (1 en i p)
  obtain x p1 where s: "send_all (sync_message en i) p = (x, p1)" by fastforce
  note o = send_all_hears [OF s 1(3)]
  obtain y p2 where rd: "read_until en i 0 p1 = (y, p2)" by fastforce
  from read_until_heard [OF rd] o obtain fs where h: "one_ending p2" "heard en p1 p2 fs" "y \<noteq> Inl ExitSuccess"
    "y = Inr Matched \<longrightarrow> answered i 0 fs" "y = Inr WaitTimedOut \<longrightarrow> undecided i 0 fs" by blast
  show ?case
  proof (cases "x = Inr () \<and> y = Inr WaitTimedOut \<and> \<not> (incoming p2 = [] \<and> accepts (desk p2) = [] \<and> watchdog p2 = None)")
    case True
    then have "retry_sync en (i + 1) p2 = (r, p')" using 1(2) s rd by (subst (asm) retry_sync.simps) auto
    with 1(1) [OF s [symmetric] _ rd [symmetric], of "()" WaitTimedOut] True h(1)
    have "one_ending p'" "r \<noteq> Inl ExitSuccess" "\<forall>k. r = Inr k \<longrightarrow> asked_until_answered en (i + 1) p2 k p'" by auto
    moreover have "given_up_on en i p p2" using True s h unfolding given_up_on_def by blast
    ultimately show ?thesis using asked_again by blast
  next
    case False
    then have "(p' = p1 \<and> (\<forall>k. r \<noteq> Inr k) \<and> r \<noteq> Inl ExitSuccess) \<or>
      (p' = p2 \<and> r \<noteq> Inl ExitSuccess \<and> (\<forall>k. r = Inr k \<longrightarrow> k = i \<and> x = Inr () \<and> y = Inr Matched))"
      using 1(2) s rd o h(3) by (subst (asm) retry_sync.simps) (auto split: sum.splits wait_result.splits if_splits)
    moreover have "settled_by en i p p2" if "x = Inr ()" "y = Inr Matched"
      using that s h unfolding settled_by_def by blast
    ultimately show ?thesis using o h(1) answered_now by blast
  qed
qed

lemma reattach_shows:
  assumes "reattach_and_wait en k p = (r, p')" "one_ending p"
  shows "one_ending p' \<and> r \<noteq> Inl ExitSuccess \<and> (r = Inr Matched \<longrightarrow> shown_again en k p p')"
proof -
  obtain x p1 where s: "send_all (reattach_burst en (k + 1) (k + 2)) p = (x, p1)" by fastforce
  note o = send_all_hears [OF s assms(2)]
  show ?thesis
  proof (cases x)
    case (Inl e)
    then show ?thesis using assms(1) s o by (auto simp: reattach_and_wait_def and_then_eq)
  next
    case (Inr u)
    then have "read_until_both en (k + 1, 0) (k + 2, 0) (clock p1 + 10000) p1 = (r, p')"
      using assms(1) s by (simp add: reattach_and_wait_def and_then_eq)
    from tracesD [OF hears_read_both this] o s Inr show ?thesis unfolding shown_again_def by fastforce
  qed
qed

section \<open>The other steps\<close>

lemma gives_up_three: "\<not> gives_up (three_collect_body en names) e"
  by (auto simp: gives_up_def three_collect_body_def split: prod.split)

lemma hears_plain [hear_rules]:
  "hears en (create_temp_dir os) no_trail" "hears en (expect_global n found) no_trail"
  "hears en (create_pool en' os shm pool n' bytes) no_trail" "hears en (create_buffer en' pool b wd h st) no_trail"
  "hears en (destroy_buffer_and_pool en' b pool) no_trail" "hears en (attach_and_commit en' b wd h) no_trail"
  "hears en (crash_compositor os) no_trail" "hears en (allocate_dmabuf gw) no_trail" "hears en (create_dmabuf_buffer en' gw alloc) no_trail"
  unfolding create_temp_dir_def expect_global_def create_pool_def backing_file_def create_buffer_def
    destroy_buffer_and_pool_def attach_and_commit_def crash_compositor_def allocate_dmabuf_def create_dmabuf_buffer_def
  by (auto intro!: hearing.quiet hears_steps split: option.split prod.split)

text \<open>A phase that never ends the probe with success.\<close>

abbreviation goes_on :: "(probe_end + 'a) \<Rightarrow> frame list \<Rightarrow> bool" where
  "goes_on \<equiv> \<lambda>r fs. r \<noteq> Inl ExitSuccess"

lemma hears_crash [hear_rules]: "hears en (crash_and_watch os ms t) goes_on"
proof -
  have t: "hears en (case t of None \<Rightarrow> go () | Some ms \<Rightarrow> set_read_timeout (Some ms)) no_trail"
    by (rule hears_silent) (auto simp: set_read_timeout_def split: option.splits if_splits)
  show ?thesis unfolding crash_and_watch_def
    by (rule traces_mono, (rule t hear_rules)+) (auto simp: in_turn_def)
qed

lemma hears_read_shm [hear_rules]:
  "closed \<noteq> ExitSuccess \<Longrightarrow> failed \<noteq> ExitSuccess \<Longrightarrow> hears en (read_loop en k (shm_collect_body en) closed failed a) goes_on"
  "closed \<noteq> ExitSuccess \<Longrightarrow> failed \<noteq> ExitSuccess \<Longrightarrow> hears en (read_loop en k (three_collect_body en names) closed failed b) goes_on"
  by (intro hears_read_loop; simp add: gives_up_shm gives_up_three)+

lemma hears_window [hear_rules]:
  "hears en (collect_three en names) goes_on" "hears en (map_window en names gs) goes_on"
  unfolding collect_three_def map_window_def
  by (cases names, simp, rule traces_mono, (rule hear_rules | (simp; fail))+, auto simp: in_turn_def)+

lemma hears_between_waits [hear_rules]:
  "hears en (resize_setup en os) goes_on" "hears en (window_setup en os) goes_on" "hears en (dmabuf_setup en g) goes_on"
  "hears en (resize_second_buffer en os) goes_on" "hears en (window_second_buffer en os) goes_on" "hears en (settle_again en) goes_on"
  unfolding resize_setup_def window_setup_def dmabuf_setup_def resize_second_buffer_def window_second_buffer_def settle_again_def
  by (rule traces_mono, (rule hear_rules | (simp; fail))+, auto simp: in_turn_def)+

section \<open>A probe that passes\<close>

text \<open>A successful end is that of the last phase.\<close>

lemma and_then_success:
  assumes "and_then m f p = (Inl ExitSuccess, p')" "\<And>r p1. m p = (r, p1) \<Longrightarrow> one_ending p1 \<and> r \<noteq> Inl ExitSuccess"
  obtains a p1 where "m p = (Inr a, p1)" "one_ending p1" "f a p1 = (Inl ExitSuccess, p')"
proof -
  obtain r p1 where m: "m p = (r, p1)" by fastforce
  with assms obtain a where "r = Inr a" by (cases r) (auto simp: and_then_eq)
  then show thesis using m assms that by (auto simp: and_then_eq)
qed

lemma hears_goes_on: "hears en m goes_on \<Longrightarrow> one_ending p \<Longrightarrow> m p = (r, p1) \<Longrightarrow> one_ending p1 \<and> r \<noteq> Inl ExitSuccess"
  using tracesD by fastforce

lemma hears_display: "hears en (open_display d os) goes_on"
  using hears_steps(3) by (rule traces_mono) simp

lemma handshake_settled:
  assumes "and_then (sync_and_wait en i) k p = (r, p')" "one_ending p" "k = await_matched \<or> k = await_matched_brief"
  shows "one_ending p' \<and> r \<noteq> Inl ExitSuccess \<and> (\<forall>u. r = Inr u \<longrightarrow> settled_by en i p p')"
proof -
  obtain w p1 where s: "sync_and_wait en i p = (w, p1)" by fastforce
  from sync_and_wait_settles [OF s assms(2)] show ?thesis
    using assms(1,3) s
    by (cases w) (auto simp: and_then_eq await_matched_def await_matched_brief_def split: wait_result.splits if_splits)
qed

lemma report_success: "report_result w p = (Inl ExitSuccess, p') \<Longrightarrow> w = Matched \<and> p' = p"
  by (auto simp: report_result_def split: wait_result.splits)

text \<open>The plan of the three programs: a setup, the handshake, the crash, a callback after it, and a finish.\<close>

lemma passed:
  assumes "and_then (open_display dd os) (\<lambda>_. and_then (and_then setup (\<lambda>_. and_then (sync_and_wait en i) k)) (\<lambda>_.
      and_then (crash_and_reconnect en os ms t j) finish)) p = (Inl ExitSuccess, p')"
    and "one_ending p" "hears en setup goes_on" "k = await_matched \<or> k = await_matched_brief"
  obtains a0 a1 b0 b1 c where "and_then (open_display dd os) (\<lambda>_. setup) p = (Inr (), a0)" "settled_by en i a0 a1"
    "crash_and_watch os ms t a1 = (Inr (), b0)" "asked_until_answered en j b0 c b1" "one_ending b1"
    "finish c b1 = (Inl ExitSuccess, p')"
proof -
  from and_then_success [OF assms(1) hears_goes_on [OF hears_display assms(2)]] obtain u p0 where
    d: "open_display dd os p = (Inr u, p0)" "one_ending p0"
      "and_then (and_then setup (\<lambda>_. and_then (sync_and_wait en i) k)) (\<lambda>_. and_then (crash_and_reconnect en os ms t j) finish) p0
        = (Inl ExitSuccess, p')" .
  from and_then_success [OF d(3) [unfolded and_then_assoc] hears_goes_on [OF assms(3) d(2)]] obtain v a0 where
    s: "setup p0 = (Inr v, a0)" "one_ending a0" "and_then (and_then (sync_and_wait en i) k) (\<lambda>_. and_then (crash_and_reconnect en os ms t j) finish) a0
        = (Inl ExitSuccess, p')" unfolding and_then_assoc .
  have "one_ending p1 \<and> r \<noteq> Inl ExitSuccess" if "and_then (sync_and_wait en i) k a0 = (r, p1)" for r p1
    using handshake_settled [OF that s(2) assms(4)] by simp
  from and_then_success [OF s(3) this] obtain w a1 where
    h: "and_then (sync_and_wait en i) k a0 = (Inr w, a1)" "one_ending a1" "and_then (crash_and_reconnect en os ms t j) finish a1 = (Inl ExitSuccess, p')" .
  from and_then_success [OF h(3) [unfolded crash_and_reconnect_def and_then_assoc] hears_goes_on [OF hears_crash h(2)]] obtain x b0 where
    c: "crash_and_watch os ms t a1 = (Inr x, b0)" "one_ending b0" "and_then (retry_sync en j) finish b0 = (Inl ExitSuccess, p')" .
  have "one_ending p1 \<and> r \<noteq> Inl ExitSuccess" if "retry_sync en j b0 = (r, p1)" for r p1
    using retry_sync_answered [OF that c(2)] by simp
  from and_then_success [OF c(3) this] obtain y b1 where
    r: "retry_sync en j b0 = (Inr y, b1)" "one_ending b1" "finish y b1 = (Inl ExitSuccess, p')" .
  show thesis
  proof (rule that)
    show "and_then (open_display dd os) (\<lambda>_. setup) p = (Inr (), a0)" using d(1) s(1) by (simp add: and_then_eq)
    show "settled_by en i a0 a1" using handshake_settled [OF h(1) s(2) assms(4)] by blast
    show "crash_and_watch os ms t a1 = (Inr (), b0)" using c(1) by simp
    show "asked_until_answered en j b0 y b1" using retry_sync_answered [OF r(1) c(2)] by blast
  qed (use r in simp_all)
qed

lemma finished:
  assumes "and_then second (\<lambda>_. and_then wait report_result) b1 = (Inl ExitSuccess, p')" "one_ending b1" "hears en second goes_on"
    and "\<And>p r p1. wait p = (r, p1) \<Longrightarrow> one_ending p \<Longrightarrow> one_ending p1 \<and> r \<noteq> Inl ExitSuccess \<and> (r = Inr Matched \<longrightarrow> S p p1)"
  obtains c0 where "second b1 = (Inr (), c0)" "S c0 p'"
proof -
  from and_then_success [OF assms(1) hears_goes_on [OF assms(3,2)]] obtain u c0 where
    s: "second b1 = (Inr u, c0)" "one_ending c0" "and_then wait report_result c0 = (Inl ExitSuccess, p')" .
  have "one_ending p1 \<and> r \<noteq> Inl ExitSuccess" if "wait c0 = (r, p1)" for r p1
    using assms(4) [OF that s(2)] by simp
  from and_then_success [OF s(3) this] obtain w c1 where w: "wait c0 = (Inr w, c1)" "report_result w c1 = (Inl ExitSuccess, p')" .
  with report_success have "w = Matched" "p' = c1" by blast+
  then show thesis using that s(1) w(1) assms(4) [OF w(1) s(2)] by (cases u) auto
qed

text \<open>The states that a probe which passed went through, one per wait.\<close>

definition earned :: "endianness \<Rightarrow> unit probing \<Rightarrow> u32 \<Rightarrow> unit probing \<Rightarrow> u32 \<Rightarrow> unit probing
    \<Rightarrow> (u32 \<Rightarrow> probe \<Rightarrow> probe \<Rightarrow> bool) \<Rightarrow> probe \<Rightarrow> probe \<Rightarrow> bool" where
  "earned en setup first_id crash next_id second final p p' \<longleftrightarrow>
    (\<exists>a0 a1 b0 k b1 c0. setup p = (Inr (), a0) \<and> settled_by en first_id a0 a1 \<and>
       crash a1 = (Inr (), b0) \<and> asked_until_answered en next_id b0 k b1 \<and>
       second b1 = (Inr (), c0) \<and> final k c0 p')"

lemma probes_earn:
  assumes "one_ending p"
  shows "probe_reconnect_resize en os p = (Inl ExitSuccess, p') \<Longrightarrow>
      earned en (and_then (open_display ''wayland-0'' os) (\<lambda>_. resize_setup en os)) 7 (crash_and_watch os 20000 (Some 400)) 8
        (resize_second_buffer en os) (\<lambda>_. settled_by en 11) p p'"
    and "probe_reconnect_resize_with_surface en os p = (Inl ExitSuccess, p') \<Longrightarrow>
      earned en (and_then (open_display ''wayland-0'' os) (\<lambda>_. window_setup en os)) 12 (crash_and_watch os 25000 None) 13
        (window_second_buffer en os) (\<lambda>_. settled_by en 16) p p'"
    and "probe_dmabuf_reconnect en os g p = (Inl ExitSuccess, p') \<Longrightarrow>
      earned en (and_then (open_display ''wayland-0'' os) (\<lambda>_. dmabuf_setup en g)) 12 (crash_and_watch os 30000 None) 13
        (settle_again en) (shown_again en) p p'"
proof -
  {
    assume pass: "probe_reconnect_resize en os p = (Inl ExitSuccess, p')"
    obtain a0 a1 b0 b1 c where x: "and_then (open_display ''wayland-0'' os) (\<lambda>_. resize_setup en os) p = (Inr (), a0)"
      "settled_by en 7 a0 a1" "crash_and_watch os 20000 (Some 400) a1 = (Inr (), b0)" "asked_until_answered en 8 b0 c b1"
      "one_ending b1" "resize_after_crash en os b1 = (Inl ExitSuccess, p')"
      by (rule passed [OF pass [unfolded probe_reconnect_resize_def resize_before_crash_def] assms hears_between_waits(1)]) simp_all
    from finished [OF x(6) [unfolded resize_after_crash_def] x(5) hears_between_waits(4) sync_and_wait_settles] obtain c0 where
      "resize_second_buffer en os b1 = (Inr (), c0)" "settled_by en 11 c0 p'" .
    with x show "earned en (and_then (open_display ''wayland-0'' os) (\<lambda>_. resize_setup en os)) 7 (crash_and_watch os 20000 (Some 400)) 8
        (resize_second_buffer en os) (\<lambda>_. settled_by en 11) p p'" unfolding earned_def by blast
  }
  {
    assume pass: "probe_reconnect_resize_with_surface en os p = (Inl ExitSuccess, p')"
    obtain a0 a1 b0 b1 c where x: "and_then (open_display ''wayland-0'' os) (\<lambda>_. window_setup en os) p = (Inr (), a0)"
      "settled_by en 12 a0 a1" "crash_and_watch os 25000 None a1 = (Inr (), b0)" "asked_until_answered en 13 b0 c b1"
      "one_ending b1" "window_after_crash en os b1 = (Inl ExitSuccess, p')"
      by (rule passed [OF pass [unfolded probe_reconnect_resize_with_surface_def window_before_crash_def] assms hears_between_waits(2)]) simp_all
    from finished [OF x(6) [unfolded window_after_crash_def] x(5) hears_between_waits(5) sync_and_wait_settles] obtain c0 where
      "window_second_buffer en os b1 = (Inr (), c0)" "settled_by en 16 c0 p'" .
    with x show "earned en (and_then (open_display ''wayland-0'' os) (\<lambda>_. window_setup en os)) 12 (crash_and_watch os 25000 None) 13
        (window_second_buffer en os) (\<lambda>_. settled_by en 16) p p'" unfolding earned_def by blast
  }
  {
    assume pass: "probe_dmabuf_reconnect en os g p = (Inl ExitSuccess, p')"
    obtain a0 a1 b0 b1 c where x: "and_then (open_display ''wayland-0'' os) (\<lambda>_. dmabuf_setup en g) p = (Inr (), a0)"
      "settled_by en 12 a0 a1" "crash_and_watch os 30000 None a1 = (Inr (), b0)" "asked_until_answered en 13 b0 c b1"
      "one_ending b1" "dmabuf_after_crash en c b1 = (Inl ExitSuccess, p')"
      by (rule passed [OF pass [unfolded probe_dmabuf_reconnect_def dmabuf_before_crash_def] assms hears_between_waits(3)]) simp_all
    from finished [OF x(6) [unfolded dmabuf_after_crash_def] x(5) hears_between_waits(6) reattach_shows] obtain c0 where
      "settle_again en b1 = (Inr (), c0)" "shown_again en c c0 p'" .
    with x show "earned en (and_then (open_display ''wayland-0'' os) (\<lambda>_. dmabuf_setup en g)) 12 (crash_and_watch os 30000 None) 13
        (settle_again en) (shown_again en) p p'" unfolding earned_def by blast
  }
qed

end
