(* ===== verification/ProbeRetry.thy ===== *)
theory ProbeRetry
  imports ProbeReconnect
begin

text \<open>
  What \<open>probe_reconnect_resize\<close> writes after the crash. Each retry asks for a callback under the next id, and
  the rest of the program uses the fixed ids 9, 10 and 11: one retry is enough for an id to be
  requested twice, and then the wait at the end cannot tell whose answer it has seen.
\<close>

lemma read_until_desk: "read_until en s oc p = (r, p') \<Longrightarrow> desk p' = desk p \<and> r \<noteq> Inl ExitSuccess"
proof (induction en s oc p rule: read_until.induct)
  case (1 en s oc p)
  obtain x p1 where sc: "scan_inbox en (wait_body en s oc) () p = (x, p1)" by fastforce
  note d1 = scan_inbox_looks [OF looks_wait sc]
  obtain y p2 where rd: "read_some p1 = (y, p2)" by fastforce
  note d2 = pull_desk [OF rd [unfolded read_some_def]]
  have e: "\<forall>e. x \<noteq> Inl e" "y \<noteq> Inl ExitSuccess"
    using scan_inbox_gives_up [OF sc [THEN trans]] scan_wait_body [OF sc] pull_gives_up [of False p1 _ p2] rd
    by (auto simp: read_some_def)
  show ?case
  proof (cases "x = Inr (Inr ()) \<and> y = Inr GotData")
    case True
    then have "read_until en s oc p2 = (r, p')" using 1(2) sc rd by (subst (asm) read_until.simps) simp
    with 1(1) [OF sc [symmetric] _ refl rd [symmetric], of "()" GotData] True d1 d2 show ?thesis by simp
  next
    case False
    then show ?thesis using 1(2) sc rd d1 d2 e
      by (subst (asm) read_until.simps) (auto split: sum.splits pulled.splits)
  qed
qed

lemma writes_read_until [write_rules]: "writes (read_until en s oc) no_trail"
  by (rule outgoing.silent) (use read_until_desk in \<open>fastforce simp: wrote_def\<close>)

text \<open>The callbacks asked for by a first try and \<open>n\<close> retries.\<close>

definition tried :: "endianness \<Rightarrow> u32 \<Rightarrow> nat \<Rightarrow> send_log" where
  "tried en first_id n = map (\<lambda>j. (sync_message en (first_id + word_of_nat j), [])) [0..<Suc n]"

lemma tried_Suc: "tried en i (Suc n) = (sync_message en i, []) # tried en (i + 1) n"
  by (simp add: tried_def upt_conv_Cons map_Suc_upt [symmetric] add.assoc comp_def del: upt_Suc map_Suc_upt)

lemma tried_0: "tried en i 0 = [(sync_message en i, [])]"
  by (simp add: tried_def)

lemma retry_sync_wrote:
  assumes "retry_sync en i p = (r, p')" "obliging p"
  shows "obliging p' \<and> (\<exists>n. wrote p p' (tried en i n) \<and> r \<noteq> Inl ExitSuccess \<and> (\<forall>k. r = Inr k \<longrightarrow> k = i + word_of_nat n))"
  using assms
proof (induction en i p rule: retry_sync.induct)
  case (1 en i p)
  let ?p1 = "logged (sync_message en i) [] p"
  have s: "send_all (sync_message en i) p = (Inr (), ?p1)" using 1(3) by (simp add: send_all_willing)
  obtain y p2 where rd: "read_until en i 0 ?p1 = (y, p2)" by fastforce
  have d: "desk p2 = desk ?p1" "y \<noteq> Inl ExitSuccess" using read_until_desk [OF rd] by auto
  then have w: "wrote p p2 (tried en i 0)" "obliging p2" using 1(3) by (simp_all add: wrote_def tried_0 send_cmsgs_def)
  show ?case
  proof (cases "y = Inr WaitTimedOut \<and> \<not> (incoming p2 = [] \<and> accepts (desk p2) = [] \<and> watchdog p2 = None)")
    case True
    then have "retry_sync en (i + 1) p2 = (r, p')" using 1(2) s rd by (subst (asm) retry_sync.simps) auto
    with 1(1) [OF s [symmetric] _ rd [symmetric], of "()" WaitTimedOut] True w(2) obtain n where
      n: "obliging p'" "wrote p2 p' (tried en (i + 1) n)" "r \<noteq> Inl ExitSuccess" "\<forall>k. r = Inr k \<longrightarrow> k = i + 1 + word_of_nat n"
      by auto
    have "wrote p p' (tried en i (Suc n))" using outgoing.join [OF w(1) n(2)] by (simp add: tried_Suc tried_0)
    then show ?thesis using n by (intro conjI exI [of _ "Suc n"]) (auto simp: add.assoc)
  next
    case False
    then have "p' = p2 \<and> r \<noteq> Inl ExitSuccess \<and> (\<forall>k. r = Inr k \<longrightarrow> k = i)"
      using 1(2) s rd d(2) by (subst (asm) retry_sync.simps) (auto split: sum.splits wait_result.splits if_splits)
    then show ?thesis using w by (intro conjI exI [of _ 0]) auto
  qed
qed

lemma writes_retry [write_rules]:
  "writes (retry_sync en i) (\<lambda>r ext. r \<noteq> Inl ExitSuccess \<and> (\<exists>n. ext = tried en i n \<and> (\<forall>k. r = Inr k \<longrightarrow> k = i + word_of_nat n)))"
  unfolding traces_def by (intro allI impI, elim conjE, drule (1) retry_sync_wrote) blast

lemma writes_crash [write_rules]: "writes (crash_compositor os) no_trail"
  by (rule outgoing.silent) (auto simp: wrote_def crash_compositor_def split: if_splits)

lemma writes_report [write_rules]: "writes (report_result w) (\<lambda>r ext. ext = [])"
  by (auto simp: traces_def wrote_def report_result_def split: wait_result.splits)

text \<open>Everything that goes out from the crash to a verdict: some tries, then the burst.\<close>

definition second_buffer :: "endianness \<Rightarrow> fd \<Rightarrow> send_log" where
  "second_buffer en f =
    [(build_message en 6 0 [], []), (build_message en 5 1 [], []),
     (build_message en 4 0 (u32s en [9, 1056096]), [ScmRights [f]]),
     (build_message en 9 0 (u32s en [10, 0, 579, 456, 2316, 0]), []),
     (sync_message en 11, [])]"

lemma reconnect_log:
  "writes (and_then (crash_and_reconnect en os 20000 (Some 400) 8) (\<lambda>_. resize_after_crash en os))
    (\<lambda>r ext. r = Inl ExitSuccess \<longrightarrow> (\<exists>n f. os_file os ''pool_b'' 1056096 = Some f \<and> ext = tried en 8 n @ second_buffer en f))"
  unfolding crash_and_reconnect_def crash_and_watch_def resize_after_crash_def resize_second_buffer_def sync_and_wait_def option.case
  by (rule traces_mono, (rule write_rules | (simp; fail))+)
    (auto simp: in_turn_def second_buffer_def send_cmsgs_def; blast)

lemma retried_id_clashes:
  assumes "1 \<le> n"
  shows "(sync_message en 9, []) \<in> set (tried en 8 n)"
proof -
  have "(sync_message en (8 + word_of_nat 1), []) \<in> set (tried en 8 n)" using assms unfolding tried_def set_map by (intro imageI) auto
  then show ?thesis by simp
qed

text \<open>An answer to an abandoned callback 11 that is already in the buffer when the final request goes out.\<close>

lemma stale_answer_passes:
  assumes "obliging p" "os_file os ''pool_b'' 1056096 = Some f" "inbox p = build_message en 11 0 (u32s en [0]) @ rest"
  shows "fst (resize_after_crash en os p) = Inl ExitSuccess"
proof -
  have rd: "fst (read_until en 11 0 q) = Inr Matched" if "inbox q = inbox p" for q
  proof -
    have l: "HEADER_LEN + length (u32s en [0]) < 2 ^ 16" by (simp add: HEADER_LEN_def)
    have v: "verdict en 11 0 (frames_of en (inbox q)) = Some Matched"
      using that assms(3) frames_of_build [OF l] by (simp add: is_display_error_def)
    obtain x p1 where sc: "scan_inbox en (wait_body en 11 0) () q = (x, p1)" by fastforce
    from scan_wait_body [OF sc] have "x = Inr (Inl Matched)" by (simp add: v)
    with sc show ?thesis by (subst read_until.simps) simp
  qed
  have end_ok: "fst (and_then (read_until en 11 0) report_result q) = Inl ExitSuccess" if "inbox q = inbox p" for q
    using rd [OF that] by (cases "read_until en 11 0 q") (simp add: and_then_eq report_result_def)
  show ?thesis
    using assms(1,2) end_ok
    by (simp add: resize_after_crash_def resize_second_buffer_def destroy_buffer_and_pool_def create_pool_def backing_file_def create_buffer_def sync_and_wait_def
        and_then_assoc and_then_eq set_read_timeout_def send_all_willing send_fds_willing)
qed

end
