(* ===== verification/ProbeClipboard.thy ===== *)
theory ProbeClipboard
  imports ProbeBind
begin

text \<open>
  The probes of the clipboard: \<open>examples/probe_clipboard_serial.rs\<close> sets the selection with a made-up
  serial, \<open>examples/probe_clipboard_real_serial.rs\<close> with one taken from a real input event. Both then
  answer \<open>wl_data_source.send\<close>; what they write into a descriptor is logged in \<open>fd_writes\<close>.
\<close>

section \<open>Answering a paste\<close>

definition MIME_TYPE :: string where
  "MIME_TYPE = ''text/plain''"

definition note_report :: "report \<Rightarrow> unit desk_phase" where
  "note_report r = modify (\<lambda>d. d\<lparr>reports := reports d @ [r]\<rparr>)"

definition pop_fd :: "fd option desk_phase" where
  "pop_fd d = (case fd_queue d of [] \<Rightarrow> (Inr None, d) | f # fs \<Rightarrow> (Inr (Some f), d\<lparr>fd_queue := fs\<rparr>))"

text \<open>A write into a descriptor. \<open>write_all\<close> goes on until the descriptor has taken everything or fails,
  and what it took by then stays written. One \<open>sendmsg\<close> does for sockets only (anything else is
  \<open>ENOTSOCK\<close>), and is happy with a part.\<close>

definition taken_of :: "probe_os \<Rightarrow> fd \<Rightarrow> byte list \<Rightarrow> byte list" where
  "taken_of os f bs = (case os_room os f of None \<Rightarrow> bs | Some n \<Rightarrow> take n bs)"

definition fd_takes :: "fd \<Rightarrow> byte list \<Rightarrow> desk \<Rightarrow> desk" where
  "fd_takes f bs d = (if bs = [] then d else d\<lparr>fd_writes := fd_writes d @ [(f, bs)]\<rparr>)"

definition write_fd :: "probe_os \<Rightarrow> fd \<Rightarrow> byte list \<Rightarrow> bool desk_phase" where
  "write_fd os f bs d = (Inr (taken_of os f bs = bs), fd_takes f (taken_of os f bs) d)"

definition sendmsg_fd :: "probe_os \<Rightarrow> fd \<Rightarrow> byte list \<Rightarrow> bool desk_phase" where
  "sendmsg_fd os f bs d =
    (if os_is_socket os f \<and> taken_of os f bs \<noteq> [] then (Inr True, fd_takes f (taken_of os f bs) d) else (Inr False, d))"

text \<open>\<open>answer_data_source_send\<close> of the second probe, and the arm of the first.\<close>

definition REAL_MARKER :: "byte list" where
  "REAL_MARKER = bytes_of ''held by wl-resprox probe_clipboard_real_serial''"

definition answer_data_source_send :: "probe_os \<Rightarrow> unit desk_phase" where
  "answer_data_source_send os =
    and_then pop_fd (\<lambda>popped.
    case popped of
      None \<Rightarrow> note_report NoDescriptor
    | Some f \<Rightarrow> and_then (write_fd os f REAL_MARKER) (\<lambda>ok. note_report (MarkerAnswered f ok)))"

definition MARKER :: "byte list" where
  "MARKER = bytes_of ''held by wl-resprox probe_clipboard_serial''"

definition answer_with_sendmsg :: "probe_os \<Rightarrow> unit desk_phase" where
  "answer_with_sendmsg os =
    and_then pop_fd (\<lambda>popped.
    case popped of
      None \<Rightarrow> note_report NoDescriptor
    | Some f \<Rightarrow> and_then (sendmsg_fd os f MARKER) (\<lambda>ok. note_report (MarkerAnswered f ok)))"

section \<open>A made-up serial\<close>

text \<open>All globals are kept; the first of each interface is used.\<close>

definition serial_collect_body :: "endianness \<Rightarrow> (advertised list, advertised list) message_body" where
  "serial_collect_body en h payload globals =
    (if sender_id h = 2 \<and> opcode h = 0 then
       go (Inr (case announced en payload of
                  None \<Rightarrow> globals
                | Some (name, iface, version) \<Rightarrow>
                    globals @ [\<lparr>adv_name = name, adv_interface = iface, adv_version = version\<rparr>]))
     else if sender_id h = 1 \<and> opcode h = 0 then halt (Panicked (display_error en payload))
     else if sender_id h = 3 \<and> opcode h = 0 then go (Inl globals)
     else go (Inr globals))"

definition find_global :: "string \<Rightarrow> advertised list \<Rightarrow> advertised probing" where
  "find_global iface globals = expect_global iface (find (\<lambda>g. adv_interface g = iface) globals)"

definition bind_sync_body :: "endianness \<Rightarrow> (unit, unit) message_body" where
  "bind_sync_body en h payload _ =
    (if sender_id h = 1 \<and> opcode h = 0 then halt (Panicked (display_error en payload))
     else if sender_id h = 6 \<and> opcode h = 0 then go (Inl ())
     else go (Inr ()))"

text \<open>After \<open>set_selection\<close>: an error of the display ends the program normally, with a report
  (\<^const>\<open>Inl\<close> \<^const>\<open>True\<close>).\<close>

definition set_selection_body :: "endianness \<Rightarrow> (unit, bool) message_body" where
  "set_selection_body en h payload _ =
    (if sender_id h = 1 \<and> opcode h = 0 then
       and_then (note_report (ErrorSeen (decode_error en payload))) (\<lambda>_. go (Inl True))
     else if sender_id h = 9 \<and> opcode h = 0 then go (Inl False)
     else go (Inr ()))"

definition serial_bind_burst :: "endianness \<Rightarrow> advertised \<Rightarrow> advertised \<Rightarrow> byte list" where
  "serial_bind_burst en seat ddm =
    bind_message en (adv_name seat) ''wl_seat'' (adv_version seat) 4 @
    bind_message en (adv_name ddm) ''wl_data_device_manager'' (adv_version ddm) 5 @ sync_message en 6"

definition serial_selection_burst :: "endianness \<Rightarrow> u32 \<Rightarrow> byte list" where
  "serial_selection_burst en serial =
    build_message en 5 0 (u32s en [7]) @
    build_message en 7 0 (put_str en [] MIME_TYPE) @
    build_message en 5 1 (u32s en [8, 4]) @
    build_message en 8 1 (u32s en [7, serial]) @
    sync_message en 9"

definition set_made_up_selection :: "endianness \<Rightarrow> u32 \<Rightarrow> bool probing" where
  "set_made_up_selection en serial =
    and_then (send_all (registry_burst en)) (\<lambda>_.
    and_then (read_loop en True (serial_collect_body en) (Panicked ConnectionClosed) (Panicked ConnectionClosed) []) (\<lambda>globals.
    and_then (find_global ''wl_seat'' globals) (\<lambda>seat.
    and_then (find_global ''wl_data_device_manager'' globals) (\<lambda>ddm.
    and_then (send_all (serial_bind_burst en seat ddm)) (\<lambda>_.
    and_then (read_loop en True (bind_sync_body en) (Panicked ConnectionClosed) (Panicked ConnectionClosed) ()) (\<lambda>_.
    and_then (send_all (serial_selection_burst en serial)) (\<lambda>_.
    read_loop en True (set_selection_body en) (Panicked ConnectionClosed) (Panicked ConnectionClosed) ())))))))"

text \<open>The answer loop: each read waits at most half a second, and never past the deadline.\<close>

definition answer_body :: "endianness \<Rightarrow> probe_os \<Rightarrow> (unit, unit) message_body" where
  "answer_body en os h payload _ =
    (if sender_id h = 1 \<and> opcode h = 0 then
       and_then (note_report (ErrorSeen (decode_error en payload))) (\<lambda>_. go (Inr ()))
     else if sender_id h = 7 \<and> opcode h = 1 then and_then (answer_with_sendmsg os) (\<lambda>_. go (Inr ()))
     else go (Inr ()))"

function answer_loop :: "endianness \<Rightarrow> probe_os \<Rightarrow> nat \<Rightarrow> unit probing" where
  "answer_loop en os deadline p =
    (if deadline \<le> clock p then (Inr (), p)
     else
       (case set_read_timeout (Some (min (deadline - clock p) 500)) p of
          (Inl e, p0) \<Rightarrow> (Inl e, p0)
        | (Inr _, p0) \<Rightarrow>
           (case pump_once p0 of
              (Inl e, p1) \<Rightarrow> (Inl e, p1)
            | (Inr GotWouldBlock, p1) \<Rightarrow> answer_loop en os deadline p1
            | (Inr GotData, p1) \<Rightarrow>
               (case scan_inbox en (answer_body en os) () p1 of
                  (Inl e, p2) \<Rightarrow> (Inl e, p2)
                | (Inr _, p2) \<Rightarrow> answer_loop en os deadline p2)
            | (Inr _, p1) \<Rightarrow> (Inr (), p1))))"
  by pat_completeness auto
termination
proof (relation "measures [\<lambda>(en, os, dl, p). length (incoming p), \<lambda>(en, os, dl, p). dl - clock p]", goal_cases)
  case (2 en os dl p x p0 u y p1 g)
  then have "pull True p0 = (Inr GotWouldBlock, p1) \<or> pull True p0 = (Inr GotData, p1)"
    and "incoming p0 = incoming p" "clock p0 = clock p"
    by (auto simp: pump_once_def set_read_timeout_def split: if_splits)
  then show ?case using 2 pull_cases(1) [of True p0 _ p1] by (fastforce dest!: scan_inbox_keeps [OF sym])
next
  case (3 en os dl p x p0 u y p1 g)
  then have "pull True p0 = (Inr GotWouldBlock, p1) \<or> pull True p0 = (Inr GotData, p1)"
    and "incoming p0 = incoming p" "clock p0 = clock p"
    by (auto simp: pump_once_def set_read_timeout_def split: if_splits)
  then show ?case using 3 pull_cases(1) [of True p0 _ p1] by (fastforce dest!: scan_inbox_keeps [OF sym])
qed simp

declare answer_loop.simps [simp del]

text \<open>An optional number on the command line.\<close>

definition argument_or :: "nat \<Rightarrow> nat \<Rightarrow> string list \<Rightarrow> nat \<Rightarrow> nat" where
  "argument_or bound default_value args i =
    (if i < length args then (case parse_unsigned bound (args ! i) of None \<Rightarrow> default_value | Some n \<Rightarrow> n)
     else default_value)"

definition probe_clipboard_serial :: "endianness \<Rightarrow> probe_os \<Rightarrow> string list \<Rightarrow> unit probing" where
  "probe_clipboard_serial en os args =
    (let serial = (word_of_nat (argument_or (2 ^ 32) 0 args 0) :: u32);
         wait_secs = argument_or (2 ^ 64) 20 args 1
     in and_then (open_display ''wayland-0'' os) (\<lambda>_.
        and_then (set_made_up_selection en serial) (\<lambda>rejected.
        if rejected then go () else (\<lambda>p. answer_loop en os (clock p + 1000 * wait_secs) p))))"

section \<open>A real serial\<close>

text \<open>The globals of the second probe, each the last announced: compositor, shell, shm, seat, data
  device manager.\<close>

record 'a five =
  g_compositor :: 'a
  g_wm_base :: 'a
  g_shm :: 'a
  g_seat :: 'a
  g_ddm :: 'a

definition keep_global :: "advertised \<Rightarrow> advertised option five \<Rightarrow> advertised option five" where
  "keep_global g found =
    (if adv_interface g = ''wl_compositor'' then found\<lparr>g_compositor := Some g\<rparr>
     else if adv_interface g = ''xdg_wm_base'' then found\<lparr>g_wm_base := Some g\<rparr>
     else if adv_interface g = ''wl_shm'' then found\<lparr>g_shm := Some g\<rparr>
     else if adv_interface g = ''wl_seat'' then found\<lparr>g_seat := Some g\<rparr>
     else if adv_interface g = ''wl_data_device_manager'' then found\<lparr>g_ddm := Some g\<rparr>
     else found)"

definition real_collect_body :: "endianness \<Rightarrow> (advertised option five, advertised option five) message_body" where
  "real_collect_body en h payload found =
    (if sender_id h = 2 \<and> opcode h = 0 then
       go (Inr (case announced en payload of
                  None \<Rightarrow> found
                | Some (name, iface, version) \<Rightarrow>
                    keep_global \<lparr>adv_name = name, adv_interface = iface, adv_version = version\<rparr> found))
     else if sender_id h = 1 \<and> opcode h = 0 then halt (Panicked (display_error en payload))
     else if sender_id h = 3 \<and> opcode h = 0 then go (Inl found)
     else go (Inr found))"

definition expect_five :: "advertised option five \<Rightarrow> advertised five probing" where
  "expect_five found =
    and_then (expect_global ''wl_compositor'' (g_compositor found)) (\<lambda>c.
    and_then (expect_global ''xdg_wm_base'' (g_wm_base found)) (\<lambda>w.
    and_then (expect_global ''wl_shm'' (g_shm found)) (\<lambda>m.
    and_then (expect_global ''wl_seat'' (g_seat found)) (\<lambda>s.
    and_then (expect_global ''wl_data_device_manager'' (g_ddm found)) (\<lambda>d.
    go \<lparr>g_compositor = c, g_wm_base = w, g_shm = m, g_seat = s, g_ddm = d\<rparr>)))))"

definition bind_five :: "endianness \<Rightarrow> advertised five \<Rightarrow> byte list" where
  "bind_five en gs =
    concat (map (\<lambda>(g, new_id). bind_message en (adv_name g) (adv_interface g) (adv_version g) new_id)
      [(g_compositor gs, 4), (g_wm_base gs, 5), (g_shm gs, 6), (g_seat gs, 7), (g_ddm gs, 8)])"

text \<open>Surface 9, xdg surface 10, toplevel 11, pointer 12, keyboard 13, data source 14, data device 15.\<close>

definition real_setup_burst :: "endianness \<Rightarrow> advertised five \<Rightarrow> byte list" where
  "real_setup_burst en gs =
    bind_five en gs @
    build_message en 4 0 (u32s en [9]) @
    build_message en 5 2 (u32s en [10, 9]) @
    build_message en 10 1 (u32s en [11]) @
    build_message en 11 2 (put_str en [] ''clipboard-probe'') @
    build_message en 7 0 (u32s en [12]) @
    build_message en 7 1 (u32s en [13]) @
    build_message en 8 0 (u32s en [14]) @
    build_message en 14 0 (put_str en [] MIME_TYPE) @
    build_message en 8 1 (u32s en [15, 7]) @
    build_message en 9 6 []"

definition collect_and_set_up :: "endianness \<Rightarrow> unit probing" where
  "collect_and_set_up en =
    and_then (send_all (registry_burst en)) (\<lambda>_.
    and_then (read_loop en True (real_collect_body en) (Panicked ConnectionClosed) (Panicked ReadFailed)
      \<lparr>g_compositor = None, g_wm_base = None, g_shm = None, g_seat = None, g_ddm = None\<rparr>) (\<lambda>found.
    and_then (expect_five found) (\<lambda>gs.
    send_all (real_setup_burst en gs))))"

text \<open>The keymap carries a descriptor, which must not be taken for that of a paste.\<close>

definition drop_keymap_fd :: "message_header \<Rightarrow> unit desk_phase" where
  "drop_keymap_fd h = (if sender_id h = 13 \<and> opcode h = 0 then and_then pop_fd (\<lambda>_. go ()) else go ())"

definition configure_body :: "endianness \<Rightarrow> (bool, bool) message_body" where
  "configure_body en h payload configured =
    and_then (drop_keymap_fd h) (\<lambda>_.
    case (if sender_id h = 10 \<and> opcode h = 0 then read_u32 en payload 0 else None) of
      None \<Rightarrow> go (Inr configured)
    | Some serial \<Rightarrow> and_then (write_all (build_message en 10 4 (u32s en [serial]))) (\<lambda>_. go (Inr True)))"

definition await_configure :: "endianness \<Rightarrow> probe_os \<Rightarrow> unit probing" where
  "await_configure en os =
    and_then (create_temp_dir os) (\<lambda>_.
    and_then (set_read_timeout (Some 300)) (\<lambda>_.
    and_then (\<lambda>p. pump_while en Not (configure_body en) (Some (Panicked ConnectionClosed)) (Some (Panicked ReadFailed))
        (clock p + 5000) False p) (\<lambda>configured.
    if configured then go () else halt (Panicked NoConfigure))))"

text \<open>The fill is best effort: its result is not looked at.\<close>

definition memmap_grey :: "probe_os \<Rightarrow> fd \<Rightarrow> nat \<Rightarrow> unit desk_phase" where
  "memmap_grey os f bytes =
    and_then (write_fd os f (concat (replicate (bytes div 4) [0x80, 0x80, 0x80, 0xff]))) (\<lambda>_. go ())"

definition show_window :: "endianness \<Rightarrow> probe_os \<Rightarrow> unit probing" where
  "show_window en os =
    (let width = 200; height = 150; stride = width * 4; bytes = stride * height in
     and_then (backing_file os ''pool'' bytes) (\<lambda>f.
     and_then (on_desk (memmap_grey os f bytes)) (\<lambda>_.
     and_then (send_fds (build_message en 6 0 (u32s en [16, word_of_nat bytes])) [f]) (\<lambda>_.
     and_then (create_buffer en 16 17 (word_of_nat width) (word_of_nat height) (word_of_nat stride)) (\<lambda>_.
     send_all (build_message en 9 1 (u32s en [17, 0, 0]) @
       build_message en 9 9 (u32s en [0, 0, word_of_nat width, word_of_nat height]) @ build_message en 9 6 []))))))"

definition input_label :: "message_header \<Rightarrow> string option" where
  "input_label h =
    (if sender_id h = 12 \<and> opcode h = 0 then Some ''wl_pointer.enter''
     else if sender_id h = 12 \<and> opcode h = 3 then Some ''wl_pointer.button''
     else if sender_id h = 13 \<and> opcode h = 1 then Some ''wl_keyboard.enter''
     else if sender_id h = 13 \<and> opcode h = 3 then Some ''wl_keyboard.key''
     else None)"

definition capture :: "endianness \<Rightarrow> message_header \<Rightarrow> byte list \<Rightarrow> (string \<times> u32) option" where
  "capture en h payload =
    (case input_label h of
       None \<Rightarrow> None
     | Some label \<Rightarrow> map_option (Pair label) (read_u32 en payload 0))"

definition input_body :: "endianness \<Rightarrow> ((string \<times> u32) option, (string \<times> u32) option) message_body" where
  "input_body en h payload captured =
    and_then (drop_keymap_fd h) (\<lambda>_.
    and_then (if input_label h = None \<and> sender_id h = 1 \<and> opcode h = 0
              then note_report (ErrorSeen (decode_error en payload)) else go ()) (\<lambda>_.
    go (Inr (case capture en h payload of None \<Rightarrow> captured | Some c \<Rightarrow> Some c))))"

definition confirm_body :: "endianness \<Rightarrow> probe_os \<Rightarrow> (bool, bool) message_body" where
  "confirm_body en os h payload rejected =
    (if sender_id h = 1 \<and> opcode h = 0 then
       and_then (note_report (ErrorSeen (decode_error en payload))) (\<lambda>_. go (Inr True))
     else if sender_id h = 14 \<and> opcode h = 2 then and_then (note_report SelectionCancelled) (\<lambda>_. go (Inr True))
     else if sender_id h = 14 \<and> opcode h = 1 then and_then (answer_data_source_send os) (\<lambda>_. go (Inr rejected))
     else if sender_id h = 18 \<and> opcode h = 0 then go (Inl rejected)
     else go (Inr rejected))"

definition hold_body :: "probe_os \<Rightarrow> (unit, unit) message_body" where
  "hold_body os h payload _ =
    (if sender_id h = 14 \<and> opcode h = 1 then and_then (answer_data_source_send os) (\<lambda>_. go (Inr ()))
     else if sender_id h = 14 \<and> opcode h = 2 then and_then (note_report SelectionCancelled) (\<lambda>_. go (Inr ()))
     else go (Inr ()))"

text \<open>The splice: the serial of an input event, borrowed for the selection.\<close>

definition set_real_selection :: "endianness \<Rightarrow> probe_os \<Rightarrow> u32 \<Rightarrow> bool probing" where
  "set_real_selection en os serial =
    and_then (send_all (build_message en 15 1 (u32s en [14, serial]))) (\<lambda>_.
    and_then (send_all (sync_message en 18)) (\<lambda>_.
    and_then (set_read_timeout (Some 30)) (\<lambda>_ p.
    pump_while en (\<lambda>_. True) (confirm_body en os) None None (clock p + 3000) False p)))"

definition hold_selection :: "endianness \<Rightarrow> probe_os \<Rightarrow> unit probing" where
  "hold_selection en os p = pump_while en (\<lambda>_. True) (hold_body os) None None (clock p + 25000) () p"

definition capture_input :: "endianness \<Rightarrow> nat \<Rightarrow> (string \<times> u32) option probing" where
  "capture_input en wait_secs p =
    pump_while en (\<lambda>captured. captured = None) (input_body en) None None (clock p + 1000 * wait_secs) None p"

definition probe_clipboard_real_serial :: "endianness \<Rightarrow> probe_os \<Rightarrow> string list \<Rightarrow> unit probing" where
  "probe_clipboard_real_serial en os args =
    and_then (open_display ''wayland-0'' os) (\<lambda>_.
    and_then (collect_and_set_up en) (\<lambda>_.
    and_then (await_configure en os) (\<lambda>_.
    and_then (show_window en os) (\<lambda>_.
    and_then (capture_input en (argument_or (2 ^ 64) 20 args 0)) (\<lambda>captured.
    case captured of
      None \<Rightarrow> on_desk (note_report NoInputEvent)
    | Some (label, serial) \<Rightarrow>
        and_then (set_real_selection en os serial) (\<lambda>rejected.
        and_then (on_desk (note_report (if rejected then SelectionRejected serial else SelectionAccepted serial))) (\<lambda>_.
        hold_selection en os)))))))"

end
