(* ===== verification/ProbePaste.thy ===== *)
theory ProbePaste
  imports ProbeClipboard
begin

text \<open>
  Facts about the clipboard probes: which descriptors the first one uses and what is written to them, which
  descriptor the second one gives to which paste request, and which serial it borrows.
\<close>

section \<open>Which descriptors are used\<close>

text \<open>The descriptors that the reads are still to deliver, and those the probe has at all.\<close>

fun coming_fds :: "peer_event list \<Rightarrow> fd list" where
  "coming_fds [] = []"
| "coming_fds (PeerSends d bs cs # evs) = (if bs = [] then [] else scm_fds cs) @ coming_fds evs"
| "coming_fds (PeerFails d # evs) = coming_fds evs"

lemma coming_postpone [simp]: "coming_fds (postpone d ev # evs) = coming_fds (ev # evs)"
  by (cases ev) simp_all

text \<open>A use of a descriptor: it is taken off the queue, and possibly written to.\<close>

type_synonym fd_use = "fd \<times> byte list option"

fun written :: "fd_use list \<Rightarrow> (fd \<times> byte list) list" where
  "written [] = []"
| "written ((f, None) # us) = written us"
| "written ((f, Some bs) # us) = (f, bs) # written us"

lemma written_append [simp]: "written (us @ vs) = written us @ written vs"
  by (induction us rule: written.induct) simp_all

definition used_on_desk :: "desk \<Rightarrow> desk \<Rightarrow> fd_use list \<Rightarrow> bool" where
  "used_on_desk d d' us \<longleftrightarrow> fd_queue d = map fst us @ fd_queue d' \<and> fd_writes d' = fd_writes d @ written us"

definition used :: "probe \<Rightarrow> probe \<Rightarrow> fd_use list \<Rightarrow> bool" where
  "used p p' us \<longleftrightarrow> (\<exists>arrived. coming_fds (incoming p) = arrived @ coming_fds (incoming p') \<and>
    fd_queue (desk p) @ arrived = map fst us @ fd_queue (desk p') \<and> fd_writes (desk p') = fd_writes (desk p) @ written us)"

lemma used_join:
  assumes "used p1 p2 us" "used p2 p3 vs"
  shows "used p1 p3 (us @ vs)"
proof -
  from assms obtain a b where a: "coming_fds (incoming p1) = a @ coming_fds (incoming p2)"
      "fd_queue (desk p1) @ a = map fst us @ fd_queue (desk p2)" "fd_writes (desk p2) = fd_writes (desk p1) @ written us"
    and b: "coming_fds (incoming p2) = b @ coming_fds (incoming p3)"
      "fd_queue (desk p2) @ b = map fst vs @ fd_queue (desk p3)" "fd_writes (desk p3) = fd_writes (desk p2) @ written vs"
    unfolding used_def by blast
  have "fd_queue (desk p1) @ a @ b = map fst (us @ vs) @ fd_queue (desk p3)"
    unfolding append_assoc [symmetric] a(2) by (simp add: b(2))
  with a b show ?thesis unfolding used_def by (intro exI [of _ "a @ b"]) simp
qed

lemma used_desk: "used_on_desk (desk p) (desk p') us \<Longrightarrow> incoming p' = incoming p \<Longrightarrow> used p p' us"
  by (auto simp: used_def used_on_desk_def)

interpretation usage: trail "\<lambda>p. True" used
  by unfold_locales (auto simp: used_join, simp add: used_def)

text \<open>All uses of a phase, of a body, are of one kind.\<close>

definition uses :: "(fd_use \<Rightarrow> bool) \<Rightarrow> 'a probing \<Rightarrow> bool" where
  "uses kind m \<longleftrightarrow> traces (\<lambda>p. True) used m (\<lambda>r us. \<forall>u \<in> set us. kind u)"

definition desk_uses :: "(fd_use \<Rightarrow> bool) \<Rightarrow> 'a desk_phase \<Rightarrow> bool" where
  "desk_uses kind m \<longleftrightarrow> (\<forall>d r d'. m d = (r, d') \<longrightarrow> (\<exists>us. used_on_desk d d' us \<and> (\<forall>u \<in> set us. kind u)))"

named_theorems use_rules "which descriptors are used, and for what"

lemma usesD: "uses kind m \<Longrightarrow> m p = (r, p') \<Longrightarrow> \<exists>us. used p p' us \<and> (\<forall>u \<in> set us. kind u)"
  unfolding uses_def by (drule tracesD) auto

lemma usesI: "(\<And>p r p'. m p = (r, p') \<Longrightarrow> \<exists>us. used p p' us \<and> (\<forall>u \<in> set us. kind u)) \<Longrightarrow> uses kind m"
  by (simp add: uses_def traces_def)

lemma uses_and_then [use_rules]: "uses kind m \<Longrightarrow> (\<And>a. uses kind (f a)) \<Longrightarrow> uses kind (and_then m f)"
  unfolding uses_def by (rule traces_mono, rule usage.and_then) (auto simp: in_turn_def)

lemma uses_ends [use_rules]: "uses kind (go a)" "uses kind (halt e)"
  unfolding uses_def by (rule traces_mono, rule usage.go usage.halt, simp)+

lemma uses_if [use_rules]: "uses kind m \<Longrightarrow> uses kind n \<Longrightarrow> uses kind (if b then m else n)"
  by simp

lemma desk_uses_and_then [use_rules]:
  assumes "desk_uses kind m" "\<And>a. desk_uses kind (f a)"
  shows "desk_uses kind (and_then m f)"
  unfolding desk_uses_def
proof (intro allI impI)
  fix d r d' assume e: "and_then m f d = (r, d')"
  obtain x d1 where m: "m d = (x, d1)" by fastforce
  with assms(1) obtain us where 1: "used_on_desk d d1 us" "\<forall>u \<in> set us. kind u" unfolding desk_uses_def by blast
  show "\<exists>us. used_on_desk d d' us \<and> (\<forall>u \<in> set us. kind u)"
  proof (cases x)
    case (Inl y)
    then show ?thesis using e m 1 by (auto simp: and_then_eq)
  next
    case (Inr y)
    then have "f y d1 = (r, d')" using e m by (simp add: and_then_eq)
    with assms(2) obtain vs where "used_on_desk d1 d' vs" "\<forall>u \<in> set vs. kind u" unfolding desk_uses_def by blast
    with 1 show ?thesis by (intro exI [of _ "us @ vs"]) (auto simp: used_on_desk_def)
  qed
qed

lemma desk_uses_none:
  "(\<And>d r d'. m d = (r, d') \<Longrightarrow> fd_queue d' = fd_queue d \<and> fd_writes d' = fd_writes d) \<Longrightarrow> desk_uses kind m"
  unfolding desk_uses_def used_on_desk_def by (metis append.left_neutral append.right_neutral list.simps(8) empty_iff list.set(1) written.simps(1))

lemma desk_uses_steps [use_rules]: "desk_uses kind (go a)" "desk_uses kind (halt e)" "desk_uses kind (note_report r)"
  "desk_uses kind (write_all msg)"
  by (rule desk_uses_none; auto simp: note_report_def modify_def write_all_def split: prod.splits)+

lemma desk_uses_if [use_rules]: "desk_uses kind m \<Longrightarrow> desk_uses kind n \<Longrightarrow> desk_uses kind (if b then m else n)"
  by simp

lemma uses_on_desk [use_rules]: "desk_uses kind m \<Longrightarrow> uses kind (on_desk m)"
  by (rule usesI) (fastforce simp: desk_uses_def on_desk_def split: prod.splits intro: used_desk)

lemma uses_sends [use_rules]: "uses kind (send_all msg)"
  unfolding send_all_def by (intro use_rules)

lemma uses_same: "(\<And>p r p'. m p = (r, p') \<Longrightarrow> desk p' = desk p \<and> incoming p' = incoming p) \<Longrightarrow> uses kind m"
  by (rule usesI) (fastforce simp: used_def intro: exI [of _ "[]"])

lemma uses_quiet [use_rules]: "uses kind (set_read_timeout t)" "uses kind (open_display n os)" "uses kind (expect_global i g)"
  by (rule uses_same; auto simp: set_read_timeout_def open_display_def expect_global_def go_def halt_def split: option.splits if_splits)+

lemma uses_clock: "(\<And>t. uses kind (f t)) \<Longrightarrow> uses kind (\<lambda>p. f (clock p) p)"
  by (rule usesI) (blast dest: usesD)

section \<open>The loops\<close>

definition body_uses :: "(fd_use \<Rightarrow> bool) \<Rightarrow> ('a, 'r) message_body \<Rightarrow> bool" where
  "body_uses kind body \<longleftrightarrow> (\<forall>h payload a. desk_uses kind (body h payload a))"

lemma desk_uses_frames: "body_uses kind body \<Longrightarrow> desk_uses kind (run_frames body fs a)"
proof (induction fs arbitrary: a)
  case Nil
  show ?case unfolding run_frames.simps by (rule use_rules)
next
  case (Cons f fs)
  obtain h payload where f: "f = (h, payload)" by fastforce
  have "desk_uses kind (case x of Inl r \<Rightarrow> go (Inl r) | Inr a' \<Rightarrow> run_frames body fs a')" for x
    using Cons by (cases x) (auto intro: use_rules)
  then show ?case
    unfolding f run_frames.simps using Cons.prems by (intro use_rules) (simp_all add: body_uses_def)
qed

lemma scan_uses:
  assumes "scan_inbox en body a p = (r, p')" "body_uses kind body"
  shows "\<exists>us. used p p' us \<and> (\<forall>u \<in> set us. kind u)"
proof -
  have "\<exists>x. run_frames body (frames_of en (inbox p)) a (desk p) = (x, desk p')"
    using scan_inbox_run [where en = en and body = body and a = a and p = p] assms(1) by (auto split: prod.splits sum.splits)
  with desk_uses_frames [OF assms(2)] scan_inbox_keeps [OF assms(1)] show ?thesis
    unfolding desk_uses_def by (blast intro: used_desk)
qed

lemma pull_uses:
  assumes "pull True p = (r, p')"
  shows "used p p' []"
  using assms unfolding used_def
  by (auto simp: pull_def and_then_def blocking_read_def Let_def recv_with_fds_def
      split: prod.splits sum.splits read_result.splits option.splits if_splits list.splits elim!: delivered.elims)

lemma used_then: "used p1 p2 us \<Longrightarrow> \<forall>u \<in> set us. kind u \<Longrightarrow> \<exists>vs. used p2 p3 vs \<and> (\<forall>u \<in> set vs. kind u) \<Longrightarrow>
    \<exists>us. used p1 p3 us \<and> (\<forall>u \<in> set us. kind u)"
  using used_join by fastforce

lemma uses_read_loop [use_rules]:
  assumes "body_uses kind body"
  shows "uses kind (read_loop en True body closed failed a)"
proof (rule usesI)
  fix p r p' assume "read_loop en True body closed failed a p = (r, p')"
  then show "\<exists>us. used p p' us \<and> (\<forall>u \<in> set us. kind u)"
    using assms
  proof (induction en "True" body closed failed a p rule: read_loop.induct)
    case (1 en body closed failed a p)
    obtain x p1 where pl: "pull True p = (x, p1)" by fastforce
    note u1 = pull_uses [OF pl]
    obtain y p2 where sc: "scan_inbox en body a p1 = (y, p2)" by fastforce
    have u2: "\<exists>us. used p p2 us \<and> (\<forall>u \<in> set us. kind u)"
      using used_then [OF u1 _ scan_uses [OF sc 1(3)]] by simp
    show ?case
    proof (cases "x = Inr GotData \<and> (\<exists>a'. y = Inr (Inr a'))")
      case True
      then obtain a' where y: "x = Inr GotData" "y = Inr (Inr a')" by blast
      then have "read_loop en True body closed failed a' p2 = (r, p')"
        using 1(2) pl sc by (subst (asm) read_loop.simps) simp
      from 1(1) [OF pl [symmetric] y(1) refl sc [symmetric] y(2) refl this 1(3)] u2 used_then show ?thesis by metis
    next
      case False
      then show ?thesis using 1(2) pl sc u1 u2
        by (subst (asm) read_loop.simps) (fastforce split: sum.splits pulled.splits intro: exI [of _ "[]"])
    qed
  qed
qed

lemma uses_answer_loop [use_rules]:
  assumes "\<And>h payload. desk_uses kind (answer_body en os h payload ())"
  shows "uses kind (answer_loop en os deadline)"
proof (rule usesI)
  fix p r p' assume "answer_loop en os deadline p = (r, p')"
  then show "\<exists>us. used p p' us \<and> (\<forall>u \<in> set us. kind u)"
    using assms
  proof (induction en os deadline p rule: answer_loop.induct)
    case (1 en os deadline p)
    have bu: "body_uses kind (answer_body en os)" using 1(4) by (simp add: body_uses_def)
    obtain z p0 where st: "set_read_timeout (Some (min (deadline - clock p) 500)) p = (z, p0)" by fastforce
    obtain x p1 where pl: "pump_once p0 = (x, p1)" by fastforce
    have u0: "used p p0 []" using st by (auto simp: used_def set_read_timeout_def split: if_splits)
    have u1: "used p p1 []" using used_join [OF u0 pull_uses [OF pl [unfolded pump_once_def]]] by simp
    obtain y p2 where sc: "scan_inbox en (answer_body en os) () p1 = (y, p2)" by fastforce
    have u2: "\<exists>us. used p p2 us \<and> (\<forall>u \<in> set us. kind u)"
      using used_then [OF u1 _ scan_uses [OF sc bu]] by simp
    have u: "used p p []" by (simp add: used_def)
    let ?on = "\<not> deadline \<le> clock p \<and> z = Inr ()"
    consider (data) a' where "?on" "x = Inr GotData" "y = Inr a'" | (block) "?on" "x = Inr GotWouldBlock"
      | (out) "\<not> (?on \<and> (x = Inr GotWouldBlock \<or> x = Inr GotData \<and> (\<exists>a'. y = Inr a')))" by blast
    then show ?case
    proof cases
      case data
      then have "answer_loop en os deadline p2 = (r, p')"
        using 1(3) st pl sc by (subst (asm) answer_loop.simps) simp
      with 1(1) [OF _ st [symmetric] _ pl [symmetric] data(2) refl sc [symmetric] data(3)] data(1) 1(4) u2 used_then
      show ?thesis by metis
    next
      case block
      then have "answer_loop en os deadline p1 = (r, p')"
        using 1(3) st pl by (subst (asm) answer_loop.simps) simp
      with 1(2) [OF _ st [symmetric] _ pl [symmetric] block(2) refl] block(1) 1(4) used_then [OF u1] show ?thesis by simp
    next
      case out
      then show ?thesis using 1(3) st pl sc u u0 u1 u2
        by (subst (asm) answer_loop.simps) (fastforce split: sum.splits pulled.splits if_splits intro: exI [of _ "[]"])
    qed
  qed
qed

section \<open>A paste with a made-up serial\<close>

text \<open>What \<open>answer_with_sendmsg\<close> does with the descriptor it takes: the marker reaches a socket, and
  nothing reaches anything else.\<close>

definition sendmsg_use :: "probe_os \<Rightarrow> fd_use \<Rightarrow> bool" where
  "sendmsg_use os u \<longleftrightarrow>
    snd u = (if os_is_socket os (fst u) \<and> taken_of os (fst u) MARKER \<noteq> [] then Some (taken_of os (fst u) MARKER) else None)"

lemma desk_uses_answer [use_rules]: "desk_uses (sendmsg_use os) (answer_with_sendmsg os)"
proof -
  have "\<exists>us. used_on_desk d d' us \<and> (\<forall>u \<in> set us. sendmsg_use os u)" if "answer_with_sendmsg os d = (r, d')" for d r d'
  proof (cases "fd_queue d")
    case Nil
    then show ?thesis using that
      by (intro exI [of _ "[]"])
        (auto simp: answer_with_sendmsg_def and_then_eq pop_fd_def note_report_def modify_def used_on_desk_def)
  next
    case (Cons f fs)
    then show ?thesis using that
      by (cases "os_is_socket os f \<and> taken_of os f MARKER \<noteq> []";
          intro exI [of _ "[(f, if os_is_socket os f \<and> taken_of os f MARKER \<noteq> [] then Some (taken_of os f MARKER) else None)]"])
        (auto simp: answer_with_sendmsg_def and_then_def pop_fd_def note_report_def modify_def used_on_desk_def sendmsg_use_def
          sendmsg_fd_def fd_takes_def)
  qed
  then show ?thesis unfolding desk_uses_def by blast
qed

lemma bodies_use [use_rules]:
  "body_uses kind (serial_collect_body en)" "body_uses kind (bind_sync_body en)" "body_uses kind (set_selection_body en)"
  "desk_uses (sendmsg_use os) (answer_body en os h payload ())"
  by (auto simp: body_uses_def serial_collect_body_def bind_sync_body_def set_selection_body_def
      answer_body_def intro!: use_rules)

lemma uses_answering: "uses (sendmsg_use os) (\<lambda>p. answer_loop en os (clock p + ms) p)"
  by (rule uses_clock, intro use_rules)

lemma serial_uses: "uses (sendmsg_use os) (probe_clipboard_serial en os args)"
  unfolding probe_clipboard_serial_def set_made_up_selection_def find_global_def Let_def
  by (intro use_rules uses_answering)

lemma written_sendmsg:
  "\<forall>u \<in> set us. sendmsg_use os u \<Longrightarrow>
     written us = List.map_filter (\<lambda>f. if os_is_socket os f \<and> taken_of os f MARKER \<noteq> [] then Some (f, taken_of os f MARKER) else None)
       (map fst us)"
  by (induction us rule: written.induct) (auto simp: sendmsg_use_def map_filter_simps split: if_splits)

text \<open>On the pipes that a data source is sent, the first probe writes nothing.\<close>

lemma pipes_get_nothing:
  assumes "probe_clipboard_serial en os args p = (r, p')" "\<And>f. \<not> os_is_socket os f"
  shows "fd_writes (desk p') = fd_writes (desk p)"
proof -
  from usesD [OF serial_uses assms(1)] obtain us where u: "used p p' us" "\<forall>u \<in> set us. sendmsg_use os u" by blast
  have "written us = []" using written_sendmsg [OF u(2)] assms(2) by (simp add: List.map_filter_def)
  with u(1) show ?thesis by (auto simp: used_def)
qed

section \<open>Serving paste requests\<close>

text \<open>What a script still delivers, read by read, and the order in which descriptors and messages come out
  of it: the descriptors of a read are queued before the messages that it completes are looked at.\<close>

fun deliveries :: "peer_event list \<Rightarrow> (byte list \<times> fd list) list" where
  "deliveries [] = []"
| "deliveries (PeerSends d bs cs # evs) = (if bs = [] then [] else [(bs, scm_fds cs)]) @ deliveries evs"
| "deliveries (PeerFails d # evs) = deliveries evs"

lemma deliveries_postpone [simp]: "deliveries (postpone d ev # evs) = deliveries (ev # evs)"
  by (cases ev) simp_all

datatype happening = Came "fd list" | Message "message_header \<times> byte list"

fun happenings :: "endianness \<Rightarrow> byte list \<Rightarrow> (byte list \<times> fd list) list \<Rightarrow> happening list" where
  "happenings en bs [] = []"
| "happenings en bs ((cs, fds) # got) =
    Came fds # map Message (frames_of en (bs @ cs)) @ happenings en (unframed en (bs @ cs)) got"

text \<open>What each request for a paste is dealt: the descriptor at the front of the queue, if there is one.\<close>

definition asks_for_paste :: "happening \<Rightarrow> bool" where
  "asks_for_paste x \<longleftrightarrow> (case x of Came fds \<Rightarrow> False | Message f \<Rightarrow> sender_id (fst f) = 14 \<and> opcode (fst f) = 1)"

fun dealt :: "fd list \<Rightarrow> happening list \<Rightarrow> fd option list" where
  "dealt q [] = []"
| "dealt q (Came fds # xs) = dealt (q @ fds) xs"
| "dealt q (Message f # xs) =
    (if asks_for_paste (Message f) then (case q of [] \<Rightarrow> None # dealt [] xs | fd # q' \<Rightarrow> Some fd # dealt q' xs)
     else dealt q xs)"

lemma dealt_length: "length (dealt q xs) = length (filter asks_for_paste xs)"
  by (induction q xs rule: dealt.induct) (auto simp: asks_for_paste_def split: list.split)

definition takers :: "fd option list \<Rightarrow> fd list" where
  "takers gs = List.map_filter id gs"

lemma takers_simps [simp]: "takers [] = []" "takers (None # gs) = takers gs" "takers (Some f # gs) = f # takers gs"
  "takers (gs @ hs) = takers gs @ takers hs"
  by (simp_all add: takers_def List.map_filter_def)

text \<open>What is written for a request, and what is reported of it.\<close>

definition marker_on :: "probe_os \<Rightarrow> fd \<Rightarrow> (fd \<times> byte list) list" where
  "marker_on os f = (if taken_of os f REAL_MARKER = [] then [] else [(f, taken_of os f REAL_MARKER)])"

fun paste_report :: "probe_os \<Rightarrow> fd option \<Rightarrow> report" where
  "paste_report os None = NoDescriptor"
| "paste_report os (Some f) = MarkerAnswered f (taken_of os f REAL_MARKER = REAL_MARKER)"

definition paste_reports :: "report list \<Rightarrow> report list" where
  "paste_reports rs = filter (\<lambda>r. r \<noteq> SelectionCancelled) rs"

lemma paste_reports_simps [simp]: "paste_reports (rs @ rs') = paste_reports rs @ paste_reports rs'" "paste_reports [] = []"
  "paste_reports [SelectionCancelled] = []" "paste_reports [paste_report os g] = [paste_report os g]"
  by (simp_all add: paste_reports_def) (cases g; simp)

definition came :: "happening list \<Rightarrow> fd list" where
  "came xs = concat (map (\<lambda>x. case x of Came fds \<Rightarrow> fds | Message f \<Rightarrow> []) xs)"

lemma came_simps [simp]: "came [] = []" "came (Came fds # xs) = fds @ came xs" "came (Message f # xs) = came xs"
  "came (map Message fs @ xs) = came xs"
  by (simp_all add: came_def comp_def)

lemma came_happenings: "came (happenings en bs got) = concat (map snd got)"
  by (induction en bs got rule: happenings.induct) simp_all

fun hold_play :: "probe_os \<Rightarrow> happening list \<Rightarrow> desk \<Rightarrow> desk" where
  "hold_play os [] d = d"
| "hold_play os (Came fds # xs) d = hold_play os xs (d\<lparr>fd_queue := fd_queue d @ fds\<rparr>)"
| "hold_play os (Message f # xs) d = hold_play os xs (snd (hold_body os (fst f) (snd f) () d))"

lemma hold_body_goes: "hold_body os h payload () d = (Inr (Inr ()), snd (hold_body os h payload () d))"
  by (cases "fd_queue d")
    (simp_all add: hold_body_def answer_data_source_send_def and_then_eq pop_fd_def note_report_def modify_def write_fd_def)

lemma hold_body_serves:
  "let d' = snd (hold_body os (fst f) (snd f) () d); gs = dealt (fd_queue d) [Message f] in
     fd_queue d = takers gs @ fd_queue d' \<and> fd_writes d' = fd_writes d @ concat (map (marker_on os) (takers gs)) \<and>
     paste_reports (reports d') = paste_reports (reports d) @ map (paste_report os) gs"
proof (cases "fd_queue d")
  case Nil
  then show ?thesis using paste_reports_simps(4) [of os None]
    by (simp add: hold_body_def answer_data_source_send_def and_then_eq pop_fd_def note_report_def modify_def asks_for_paste_def)
next
  case (Cons fd q)
  then show ?thesis using paste_reports_simps(4) [of os "Some fd"]
    by (simp add: hold_body_def answer_data_source_send_def and_then_eq pop_fd_def note_report_def modify_def asks_for_paste_def
        write_fd_def fd_takes_def marker_on_def)
qed

lemma hold_play_serves:
  "let d' = hold_play os xs d; gs = dealt (fd_queue d) xs in
     fd_queue d @ came xs = takers gs @ fd_queue d' \<and> fd_writes d' = fd_writes d @ concat (map (marker_on os) (takers gs)) \<and>
     paste_reports (reports d') = paste_reports (reports d) @ map (paste_report os) gs"
proof (induction xs arbitrary: d)
  case (Cons x xs)
  show ?case
  proof (cases x)
    case (Came fds)
    then show ?thesis using Cons [of "d\<lparr>fd_queue := fd_queue d @ fds\<rparr>"] by simp
  next
    case (Message f)
    let ?d = "snd (hold_body os (fst f) (snd f) () d)"
    have "dealt (fd_queue d) (x # xs) = dealt (fd_queue d) [Message f] @ dealt (fd_queue ?d) xs"
      using hold_body_serves [of os f d] by (cases "fd_queue d") (auto simp: Message Let_def)
    moreover from hold_body_serves [of os f d] Cons [of ?d]
    have "fd_queue d @ came xs = (takers (dealt (fd_queue d) [Message f]) @ takers (dealt (fd_queue ?d) xs)) @ fd_queue (hold_play os xs ?d)"
      unfolding Let_def by (metis append.assoc)
    ultimately show ?thesis
      using hold_body_serves [of os f d] Cons [of ?d] by (simp add: Message Let_def del: dealt.simps)
  qed
qed simp

lemma hold_play_messages: "hold_play os (map Message fs @ xs) d = hold_play os xs (snd (run_frames (hold_body os) fs () d))"
  and run_hold_body: "\<exists>d'. run_frames (hold_body os) fs () d = (Inr (Inr ()), d')"
proof (induction fs arbitrary: d)
  case (Cons f fs)
  obtain h payload where f: "f = (h, payload)" by fastforce
  have e: "run_frames (hold_body os) (f # fs) () d = run_frames (hold_body os) fs () (snd (hold_body os h payload () d))" for d
    unfolding f by (simp add: and_then_def) (subst hold_body_goes, simp)
  case 1 show ?case unfolding e using Cons(1) by (simp add: f)
  case 2 show ?case unfolding e by (rule Cons(2))
qed (simp_all add: go_def)

lemma scan_holding:
  "scan_inbox en (hold_body os) () p =
     (Inr (Inr ()), p\<lparr>inbox := unframed en (inbox p), desk := hold_play os (map Message (frames_of en (inbox p))) (desk p)\<rparr>)"
  using scan_inbox_run [where en = en and body = "hold_body os" and a = "()" and p = p]
    run_hold_body [of os "frames_of en (inbox p)" "desk p"] hold_play_messages [of os "frames_of en (inbox p)" "[]" "desk p"]
  by auto

text \<open>A read delivers, or brings nothing.\<close>

definition closes :: "peer_event \<Rightarrow> bool" where
  "closes ev \<longleftrightarrow> (case ev of PeerSends d bs cs \<Rightarrow> bs = [] | PeerFails d \<Rightarrow> True)"

lemma pull_delivers:
  assumes "pull True p = (x, p')"
  shows "(x = Inr GotData \<longrightarrow> (\<exists>bs fds. deliveries (incoming p) = (bs, fds) # deliveries (incoming p') \<and>
      inbox p' = inbox p @ bs \<and> desk p' = (desk p)\<lparr>fd_queue := fd_queue (desk p) @ fds\<rparr>)) \<and>
    (x \<noteq> Inr GotData \<longrightarrow> deliveries (incoming p') = deliveries (incoming p) \<and> inbox p' = inbox p \<and> desk p' = desk p) \<and>
    (x \<in> {Inr GotEof, Inr GotError} \<longrightarrow> (\<exists>ev \<in> set (incoming p). closes ev)) \<and>
    ((\<exists>ev \<in> set (incoming p'). closes ev) \<longrightarrow> (\<exists>ev \<in> set (incoming p). closes ev))"
proof (cases "incoming p")
  case Nil
  then show ?thesis using assms
    by (auto simp: pull_def and_then_def blocking_read_def Let_def wake_after_def split: option.splits if_splits)
next
  case (Cons ev evs)
  then show ?thesis using assms
    by (cases ev)
      (auto simp: pull_def and_then_def blocking_read_def Let_def recv_with_fds_def closes_def
        split: option.splits if_splits)
qed

lemma pump_holding:
  assumes "pump_while en (\<lambda>_. True) (hold_body os) None None dl () p = (r, p')"
  shows "\<exists>got. deliveries (incoming p) = got @ deliveries (incoming p') \<and>
    desk p' = hold_play os (happenings en (inbox p) got) (desk p) \<and>
    (r = Inr () \<and> \<not> (\<exists>ev \<in> set (incoming p). closes ev) \<longrightarrow> dl \<le> clock p')"
  using assms
proof (induction en "\<lambda>_::unit. True" "hold_body os" "None :: probe_end option" "None :: probe_end option" dl "()" p
    rule: pump_while.induct)
  case (1 en dl p)
  obtain x p1 where pl: "pump_once p = (x, p1)" by fastforce
  note d1 = pull_delivers [OF pl [unfolded pump_once_def]]
  have stay: "\<exists>got. deliveries (incoming p) = got @ deliveries (incoming p') \<and>
      desk p' = hold_play os (happenings en (inbox p) got) (desk p) \<and> Q"
    if "deliveries (incoming p') = deliveries (incoming p)" "desk p' = desk p" Q for Q
    by (intro exI [of _ "[]"]) (use that in simp)
  show ?case
  proof (cases "dl \<le> clock p")
    case True
    then have "p' = p" using 1(3) by (subst (asm) pump_while.simps) simp
    with True show ?thesis by (intro stay) simp_all
  next
    case on: False
    consider (data) "x = Inr GotData" | (block) "x = Inr GotWouldBlock" | (out) "x \<notin> {Inr GotData, Inr GotWouldBlock}" by blast
    then show ?thesis
    proof cases
      case data
      let ?p2 = "p1\<lparr>inbox := unframed en (inbox p1), desk := hold_play os (map Message (frames_of en (inbox p1))) (desk p1)\<rparr>"
      from data d1 obtain bs fds where g: "deliveries (incoming p) = (bs, fds) # deliveries (incoming p1)"
        "inbox p1 = inbox p @ bs" "desk p1 = (desk p)\<lparr>fd_queue := fd_queue (desk p) @ fds\<rparr>" by blast
      have "pump_while en (\<lambda>_. True) (hold_body os) None None dl () ?p2 = (r, p')"
        using 1(3) pl on data by (subst (asm) pump_while.simps) (simp add: scan_holding)
      from 1(1) [OF _ pl [symmetric] data refl scan_holding [symmetric] refl refl this] on obtain got where
        i: "deliveries (incoming p1) = got @ deliveries (incoming p')"
          "desk p' = hold_play os (happenings en (unframed en (inbox p1)) got) (desk ?p2)"
          "r = Inr () \<and> \<not> (\<exists>ev \<in> set (incoming p1). closes ev) \<longrightarrow> dl \<le> clock p'" by auto
      have "hold_play os (map Message fs @ xs) d = hold_play os xs (hold_play os (map Message fs) d)" for fs xs d
        using hold_play_messages [of os fs] hold_play_messages [of os fs "[]"] by simp
      with g i d1 show ?thesis by (intro exI [of _ "(bs, fds) # got"]) auto
    next
      case block
      then have "pump_while en (\<lambda>_. True) (hold_body os) None None dl () p1 = (r, p')"
        using 1(3) pl on by (subst (asm) pump_while.simps) simp
      from 1(2) [OF _ pl [symmetric] block refl this] on block d1 show ?thesis by auto
    next
      case out
      then have "p' = p1" "r = Inr () \<longrightarrow> x \<in> {Inr GotEof, Inr GotError}" using 1(3) pl on
        by (subst (asm) pump_while.simps, auto split: sum.splits pulled.splits)+
      with out d1 show ?thesis by (intro stay) auto
    qed
  qed
qed

section \<open>The serial that is borrowed\<close>

text \<open>A batch of messages leaves the serial of its last input event: a later one replaces an earlier one,
  and the loop looks at its condition only after the batch.\<close>

definition captures :: "endianness \<Rightarrow> (message_header \<times> byte list) list \<Rightarrow> (string \<times> u32) list" where
  "captures en fs = List.map_filter (\<lambda>(h, payload). capture en h payload) fs"

lemma drop_keymap_goes: "\<exists>d'. drop_keymap_fd h d = (Inr (), d')"
  by (cases "fd_queue d") (simp_all add: drop_keymap_fd_def and_then_eq pop_fd_def)

lemma input_body_goes:
  "\<exists>d'. input_body en h payload a d = (Inr (Inr (case capture en h payload of None \<Rightarrow> a | Some c \<Rightarrow> Some c)), d')"
  using drop_keymap_goes [of h d]
  by (auto simp: input_body_def and_then_eq note_report_def modify_def)

lemma captures_last:
  "\<exists>d'. run_frames (input_body en) fs a d =
     (Inr (Inr (if captures en fs = [] then a else Some (last (captures en fs)))), d')"
proof (induction fs arbitrary: a d)
  case Nil
  show ?case by (simp add: captures_def map_filter_simps)
next
  case (Cons f fs)
  obtain h payload where f: "f = (h, payload)" by fastforce
  let ?a = "case capture en h payload of None \<Rightarrow> a | Some c \<Rightarrow> Some c"
  obtain d1 where 1: "input_body en h payload a d = (Inr (Inr ?a), d1)" using input_body_goes by blast
  obtain d2 where 2: "run_frames (input_body en) fs ?a d1 =
      (Inr (Inr (if captures en fs = [] then ?a else Some (last (captures en fs)))), d2)" using Cons by blast
  have "run_frames (input_body en) (f # fs) a d = run_frames (input_body en) fs ?a d1"
    by (simp add: f and_then_eq 1)
  then show ?case using 2 by (simp add: f captures_def map_filter_simps split: option.splits)
qed

text \<open>Two input events in one batch: the pointer enters with serial 7, a key is pressed with serial 9.\<close>

definition two_inputs :: "(message_header \<times> byte list) list" where
  "two_inputs = [frame_of 12 0 (u32s LittleEndian [7, 9, 0, 0]), frame_of 13 3 (u32s LittleEndian [9, 0, 30, 1])]"

text \<open>A keymap and then a paste, each with its descriptor. Only the pipe of the paste can be written to.\<close>

definition keymap_then_paste :: "(message_header \<times> byte list) list" where
  "keymap_then_paste = [frame_of 13 0 (u32s LittleEndian [1, 64]), frame_of 14 1 (put_str LittleEndian [] MIME_TYPE)]"

definition with_fds :: "fd list \<Rightarrow> desk" where
  "with_fds fds = desk (probe_connected [] [])\<lparr>fd_queue := fds\<rparr>"

definition pipe_os :: "fd \<Rightarrow> probe_os" where
  "pipe_os pipe = quiet_os\<lparr>os_is_socket := \<lambda>f. False, os_room := \<lambda>f. if f = pipe then None else Some 0\<rparr>"

lemma keymap_takes_the_answer:
  "run_frames (hold_body (pipe_os 8)) keymap_then_paste () (with_fds [7, 8]) =
     (Inr (Inr ()), (with_fds [8])\<lparr>reports := [MarkerAnswered 7 False]\<rparr>)"
  "fd_queue (snd (run_frames (input_body LittleEndian) keymap_then_paste None (with_fds [7, 8]))) = [8]"
  by code_simp+

end
