(* ===== verification/ProbeTools.thy ===== *)
theory ProbeTools
  imports ProbeClient Recorder Handoff
begin

text \<open>
  The two programs that hold no connection. \<open>examples/probe_dmabuf.rs\<close> prints the request and event
  tables of the dmabuf interfaces; \<open>src/bin/test-fixture-bind-and-check.rs\<close> binds a path and looks at
  once whether it is still there. Shown: the dump has, beside each number, the request of that opcode; the
  fixture's answer tells whether the helper renamed its socket while it was halted.
\<close>

section \<open>Dumping the tables\<close>

text \<open>\<open>show_sig\<close> is the \<open>Debug\<close> of a signature, which \<open>wayland-backend\<close> derives.\<close>

definition dump_request :: "(argument_type list \<Rightarrow> string) \<Rightarrow> nat \<Rightarrow> message_desc \<Rightarrow> string" where
  "dump_request show_sig i r =
    ''  '' @ dec i @ '': '' @ md_name r @ (if is_destructor r then '' [destructor]'' else '''') @ '' sig='' @
    show_sig (signature r) @ (case child_interface r of None \<Rightarrow> '''' | Some c \<Rightarrow> '' -> '' @ if_name c)"

definition dump_event :: "(argument_type list \<Rightarrow> string) \<Rightarrow> nat \<Rightarrow> message_desc \<Rightarrow> string" where
  "dump_event show_sig i r = ''  '' @ dec i @ '': '' @ md_name r @ '' sig='' @ show_sig (signature r)"

definition dump :: "(argument_type list \<Rightarrow> string) \<Rightarrow> interface \<Rightarrow> string list" where
  "dump show_sig iface =
    (''== '' @ if_name iface @ '' (v'' @ dec (unat (if_version iface)) @ '') requests =='') #
    map (case_prod (dump_request show_sig)) (enumerate 0 (requests iface)) @
    (''== '' @ if_name iface @ '' events =='') #
    map (case_prod (dump_event show_sig)) (enumerate 0 (events iface))"

text \<open>The lines printed, and how the program ends.\<close>

definition probe_dmabuf :: "(argument_type list \<Rightarrow> string) \<Rightarrow> interface \<Rightarrow> string list \<times> (probe_end + unit)" where
  "probe_dmabuf show_sig dmabuf =
    (case Option.bind (find (\<lambda>r. md_name r = ''create_params'') (requests dmabuf)) child_interface of
       None \<Rightarrow> (dump show_sig dmabuf, Inl (Panicked (NotAdvertised ''create_params'')))
     | Some params \<Rightarrow> (dump show_sig dmabuf @ [''''] @ dump show_sig params, Inr ()))"

lemma dump_lines:
  "i < length (requests iface) \<Longrightarrow> dump show_sig iface ! Suc i = dump_request show_sig i (requests iface ! i)"
  "i < length (events iface) \<Longrightarrow>
     dump show_sig iface ! (length (requests iface) + 2 + i) = dump_event show_sig i (events iface ! i)"
  by (simp_all add: dump_def nth_append nth_enumerate_eq)

lemma find_position: "find (\<lambda>r. md_name r = name) ds = map_option ((!) ds) (position name ds)"
  by (induction ds) (auto simp: option.map_comp comp_def)

lemma dump_finds:
  assumes "request_opcode iface name = Some opc" "length (requests iface) \<le> 65536"
  shows "\<exists>d. find (\<lambda>r. md_name r = name) (requests iface) = Some d \<and> desc_at (requests iface) opc = Some d \<and>
    dump show_sig iface ! Suc (unat opc) = dump_request show_sig (unat opc) d"
proof -
  from assms(1) obtain i where i: "position name (requests iface) = Some i" and opc: "opc = word_of_nat i"
    by (auto simp: request_opcode_def)
  then have "i < length (requests iface)" "unat opc = i"
    using position_bound [OF i] assms(2) by (simp_all add: unat_of_nat)
  then show ?thesis using i by (simp add: find_position desc_at_def dump_lines)
qed

section \<open>Bind and look\<close>

text \<open>\<open>binds\<close> is whether the kernel lets the path be bound, beyond its being free; \<open>meanwhile\<close> is what others do to
  the names between the exit of \<open>bind\<close> and the next instruction of the fixture.\<close>

definition bind_and_check :: "(string \<Rightarrow> bool) \<Rightarrow> (string set \<Rightarrow> string set) \<Rightarrow> string list \<Rightarrow> string set \<Rightarrow> probe_end + string" where
  "bind_and_check binds meanwhile args files =
    (if length args \<le> 1 then Inl (Panicked BadUsage)
     else let path = args ! 1 in
       if path \<in> files \<or> \<not> binds path then Inl (Panicked FileFailed)
       else Inr (''still_exists='' @ (if path \<in> meanwhile (insert path files) then ''true'' else ''false'')))"

text \<open>What a log of the tracer does to the names, and its part after the last stop.\<close>

fun renaming :: "string \<Rightarrow> string \<Rightarrow> trace_event list \<Rightarrow> string set \<Rightarrow> string set" where
  "renaming real hidden [] files = files"
| "renaming real hidden (e # es) files =
    renaming real hidden es (if e = Rename True then insert hidden (files - {real}) else files)"

fun is_waited :: "trace_event \<Rightarrow> bool" where
  "is_waited (Waited _) = True"
| "is_waited _ = False"

definition since_stop :: "trace_event list \<Rightarrow> trace_event list" where
  "since_stop es = rev (takeWhile (\<lambda>e. \<not> is_waited e) (rev es))"

lemma renaming_clean: "Rename True \<notin> set es \<Longrightarrow> renaming real hidden es files = files"
  by (induction es arbitrary: files) auto

lemma trace_end_since:
  assumes "trace_end (Inr ()) es"
  shows "\<exists>regs. since_stop es = [Getregs regs, Rename True, Detach True]"
  using assms by cases (auto simp: since_stop_def)

text \<open>Renamed on success; and a handoff that renamed nothing leaves the path to the fixture.\<close>

lemma fixture_answers:
  assumes "run_ptrace deadline st rounds = Some (res, t)" "real \<noteq> hidden" "real \<notin> files" "binds real"
  shows "res = Inr () \<Longrightarrow> bind_and_check binds (renaming real hidden (since_stop (trace_log t))) [exe, real] files = Inr ''still_exists=false''"
    "Rename True \<notin> set (trace_log t) \<Longrightarrow>
       bind_and_check binds (renaming real hidden (since_stop (trace_log t))) [exe, real] files = Inr ''still_exists=true''"
proof -
  assume "res = Inr ()"
  with trace_end_since run_ptrace_ends [OF assms(1)] obtain regs
    where "since_stop (trace_log t) = [Getregs regs, Rename True, Detach True]" by blast
  then show "bind_and_check binds (renaming real hidden (since_stop (trace_log t))) [exe, real] files = Inr ''still_exists=false''"
    using assms by (simp add: bind_and_check_def)
next
  assume "Rename True \<notin> set (trace_log t)"
  then have "Rename True \<notin> set (since_stop (trace_log t))"
    by (auto simp: since_stop_def dest: set_takeWhileD)
  then show "bind_and_check binds (renaming real hidden (since_stop (trace_log t))) [exe, real] files = Inr ''still_exists=true''"
    using assms by (simp add: bind_and_check_def renaming_clean)
qed

end
