(* ===== verification/ProbeSamples.thy ===== *)
theory ProbeSamples
  imports ProbeRetry ProbePaste ProbeTools
begin

text \<open>
  The concrete connections that the properties of the diagnostic clients are applied to: a compositor that lets
  the dmabuf probe settle, is killed, comes back and answers; and one that never says anything again.
  The handshake is evaluated, the rest is followed event by event.
\<close>

definition announce :: "u32 \<Rightarrow> string \<Rightarrow> byte list" where
  "announce name iface =
    build_message LittleEndian 2 0 (put_u32 LittleEndian (put_str LittleEndian (put_u32 LittleEndian [] name) iface) 2)"

definition done_event :: "u32 \<Rightarrow> byte list" where
  "done_event i = build_message LittleEndian i 0 (u32s LittleEndian [0])"

definition settled :: "peer_event list" where
  "settled =
    [PeerSends 5 (announce 1 ''wl_compositor'' @ announce 2 ''xdg_wm_base'' @ announce 3 ''zwp_linux_dmabuf_v1'' @ done_event 3) [],
     PeerSends 1500 (done_event 12) []]"

definition sample_gbm :: gbm_world where
  "sample_gbm = \<lparr>gbm_node = True, gbm_device = True,
     gbm_explicit = Some \<lparr>bo_stride = 1280, bo_modifier = 0, bo_fd = Some 9\<rparr>, gbm_implicit = None, gbm_argb8888 = 0\<rparr>"

abbreviation handshake :: "unit probing" where
  "handshake \<equiv> and_then (open_display ''wayland-0'' quiet_os) (\<lambda>_. dmabuf_before_crash LittleEndian sample_gbm)"

lemma handshake_settles:
  "case handshake (probe_connected (settled @ evs) []) of
     (r, p) \<Rightarrow> r = Inr () \<and> inbox p = [] \<and> incoming p = evs \<and> clock p = 1505 \<and> read_timeout p = 500 \<and> watchdog p = None \<and> obliging p"
  by code_simp

section \<open>Event by event\<close>

lemma take_nothing: "take_message en [] = None"
  using parse_header_None_iff [of en "[]"] by (simp add: take_message_def HEADER_LEN_def)

lemma scan_done:
  "inbox p = done_event i @ rest \<Longrightarrow> scan_inbox LittleEndian body a p =
   (case body \<lparr>sender_id = i, opcode = 0, msg_length = 12\<rparr> (u32s LittleEndian [0]) a (desk p) of
     (Inl e, d) \<Rightarrow> (Inl e, p\<lparr>desk := d\<rparr>)
   | (Inr (Inl r), d) \<Rightarrow> (Inr (Inl r), p\<lparr>inbox := rest, desk := d\<rparr>)
   | (Inr (Inr a'), d) \<Rightarrow> scan_inbox LittleEndian body a' (p\<lparr>inbox := rest, desk := d\<rparr>))"
  using take_message_build [of "u32s LittleEndian [0]" LittleEndian i 0 rest]
    parse_build_message [of LittleEndian i 0 "u32s LittleEndian [0]" "[]"]
  by (subst scan_inbox.simps) (simp add: done_event_def HEADER_LEN_def build_message_def split: prod.splits sum.splits)

lemma scan_last: "inbox p = done_event i \<Longrightarrow> scan_inbox LittleEndian body a p =
   (case body \<lparr>sender_id = i, opcode = 0, msg_length = 12\<rparr> (u32s LittleEndian [0]) a (desk p) of
     (Inl e, d) \<Rightarrow> (Inl e, p\<lparr>desk := d\<rparr>)
   | (Inr (Inl r), d) \<Rightarrow> (Inr (Inl r), p\<lparr>inbox := [], desk := d\<rparr>)
   | (Inr (Inr a'), d) \<Rightarrow> scan_inbox LittleEndian body a' (p\<lparr>inbox := [], desk := d\<rparr>))"
  using scan_done [of p i "[]"] by simp

lemma scan_nothing: "inbox p = [] \<Longrightarrow> scan_inbox en body a p = (Inr (Inr a), p)"
  by (simp add: scan_inbox_None take_nothing)

lemma done_not_Nil: "done_event i \<noteq> []" by (simp add: done_event_def)

lemmas reading = read_some_def pull_def and_then_eq blocking_read_def wake_after_def recv_with_fds_def Let_def done_not_Nil

abbreviation waiting :: "peer_event list \<Rightarrow> nat \<Rightarrow> nat option \<Rightarrow> desk \<Rightarrow> probe" where
  "waiting evs t w d \<equiv> \<lparr>inbox = [], incoming = evs, clock = t, read_timeout = 500, watchdog = w, desk = d\<rparr>"

definition last_answers :: peer_event where
  "last_answers = PeerSends 2000 (done_event 14 @ done_event 15) []"

lemma callback_after_crash:
  assumes "accepts d = []"
  shows "crash_and_reconnect LittleEndian quiet_os 30000 None 13 (waiting (PeerSends 5 (done_event 13) [] # evs) 1505 None d) =
    (Inr 13, waiting evs 1510 (Some 31505) (d\<lparr>wire_log := wire_log d @ [(sync_message LittleEndian 13, [])]\<rparr>))"
proof -
  have s: "sync_message LittleEndian 13 \<noteq> []" by (simp add: sync_message_def)
  show ?thesis
    unfolding crash_and_reconnect_def crash_and_watch_def
    using assms s
    by (simp add: and_then_eq crash_compositor_def quiet_os_def start_watchdog_def modify_def send_cmsgs_def retry_sync.simps
       send_all_willing logged_def read_until.simps scan_nothing scan_last wait_body_def is_display_error_def reading)
qed

lemma quiet_after_crash:
  "drain_and_ack_configures LittleEndian 8 1500 (waiting [PeerSends 2000 bs []] 1510 w d) =
    (Inr (), waiting [PeerSends 500 bs []] 3010 w d)" if "w = Some 31505"
  using that by (simp add: drain_and_ack_configures_def drain_loop.simps scan_nothing reading)

lemma reattached:
  assumes "accepts d = []"
  shows "fst (dmabuf_after_crash LittleEndian 13 (waiting [last_answers] 1510 (Some 31505) d)) = Inl ExitSuccess"
proof -
  have s: "reattach_burst LittleEndian 14 15 \<noteq> []" by (simp add: reattach_burst_def attach_burst_def)
  show ?thesis
    using assms s
    by (simp add: last_answers_def dmabuf_after_crash_def settle_again_def and_then_eq quiet_after_crash set_read_timeout_def reattach_and_wait_def
      send_all_willing logged_def read_until_both_def both_loop.simps scan_nothing scan_done scan_last both_body_def
      is_display_error_def reading report_result_def)
qed

section \<open>A compositor that comes back\<close>

definition coming_back :: probe where
  "coming_back = probe_connected (settled @ [PeerSends 5 (done_event 13) [], last_answers]) []"

lemma coming_back_once: "one_ending coming_back"
  by (simp add: coming_back_def probe_connected_def settled_def last_answers_def done_not_Nil announce_def)

lemma coming_back_passes: "fst (probe_dmabuf_reconnect LittleEndian quiet_os sample_gbm coming_back) = Inl ExitSuccess"
proof -
  let ?evs = "[PeerSends 5 (done_event 13) [], last_answers]"
  obtain d where h: "handshake coming_back = (Inr (), waiting ?evs 1505 None d)" and d: "accepts d = []"
  proof -
    obtain r p where h: "handshake coming_back = (r, p)" by fastforce
    with handshake_settles [of ?evs] have "r = Inr ()" "p = waiting ?evs 1505 None (desk p)" "accepts (desk p) = []"
      by (auto simp: coming_back_def)
    then show thesis using h that by metis
  qed
  have "probe_dmabuf_reconnect LittleEndian quiet_os sample_gbm coming_back =
    and_then (crash_and_reconnect LittleEndian quiet_os 30000 None 13) (dmabuf_after_crash LittleEndian) (waiting ?evs 1505 None d)"
    using h and_then_assoc [of "open_display ''wayland-0'' quiet_os" "\<lambda>_. dmabuf_before_crash LittleEndian sample_gbm"
        "\<lambda>_. and_then (crash_and_reconnect LittleEndian quiet_os 30000 None 13) (dmabuf_after_crash LittleEndian)", symmetric]
    by (simp add: probe_dmabuf_reconnect_def and_then_eq)
  then show ?thesis using d by (simp add: and_then_eq callback_after_crash reattached)
qed

section \<open>Two pastes\<close>

text \<open>Two paste requests in one read, which brings one descriptor; then the connection ends.\<close>

definition paste_message :: "byte list" where
  "paste_message = build_message LittleEndian 14 1 (put_str LittleEndian [] MIME_TYPE)"

definition two_pastes :: probe where
  "two_pastes = probe_connected [PeerSends 10 (concat (replicate 2 paste_message)) [ScmRights [8]], PeerSends 10 [] []] []"

lemma paste_frames:
  "frames_of LittleEndian (concat (replicate 2 paste_message)) = replicate 2 (frame_of 14 1 (put_str LittleEndian [] MIME_TYPE))"
  "unframed LittleEndian (concat (replicate 2 paste_message)) = []"
  by code_simp+

lemma two_pastes_dealt:
  "dealt [] (happenings LittleEndian [] [(concat (replicate 2 paste_message), [8])]) = [Some 8, None]"
  using paste_frames by (simp add: asks_for_paste_def frame_of_def numeral_2_eq_2)

lemma REAL_MARKER_nonempty: "REAL_MARKER \<noteq> []"
  by code_simp

lemma two_pastes_read: "deliveries (incoming (snd (hold_selection LittleEndian (pipe_os 8) two_pastes))) = []"
proof -
  have c: "concat (replicate 2 paste_message) \<noteq> []" by (simp add: paste_message_def numeral_2_eq_2)
  then show ?thesis
    by (simp add: hold_selection_def two_pastes_def probe_connected_def pump_while.simps pump_once_def reading scan_holding)
qed

section \<open>One retry\<close>

text \<open>The callback 8 is never answered, 9 and 11 are.\<close>

definition one_retry :: probe where
  "one_retry = waiting [PeerSends 500 (done_event 9) [], PeerSends 5 (done_event 11) []] 100 None (with_fds [])"

abbreviation from_crash :: "unit probing" where
  "from_crash \<equiv> and_then (crash_and_reconnect LittleEndian quiet_os 20000 (Some 400) 8) (\<lambda>_. resize_after_crash LittleEndian quiet_os)"

lemma one_retry_passes: "obliging one_retry" "fst (from_crash one_retry) = Inl ExitSuccess"
proof -
  show d: "obliging one_retry" by (simp add: one_retry_def with_fds_def probe_connected_def)
  have s: "sync_message LittleEndian i \<noteq> []" for i by simp
  obtain d1 where 1: "crash_and_reconnect LittleEndian quiet_os 20000 (Some 400) 8 one_retry =
      (Inr 9, (waiting [PeerSends 5 (done_event 11) []] 600 (Some 20100) d1)\<lparr>read_timeout := 400\<rparr>)" and d1: "accepts d1 = []"
    using d unfolding crash_and_reconnect_def crash_and_watch_def one_retry_def
    by (simp add: and_then_eq crash_compositor_def quiet_os_def start_watchdog_def modify_def set_read_timeout_def retry_sync.simps
       send_all_willing logged_def read_until.simps scan_nothing scan_last wait_body_def is_display_error_def reading with_fds_def
       probe_connected_def)
  have "fst (resize_after_crash LittleEndian quiet_os
      ((waiting [PeerSends 5 (done_event 11) []] 600 (Some 20100) d1)\<lparr>read_timeout := 400\<rparr>)) = Inl ExitSuccess"
    using d1
    by (simp add: resize_after_crash_def resize_second_buffer_def destroy_buffer_and_pool_def create_pool_def backing_file_def quiet_os_def create_buffer_def
        sync_and_wait_def and_then_assoc and_then_eq set_read_timeout_def send_all_willing send_fds_willing logged_def
        read_until.simps scan_nothing scan_last wait_body_def is_display_error_def reading report_result_def)
  then show "fst (from_crash one_retry) = Inl ExitSuccess" using 1 by (simp add: and_then_eq)
qed

end
