(* ===== verification/StateTests.thy ===== *)
theory StateTests
  imports Trackers ShadowTable Recreation
begin

text \<open>
  The unit tests of the stateful modules, \<open>src/buffer_flow.rs\<close>, \<open>src/pending_frames.rs\<close>,
  \<open>src/grab_state.rs\<close>, \<open>src/shadow_table.rs\<close> and \<open>src/recreation.rs\<close>: each test function is a
  predicate with its calls in their order and its assertions as the conjunction, a panic is \<^const>\<open>False\<close>.
  The model passes each of them, for every iteration order of the hash tables, every bidirectional map
  with the laws of \<open>bimap\<close> and every descriptor number: what the authors expect of their code
  is what the definitions of the development do.
\<close>

lemma permutes_keys_singleton: "permutes_keys ord \<Longrightarrow> ord [x] = [x]"
  unfolding permutes_keys_def by (drule spec [of _ "[x]"]) simp

section \<open>Buffers in flight\<close>

definition attach_then_commit_marks_the_buffer_in_flight :: "(u32 list \<Rightarrow> u32 list) \<Rightarrow> bool" where
  "attach_then_commit_marks_the_buffer_in_flight ord \<longleftrightarrow>
    (let t = buffer_flow_new;
         t = on_attach 6 58 t;
         t = on_commit 6 t
     in fst (drain_in_flight ord t) = [58])"

definition attach_without_commit_is_not_in_flight :: "(u32 list \<Rightarrow> u32 list) \<Rightarrow> bool" where
  "attach_without_commit_is_not_in_flight ord \<longleftrightarrow>
    (let t = buffer_flow_new;
         t = on_attach 6 58 t
     in fst (drain_in_flight ord t) = [])"

definition release_clears_in_flight_state :: "(u32 list \<Rightarrow> u32 list) \<Rightarrow> bool" where
  "release_clears_in_flight_state ord \<longleftrightarrow>
    (let t = buffer_flow_new;
         t = on_attach 6 58 t;
         t = on_commit 6 t;
         t = on_release 58 t
     in fst (drain_in_flight ord t) = [])"

definition null_attach_never_becomes_in_flight :: "(u32 list \<Rightarrow> u32 list) \<Rightarrow> bool" where
  "null_attach_never_becomes_in_flight ord \<longleftrightarrow>
    (let t = buffer_flow_new;
         t = on_attach 6 0 t;
         t = on_commit 6 t
     in fst (drain_in_flight ord t) = [])"

definition commit_without_a_new_attach_reapplies_the_previous_buffer :: "(u32 list \<Rightarrow> u32 list) \<Rightarrow> bool" where
  "commit_without_a_new_attach_reapplies_the_previous_buffer ord \<longleftrightarrow>
    (let t = buffer_flow_new;
         t = on_attach 6 58 t;
         t = on_commit 6 t;
         t = on_release 58 t;
         t = on_commit 6 t
     in fst (drain_in_flight ord t) = [58])"

definition drain_clears_state_so_it_isnt_reported_again :: "(u32 list \<Rightarrow> u32 list) \<Rightarrow> bool" where
  "drain_clears_state_so_it_isnt_reported_again ord \<longleftrightarrow>
    (let t = buffer_flow_new;
         t = on_attach 6 58 t;
         t = on_commit 6 t;
         (drained, t) = drain_in_flight ord t
     in drained = [58] \<and> fst (drain_in_flight ord t) = [])"

definition tracks_multiple_surfaces_independently :: "(u32 list \<Rightarrow> u32 list) \<Rightarrow> bool" where
  "tracks_multiple_surfaces_independently ord \<longleftrightarrow>
    (let t = buffer_flow_new;
         t = on_attach 6 58 t;
         t = on_commit 6 t;
         t = on_attach 7 99 t;
         t = on_commit 7 t;
         flying = fst (drain_in_flight ord t);
         flying = sort flying
     in flying = [58, 99])"

lemmas buffer_flow_ops = buffer_flow_new_def on_attach_def on_commit_def on_release_def drain_in_flight_def hs_elems_def

text \<open>Sorting undoes any order.\<close>

lemma sort_ord: "permutes_keys ord \<Longrightarrow> sort (ord xs) = sort xs"
  by (rule properties_for_sort) (simp_all add: permutes_keys_def)

lemma buffer_flow_tests:
  assumes "permutes_keys ord"
  shows "attach_then_commit_marks_the_buffer_in_flight ord"
    and "attach_without_commit_is_not_in_flight ord"
    and "release_clears_in_flight_state ord"
    and "null_attach_never_becomes_in_flight ord"
    and "commit_without_a_new_attach_reapplies_the_previous_buffer ord"
    and "drain_clears_state_so_it_isnt_reported_again ord"
    and "tracks_multiple_surfaces_independently ord"
  using permutes_keys_singleton [OF assms] permutes_keys_Nil [OF assms, of "[]"] sort_ord [OF assms]
  by (simp_all add: attach_then_commit_marks_the_buffer_in_flight_def attach_without_commit_is_not_in_flight_def
      release_clears_in_flight_state_def null_attach_never_becomes_in_flight_def
      commit_without_a_new_attach_reapplies_the_previous_buffer_def
      drain_clears_state_so_it_isnt_reported_again_def tracks_multiple_surfaces_independently_def buffer_flow_ops)

section \<open>Callbacks awaiting done\<close>

definition frame_request_is_tracked_until_done_arrives :: "(u32 list \<Rightarrow> u32 list) \<Rightarrow> bool" where
  "frame_request_is_tracked_until_done_arrives ord \<longleftrightarrow>
    (let t = pending_frames_new;
         t = on_frame_requested 60 t
     in fst (drain_awaiting_done ord t) = [60])"

definition done_received_clears_the_pending_entry :: "(u32 list \<Rightarrow> u32 list) \<Rightarrow> bool" where
  "done_received_clears_the_pending_entry ord \<longleftrightarrow>
    (let t = pending_frames_new;
         t = on_frame_requested 60 t;
         t = on_done_received 60 t
     in fst (drain_awaiting_done ord t) = [])"

definition drain_clears_callbacks_so_they_arent_reported_again :: "(u32 list \<Rightarrow> u32 list) \<Rightarrow> bool" where
  "drain_clears_callbacks_so_they_arent_reported_again ord \<longleftrightarrow>
    (let t = pending_frames_new;
         t = on_frame_requested 60 t;
         (drained, t) = drain_awaiting_done ord t
     in drained = [60] \<and> fst (drain_awaiting_done ord t) = [])"

definition tracks_multiple_outstanding_callbacks_independently :: "(u32 list \<Rightarrow> u32 list) \<Rightarrow> bool" where
  "tracks_multiple_outstanding_callbacks_independently ord \<longleftrightarrow>
    (let t = pending_frames_new;
         t = on_frame_requested 60 t;
         t = on_frame_requested 61 t;
         t = on_done_received 60 t
     in fst (drain_awaiting_done ord t) = [61])"

definition sync_request_is_tracked_the_same_way_as_a_frame_request :: "(u32 list \<Rightarrow> u32 list) \<Rightarrow> bool" where
  "sync_request_is_tracked_the_same_way_as_a_frame_request ord \<longleftrightarrow>
    (let t = pending_frames_new;
         t = on_sync_requested 62 t
     in fst (drain_awaiting_done ord t) = [62])"

definition frame_and_sync_callbacks_are_tracked_independently_of_each_other :: "(u32 list \<Rightarrow> u32 list) \<Rightarrow> bool" where
  "frame_and_sync_callbacks_are_tracked_independently_of_each_other ord \<longleftrightarrow>
    (let t = pending_frames_new;
         t = on_frame_requested 60 t;
         t = on_sync_requested 62 t;
         t = on_done_received 62 t
     in fst (drain_awaiting_done ord t) = [60])"

lemmas pending_frame_ops = pending_frames_new_def on_frame_requested_def on_sync_requested_def
  on_done_received_def drain_awaiting_done_def hs_elems_def

lemma pending_frame_tests:
  assumes "permutes_keys ord"
  shows "frame_request_is_tracked_until_done_arrives ord"
    and "done_received_clears_the_pending_entry ord"
    and "drain_clears_callbacks_so_they_arent_reported_again ord"
    and "tracks_multiple_outstanding_callbacks_independently ord"
    and "sync_request_is_tracked_the_same_way_as_a_frame_request ord"
    and "frame_and_sync_callbacks_are_tracked_independently_of_each_other ord"
  using permutes_keys_singleton [OF assms] permutes_keys_Nil [OF assms, of "[]"]
  by (simp_all add: frame_request_is_tracked_until_done_arrives_def done_received_clears_the_pending_entry_def
      drain_clears_callbacks_so_they_arent_reported_again_def tracks_multiple_outstanding_callbacks_independently_def
      sync_request_is_tracked_the_same_way_as_a_frame_request_def
      frame_and_sync_callbacks_are_tracked_independently_of_each_other_def pending_frame_ops)

section \<open>Grabs\<close>

definition tracks_pointer_enter_and_leave :: "(u32 list \<Rightarrow> u32 list) \<Rightarrow> bool" where
  "tracks_pointer_enter_and_leave ord \<longleftrightarrow>
    (let t = grabs_new;
         t = on_pointer_enter 10 6 t;
         grabs = active_pointer_grabs ord t;
         t' = on_pointer_leave 10 t
     in grabs = [(10, Some 6, [])] \<and> length (active_pointer_grabs ord t') = 0)"

definition tracks_pressed_buttons_independent_of_focus :: "(u32 list \<Rightarrow> u32 list) \<Rightarrow> bool" where
  "tracks_pressed_buttons_independent_of_focus ord \<longleftrightarrow>
    (let t = grabs_new;
         t = on_pointer_enter 10 6 t;
         t = on_pointer_button 10 272 BUTTON_STATE_PRESSED t;
         t = on_pointer_leave 10 t;
         grabs = active_pointer_grabs ord t;
         t' = on_pointer_button 10 272 0 t
     in grabs = [(10, None, [272])] \<and> length (active_pointer_grabs ord t') = 0)"

definition tracks_multiple_pressed_buttons :: "(u32 list \<Rightarrow> u32 list) \<Rightarrow> bool" where
  "tracks_multiple_pressed_buttons ord \<longleftrightarrow>
    (let t = grabs_new;
         t = on_pointer_button 10 272 BUTTON_STATE_PRESSED t;
         t = on_pointer_button 10 273 BUTTON_STATE_PRESSED t;
         grabs = active_pointer_grabs ord t
     in length grabs = 1 \<and> length (snd (snd (grabs ! 0))) = 2)"

definition tracks_keyboard_enter_and_leave :: "(u32 list \<Rightarrow> u32 list) \<Rightarrow> bool" where
  "tracks_keyboard_enter_and_leave ord \<longleftrightarrow>
    (let t = grabs_new;
         t = on_keyboard_enter 11 6 t;
         t' = on_keyboard_leave 11 t
     in active_keyboard_grabs ord t = [(11, 6)] \<and> length (active_keyboard_grabs ord t') = 0)"

definition clear_resets_everything :: "(u32 list \<Rightarrow> u32 list) \<Rightarrow> bool" where
  "clear_resets_everything ord \<longleftrightarrow>
    (let t = grabs_new;
         t = on_pointer_enter 10 6 t;
         t = on_keyboard_enter 11 6 t;
         t = clear_grabs t
     in length (active_pointer_grabs ord t) = 0 \<and> length (active_keyboard_grabs ord t) = 0)"

definition no_grabs_by_default :: "(u32 list \<Rightarrow> u32 list) \<Rightarrow> bool" where
  "no_grabs_by_default ord \<longleftrightarrow>
    (let t = grabs_new
     in length (active_pointer_grabs ord t) = 0 \<and> length (active_keyboard_grabs ord t) = 0)"

lemma hm_keys_empty [simp]: "hm_keys [] = []"
  by (simp add: hm_keys_def)

lemma remdups_snoc: "k \<notin> set xs \<Longrightarrow> remdups (xs @ [k]) = remdups xs @ [k]"
  by (induction xs) auto

lemma hm_keys_insert [simp]:
  "hm_keys (hm_insert k v m) = (if k \<in> set (hm_keys m) then hm_keys m else hm_keys m @ [k])"
  by (simp add: hm_keys_def hm_insert_def update_keys remdups_snoc)

lemmas grab_ops = grabs_new_def on_pointer_enter_def on_pointer_leave_def on_pointer_button_def
  on_keyboard_enter_def on_keyboard_leave_def clear_grabs_def active_pointer_grabs_def active_keyboard_grabs_def
  or_default_def pointer_default_def keyboard_default_def BUTTON_STATE_PRESSED_def

lemma grab_tests:
  assumes "permutes_keys ord"
  shows "tracks_pointer_enter_and_leave ord"
    and "tracks_pressed_buttons_independent_of_focus ord"
    and "tracks_multiple_pressed_buttons ord"
    and "tracks_keyboard_enter_and_leave ord"
    and "clear_resets_everything ord"
    and "no_grabs_by_default ord"
  using permutes_keys_singleton [OF assms] permutes_keys_Nil [OF assms, of "[]"]
  by (simp_all add: tracks_pointer_enter_and_leave_def tracks_pressed_buttons_independent_of_focus_def
      tracks_multiple_pressed_buttons_def tracks_keyboard_enter_and_leave_def clear_resets_everything_def
      no_grabs_by_default_def grab_ops Let_def map_filter_simps)

section \<open>The shadow table\<close>

definition FAKE_INTERFACE :: interface where
  "FAKE_INTERFACE = Interface ''fake'' 1 [] []"

definition wl_display_is_preseeded_as_1_to_1 :: "'b bimap_ops \<Rightarrow> static_table \<Rightarrow> bool" where
  "wl_display_is_preseeded_as_1_to_1 B statics \<longleftrightarrow>
    (let table = st_new B statics
     in host_id B table 1 = Some 1 \<and> guest_id B table 1 = Some 1 \<and>
        map_option if_name (st_interface table 1) = Some ''wl_display'')"

definition translates_in_both_directions_even_when_ids_differ :: "'b bimap_ops \<Rightarrow> static_table \<Rightarrow> bool" where
  "translates_in_both_directions_even_when_ids_differ B statics \<longleftrightarrow>
    (let table = st_new B statics;
         table = st_map B 5 12345 FAKE_INTERFACE table
     in host_id B table 5 = Some 12345 \<and> guest_id B table 12345 = Some 5 \<and>
        map_option if_name (st_interface table 5) = Some ''fake'')"

definition null_object_id_translates_to_itself_both_ways :: "'b bimap_ops \<Rightarrow> static_table \<Rightarrow> bool" where
  "null_object_id_translates_to_itself_both_ways B statics \<longleftrightarrow>
    (let table = st_new B statics
     in host_id B table 0 = Some 0 \<and> guest_id B table 0 = Some 0)"

definition untracked_id_fails_to_translate :: "'b bimap_ops \<Rightarrow> static_table \<Rightarrow> bool" where
  "untracked_id_fails_to_translate B statics \<longleftrightarrow>
    (let table = st_new B statics
     in host_id B table 999 = None \<and> guest_id B table 999 = None)"

definition remove_guest_forgets_both_directions_and_interface :: "'b bimap_ops \<Rightarrow> static_table \<Rightarrow> bool" where
  "remove_guest_forgets_both_directions_and_interface B statics \<longleftrightarrow>
    (let table = st_new B statics;
         table = st_map B 5 12345 FAKE_INTERFACE table;
         table = remove_guest B 5 table
     in host_id B table 5 = None \<and> guest_id B table 12345 = None \<and> st_interface table 5 = None)"

definition mapping_belongs_to_the_generation_it_was_mapped_in :: "'b bimap_ops \<Rightarrow> static_table \<Rightarrow> bool" where
  "mapping_belongs_to_the_generation_it_was_mapped_in B statics \<longleftrightarrow>
    (let table = st_new B statics;
         table = st_map B 5 12345 FAKE_INTERFACE table;
         bumped = bump_generation B statics table;
         remapped = st_map B 5 99999 FAKE_INTERFACE bumped
     in is_current_generation table 5 \<and> \<not> is_current_generation bumped 5 \<and> is_current_generation remapped 5)"

definition stale_generation_mapping_refuses_to_translate :: "'b bimap_ops \<Rightarrow> static_table \<Rightarrow> bool" where
  "stale_generation_mapping_refuses_to_translate B statics \<longleftrightarrow>
    (let table = st_new B statics;
         table = st_map B 5 12345 FAKE_INTERFACE table;
         table = bump_generation B statics table
     in host_id B table 5 = None \<and> guest_id B table 12345 = None)"

definition wl_display_survives_a_generation_bump_without_being_remapped :: "'b bimap_ops \<Rightarrow> static_table \<Rightarrow> bool" where
  "wl_display_survives_a_generation_bump_without_being_remapped B statics \<longleftrightarrow>
    (let table = st_new B statics;
         table = bump_generation B statics table
     in host_id B table 1 = Some 1 \<and> guest_id B table 1 = Some 1 \<and> is_current_generation table 1)"

definition bump_generation_resets_the_host_id_allocator :: "'b bimap_ops \<Rightarrow> static_table \<Rightarrow> bool" where
  "bump_generation_resets_the_host_id_allocator B statics \<longleftrightarrow>
    (let table = st_new B statics;
         (_, table) = allocate_host_id table;
         (_, table) = allocate_host_id table;
         (_, table) = allocate_host_id table;
         table = bump_generation B statics table
     in fst (allocate_host_id table) = 2)"

definition untracked_id_is_never_current_generation :: "'b bimap_ops \<Rightarrow> static_table \<Rightarrow> bool" where
  "untracked_id_is_never_current_generation B statics \<longleftrightarrow>
    (let table = st_new B statics in \<not> is_current_generation table 999)"

definition remove_guest_forgets_generation_too :: "'b bimap_ops \<Rightarrow> static_table \<Rightarrow> bool" where
  "remove_guest_forgets_generation_too B statics \<longleftrightarrow>
    (let table = st_new B statics;
         table = st_map B 5 12345 FAKE_INTERFACE table;
         table = remove_guest B 5 table
     in \<not> is_current_generation table 5)"

definition allocators_are_independent_and_start_at_protocol_conventional_values :: "'b bimap_ops \<Rightarrow> static_table \<Rightarrow> bool" where
  "allocators_are_independent_and_start_at_protocol_conventional_values B statics \<longleftrightarrow>
    (let table = st_new B statics;
         (h1, table) = allocate_host_id table;
         (h2, table) = allocate_host_id table;
         (g1, table) = allocate_guest_server_id table;
         (g2, table) = allocate_guest_server_id table
     in h1 = 2 \<and> h2 = 3 \<and> g1 = 0xff000000 \<and> g2 = 0xff000001)"

definition unallocate_host_id_gives_back_the_most_recent_allocation :: "'b bimap_ops \<Rightarrow> static_table \<Rightarrow> bool" where
  "unallocate_host_id_gives_back_the_most_recent_allocation B statics \<longleftrightarrow>
    (let table = st_new B statics;
         (h1, table) = allocate_host_id table;
         (h2, table) = allocate_host_id table;
         table = unallocate_host_id 3 table
     in h1 = 2 \<and> h2 = 3 \<and> fst (allocate_host_id table) = 3)"

definition unallocate_host_id_is_a_no_op_for_anything_but_the_most_recent_allocation ::
    "'b bimap_ops \<Rightarrow> static_table \<Rightarrow> bool" where
  "unallocate_host_id_is_a_no_op_for_anything_but_the_most_recent_allocation B statics \<longleftrightarrow>
    (let table = st_new B statics;
         (_, table) = allocate_host_id table;
         (_, table) = allocate_host_id table;
         (_, table) = allocate_host_id table;
         table = unallocate_host_id 2 table;
         table = unallocate_host_id 3 table
     in fst (allocate_host_id table) = 5)"

text \<open>The allocator tests run on any map and any statics.\<close>

lemma allocator_tests:
  "bump_generation_resets_the_host_id_allocator B statics"
  "allocators_are_independent_and_start_at_protocol_conventional_values B statics"
  "unallocate_host_id_gives_back_the_most_recent_allocation B statics"
  "unallocate_host_id_is_a_no_op_for_anything_but_the_most_recent_allocation B statics"
  by (simp_all add: bump_generation_resets_the_host_id_allocator_def
      allocators_are_independent_and_start_at_protocol_conventional_values_def
      unallocate_host_id_gives_back_the_most_recent_allocation_def
      unallocate_host_id_is_a_no_op_for_anything_but_the_most_recent_allocation_def
      allocate_host_id_def allocate_guest_server_id_def unallocate_host_id_def st_new_def)

lemmas table_ops = st_new_def st_map_def bump_generation_def remove_guest_def is_current_generation_def
  st_interface_def host_id_def guest_id_def FAKE_INTERFACE_def

context bimap
begin

lemma translation_tests:
  "translates_in_both_directions_even_when_ids_differ B statics"
  "null_object_id_translates_to_itself_both_ways B statics"
  "untracked_id_fails_to_translate B statics"
  "remove_guest_forgets_both_directions_and_interface B statics"
  "remove_guest_forgets_generation_too B statics"
  by (simp_all add: translates_in_both_directions_even_when_ids_differ_def
      null_object_id_translates_to_itself_both_ways_def untracked_id_fails_to_translate_def
      remove_guest_forgets_both_directions_and_interface_def remove_guest_forgets_generation_too_def
      table_ops bimap_simps)

lemma generation_tests:
  "mapping_belongs_to_the_generation_it_was_mapped_in B statics"
  "stale_generation_mapping_refuses_to_translate B statics"
  "wl_display_survives_a_generation_bump_without_being_remapped B statics"
  "untracked_id_is_never_current_generation B statics"
  by (simp_all add: mapping_belongs_to_the_generation_it_was_mapped_in_def
      stale_generation_mapping_refuses_to_translate_def
      wl_display_survives_a_generation_bump_without_being_remapped_def
      untracked_id_is_never_current_generation_def table_ops bimap_simps Let_def)

lemma preseeded_test:
  assumes "statics_named statics"
  shows "wl_display_is_preseeded_as_1_to_1 B statics"
proof -
  have "if_name (statics ''core::WL_DISPLAY_INTERFACE'') = ''wl_display''"
    using assms by (auto simp: statics_named_def interface_table_def core_interfaces_def)
  then show ?thesis
    by (simp add: wl_display_is_preseeded_as_1_to_1_def table_ops bimap_simps wl_display_interface_def)
qed

end

section \<open>Recipes\<close>

definition records_and_retrieves_a_recipe :: bool where
  "records_and_retrieves_a_recipe \<longleftrightarrow>
    (let graph = graph_new;
         graph = record_recipe 5 (RSurface 3) graph
     in case recipe_for graph 5 of Some (RSurface parent) \<Rightarrow> parent = 3 | _ \<Rightarrow> False)"

definition records_and_retrieves_a_seat_device_recipe :: bool where
  "records_and_retrieves_a_seat_device_recipe \<longleftrightarrow>
    (let graph = graph_new;
         graph = record_recipe 6 (RSeatDevice 4 SeatKeyboard) graph
     in case recipe_for graph 6 of Some (RSeatDevice seat kind) \<Rightarrow> seat = 4 \<and> kind = SeatKeyboard | _ \<Rightarrow> False)"

definition seat_device_kind_request_names_match_the_wl_seat_protocol :: bool where
  "seat_device_kind_request_names_match_the_wl_seat_protocol \<longleftrightarrow>
    request_name SeatPointer = ''get_pointer'' \<and> request_name SeatKeyboard = ''get_keyboard'' \<and>
    request_name SeatTouch = ''get_touch''"

definition update_viewport_destination_mutates_the_existing_recipe_in_place :: bool where
  "update_viewport_destination_mutates_the_existing_recipe_in_place \<longleftrightarrow>
    (let graph = graph_new;
         graph = record_recipe 7 (RViewport 3 6 None) graph;
         graph = update_viewport_destination 7 348 269 graph
     in case recipe_for graph 7 of
          Some (RViewport viewporter surface destination) \<Rightarrow>
            viewporter = 3 \<and> surface = 6 \<and> destination = Some (348, 269)
        | _ \<Rightarrow> False)"

definition records_and_retrieves_a_fractional_scale_recipe :: bool where
  "records_and_retrieves_a_fractional_scale_recipe \<longleftrightarrow>
    (let graph = graph_new;
         graph = record_recipe 8 (RFractionalScale 3 6) graph
     in case recipe_for graph 8 of Some (RFractionalScale manager surface) \<Rightarrow> manager = 3 \<and> surface = 6 | _ \<Rightarrow> False)"

definition remove_forgets_the_recipe :: bool where
  "remove_forgets_the_recipe \<longleftrightarrow>
    (let graph = graph_new;
         graph = record_recipe 5 (RGlobal FAKE_INTERFACE 1) graph;
         graph = remove_recipes 5 graph
     in recipe_for graph 5 = None)"

definition update_shm_pool_size_mutates_the_existing_recipe_in_place :: "fd \<Rightarrow> bool" where
  "update_shm_pool_size_mutates_the_existing_recipe_in_place f \<longleftrightarrow>
    (let graph = graph_new;
         graph = record_recipe 5 (RShmPool 2 f 4096) graph;
         graph = update_shm_pool_size 5 8192 graph
     in case recipe_for graph 5 of Some (RShmPool shm _ n) \<Rightarrow> n = 8192 \<and> shm = 2 | _ \<Rightarrow> False)"

definition update_shm_pool_size_is_a_no_op_for_an_untracked_or_wrong_shaped_id :: bool where
  "update_shm_pool_size_is_a_no_op_for_an_untracked_or_wrong_shaped_id \<longleftrightarrow>
    (let graph = graph_new;
         graph = record_recipe 5 (RSurface 3) graph;
         graph = update_shm_pool_size 5 8192 graph;
         graph = update_shm_pool_size 999 8192 graph
     in case recipe_for graph 5 of Some (RSurface parent) \<Rightarrow> parent = 3 | _ \<Rightarrow> False)"

definition update_toplevel_title_and_app_id_mutate_the_existing_recipe_in_place :: bool where
  "update_toplevel_title_and_app_id_mutate_the_existing_recipe_in_place \<longleftrightarrow>
    (let graph = graph_new;
         graph = record_recipe 5 (RXdgToplevel 3 None None) graph;
         graph = update_toplevel_title 5 ''wl-res test'' graph;
         graph = update_toplevel_app_id 5 ''org.example.Test'' graph
     in case recipe_for graph 5 of
          Some (RXdgToplevel parent title app) \<Rightarrow>
            parent = 3 \<and> title = Some ''wl-res test'' \<and> app = Some ''org.example.Test''
        | _ \<Rightarrow> False)"

definition update_toplevel_title_is_a_no_op_for_an_untracked_or_wrong_shaped_id :: bool where
  "update_toplevel_title_is_a_no_op_for_an_untracked_or_wrong_shaped_id \<longleftrightarrow>
    (let graph = graph_new;
         graph = record_recipe 5 (RSurface 3) graph;
         graph = update_toplevel_title 5 ''should not apply'' graph;
         graph = update_toplevel_app_id 999 ''also should not apply'' graph
     in case recipe_for graph 5 of Some (RSurface parent) \<Rightarrow> parent = 3 | _ \<Rightarrow> False)"

definition untracked_id_has_no_recipe :: bool where
  "untracked_id_has_no_recipe \<longleftrightarrow> (let graph = graph_new in recipe_for graph 999 = None)"

definition records_and_retrieves_a_dmabuf_buffer_recipe_with_its_planes :: "fd \<Rightarrow> bool" where
  "records_and_retrieves_a_dmabuf_buffer_recipe_with_its_planes f \<longleftrightarrow>
    (let graph = graph_new;
         graph = record_recipe 11 (RDmabufBuffer 9 64 64 0 0
           [\<lparr>plane_fd = f, plane_idx = 0, plane_offset = 0, plane_stride = 256, plane_modifier = 0xAABBCCDDEEFF0011\<rparr>]) graph
     in case recipe_for graph 11 of
          Some (RDmabufBuffer dmabuf w h _ _ planes) \<Rightarrow>
            dmabuf = 9 \<and> w = 64 \<and> h = 64 \<and> length planes = 1 \<and> plane_modifier (planes ! 0) = 0xAABBCCDDEEFF0011
        | _ \<Rightarrow> False)"

lemmas recipe_ops = Let_def update_viewport_destination_def update_shm_pool_size_def update_toplevel_title_def
  update_toplevel_app_id_def update_recipe_def update_last_def record_recipe_def graph_new_def recipe_for_def

lemma recipe_tests:
  "records_and_retrieves_a_recipe" "records_and_retrieves_a_seat_device_recipe"
  "seat_device_kind_request_names_match_the_wl_seat_protocol" "records_and_retrieves_a_fractional_scale_recipe"
  "remove_forgets_the_recipe" "untracked_id_has_no_recipe"
  "records_and_retrieves_a_dmabuf_buffer_recipe_with_its_planes f"
  by (simp_all add: Let_def records_and_retrieves_a_recipe_def records_and_retrieves_a_seat_device_recipe_def
      seat_device_kind_request_names_match_the_wl_seat_protocol_def
      records_and_retrieves_a_fractional_scale_recipe_def remove_forgets_the_recipe_def untracked_id_has_no_recipe_def
      records_and_retrieves_a_dmabuf_buffer_recipe_with_its_planes_def)

lemma recipe_update_tests:
  "update_viewport_destination_mutates_the_existing_recipe_in_place"
  "update_shm_pool_size_mutates_the_existing_recipe_in_place f"
  "update_shm_pool_size_is_a_no_op_for_an_untracked_or_wrong_shaped_id"
  "update_toplevel_title_and_app_id_mutate_the_existing_recipe_in_place"
  "update_toplevel_title_is_a_no_op_for_an_untracked_or_wrong_shaped_id"
  by (simp_all add: recipe_ops update_viewport_destination_mutates_the_existing_recipe_in_place_def
      update_shm_pool_size_mutates_the_existing_recipe_in_place_def
      update_shm_pool_size_is_a_no_op_for_an_untracked_or_wrong_shaped_id_def
      update_toplevel_title_and_app_id_mutate_the_existing_recipe_in_place_def
      update_toplevel_title_is_a_no_op_for_an_untracked_or_wrong_shaped_id_def)

end
