(* ===== verification/CodecTests.thy ===== *)
theory CodecTests
  imports Signature DesktopApps Startup
begin

text \<open>
  The unit tests of the stateless modules: \<open>src/wire.rs\<close>, the signature walk of \<open>src/lib.rs\<close>,
  \<open>src/interfaces.rs\<close>, \<open>src/desktop_apps.rs\<close> and \<open>src/cli.rs\<close>, as predicates (see \<open>StateTests\<close>).
  The model passes them for both byte orders and for every table of statics that are named as documented.
  A scratch directory is its listing; that a flag unknown to the derived parser is refused is a fact about
  \<open>clap\<close> and has no counterpart.
\<close>

section \<open>Framing\<close>

definition test_message :: "endianness \<Rightarrow> u32 \<Rightarrow> u16 \<Rightarrow> byte list \<Rightarrow> byte list" where
  "test_message en sender opc body =
    (let len = (word_of_nat (HEADER_LEN + length body) :: u16);
         msg = [];
         msg = msg @ to_ne_bytes en sender;
         msg = msg @ to_ne_bytes en (push_bit 16 (ucast len) OR ucast opc)
     in msg @ body)"

text \<open>The tests frame their messages the way the probes and the relay do.\<close>

lemma test_message_eq: "test_message en sender opc body = build_message en sender opc body"
  by (simp add: test_message_def build_message_def put_u32_def Let_def)

definition parses_header_fields :: "endianness \<Rightarrow> bool" where
  "parses_header_fields en \<longleftrightarrow>
    (let msg = test_message en 42 3 [1, 2, 3, 4]
     in case parse_header en msg of
          None \<Rightarrow> False
        | Some header \<Rightarrow> sender_id header = 42 \<and> opcode header = 3 \<and> message_len header = HEADER_LEN + 4)"

definition parse_returns_none_on_short_buffer :: "endianness \<Rightarrow> bool" where
  "parse_returns_none_on_short_buffer en \<longleftrightarrow>
    parse_header en (replicate 7 0) = None \<and> parse_header en [] = None"

definition read_and_write_sender_id_round_trip :: "endianness \<Rightarrow> bool" where
  "read_and_write_sender_id_round_trip en \<longleftrightarrow>
    (let msg = test_message en 1 0 []
     in read_sender_id en msg = Some 1 \<and>
        (case write_sender_id en msg 999 of
           Inl _ \<Rightarrow> False
         | Inr msg \<Rightarrow>
            read_sender_id en msg = Some 999 \<and>
            (case parse_header en msg of
               None \<Rightarrow> False
             | Some header \<Rightarrow> opcode header = 0 \<and> message_len header = HEADER_LEN)))"

definition write_sender_id_rejects_too_short_buffer :: "endianness \<Rightarrow> bool" where
  "write_sender_id_rejects_too_short_buffer en \<longleftrightarrow>
    (let buf = replicate 3 0 in case write_sender_id en buf 5 of Inl _ \<Rightarrow> True | Inr _ \<Rightarrow> False)"

definition take_message_splits_exactly_one_message_from_a_longer_buffer :: "endianness \<Rightarrow> bool" where
  "take_message_splits_exactly_one_message_from_a_longer_buffer en \<longleftrightarrow>
    (let buf = test_message en 1 0 [9, 9];
         buf = buf @ test_message en 2 1 []
     in case take_message en buf of
          None \<Rightarrow> False
        | Some (first1, consumed) \<Rightarrow>
            consumed = HEADER_LEN + 2 \<and> read_sender_id en first1 = Some 1 \<and>
            (case take_message en (drop consumed buf) of
               None \<Rightarrow> False
             | Some (second, consumed2) \<Rightarrow> consumed2 = HEADER_LEN \<and> read_sender_id en second = Some 2))"

definition take_message_returns_none_when_incomplete :: "endianness \<Rightarrow> bool" where
  "take_message_returns_none_when_incomplete en \<longleftrightarrow>
    (let full = test_message en 1 0 [1, 2, 3, 4]
     in take_message en (take (HEADER_LEN + 2) full) = None \<and> take_message en (take 5 full) = None)"

lemma framing_tests:
  "parses_header_fields en" "parse_returns_none_on_short_buffer en" "read_and_write_sender_id_round_trip en"
  "write_sender_id_rejects_too_short_buffer en" "take_message_splits_exactly_one_message_from_a_longer_buffer en"
  "take_message_returns_none_when_incomplete en"
  by (induction en; code_simp)+

section \<open>The signature walk\<close>

definition push_u32 :: "endianness \<Rightarrow> byte list \<Rightarrow> u32 \<Rightarrow> byte list" where
  "push_u32 en buf v = buf @ to_ne_bytes en v"

text \<open>\<open>while buf.len() % 4 != 0\<close>: at most three rounds.\<close>

function pad_to_4 :: "byte list \<Rightarrow> byte list" where
  "pad_to_4 buf = (if length buf mod 4 = 0 then buf else pad_to_4 (buf @ [0]))"
  by pat_completeness auto

termination
proof (relation "measure (\<lambda>buf. 3 - (length buf + 3) mod 4)")
  fix buf :: "byte list"
  assume "length buf mod 4 \<noteq> 0"
  then show "(buf @ [0], buf) \<in> measure (\<lambda>buf. 3 - (length buf + 3) mod 4)" by simp presburger
qed simp

declare pad_to_4.simps [simp del]

definition push_str :: "endianness \<Rightarrow> byte list \<Rightarrow> string \<Rightarrow> byte list" where
  "push_str en buf s =
    (let len = (word_of_nat (length s) :: u32) + 1;
         buf = push_u32 en buf len;
         buf = buf @ bytes_of s;
         buf = buf @ [0]
     in pad_to_4 buf)"

definition walk_signature_locates_new_id_and_counts_fds :: "endianness \<Rightarrow> bool" where
  "walk_signature_locates_new_id_and_counts_fds en \<longleftrightarrow>
    (let payload = push_u32 en [] 42
     in case walk_signature en payload [ATNewId] of
          Inl _ \<Rightarrow> False
        | Inr walk \<Rightarrow> new_id_offset walk = Some 0 \<and> fd_count walk = 0 \<and> object_offsets walk = [])"

definition walk_signature_locates_every_object_argument :: "endianness \<Rightarrow> bool" where
  "walk_signature_locates_every_object_argument en \<longleftrightarrow>
    (let payload = push_u32 en [] 10;
         payload = push_u32 en payload 11;
         payload = push_u32 en payload 12;
         payload = push_u32 en payload 99;
         sig = [ATObject AllowNullYes, ATObject AllowNullNo, ATObject AllowNullYes, ATUint]
     in case walk_signature en payload sig of
          Inl _ \<Rightarrow> False
        | Inr walk \<Rightarrow> object_offsets walk = [0, 4, 8] \<and> new_id_offset walk = None)"

definition walk_signature_finds_bind_style_dynamic_interface :: "endianness \<Rightarrow> bool" where
  "walk_signature_finds_bind_style_dynamic_interface en \<longleftrightarrow>
    (let payload = push_u32 en [] 5;
         payload = push_str en payload ''wl_compositor'';
         payload = push_u32 en payload 4;
         expected = length payload;
         payload = push_u32 en payload 0;
         sig = [ATUint, ATStr AllowNullNo, ATUint, ATNewId]
     in case walk_signature en payload sig of
          Inl _ \<Rightarrow> False
        | Inr walk \<Rightarrow> new_id_offset walk = Some expected \<and>
            dynamic_interface_name walk = Some ''wl_compositor'' \<and> fd_count walk = 0)"

definition walk_signature_counts_fd_args_without_advancing_offset :: "endianness \<Rightarrow> bool" where
  "walk_signature_counts_fd_args_without_advancing_offset en \<longleftrightarrow>
    (let payload = push_u32 en [] 0;
         payload = push_u32 en payload 4096;
         sig = [ATNewId, ATFd, ATInt]
     in case walk_signature en payload sig of
          Inl _ \<Rightarrow> False
        | Inr walk \<Rightarrow> fd_count walk = 1 \<and> new_id_offset walk = Some 0)"

definition walk_signature_rejects_truncated_payload :: "endianness \<Rightarrow> bool" where
  "walk_signature_rejects_truncated_payload en \<longleftrightarrow>
    (let payload = replicate 2 0
     in case walk_signature en payload [ATUint] of Inl _ \<Rightarrow> True | Inr _ \<Rightarrow> False)"

lemma walk_tests:
  "walk_signature_locates_new_id_and_counts_fds en" "walk_signature_locates_every_object_argument en"
  "walk_signature_finds_bind_style_dynamic_interface en"
  "walk_signature_counts_fd_args_without_advancing_offset en" "walk_signature_rejects_truncated_payload en"
  by (induction en; code_simp)+

definition FAKE_CHILD_INTERFACE :: interface where
  "FAKE_CHILD_INTERFACE = Interface ''fake_child'' 3 [] []"

definition bind_desc :: message_desc where
  "bind_desc = MessageDesc ''bind'' False [ATUint, ATStr AllowNullNo, ATUint, ATNewId] None"

definition resolve_child_interface_prefers_static_declaration :: "static_table \<Rightarrow> bool" where
  "resolve_child_interface_prefers_static_declaration sts \<longleftrightarrow>
    (let desc = MessageDesc ''get_thing'' False [ATNewId] (Some FAKE_CHILD_INTERFACE)
     in case resolve_child_interface sts desc None of
          None \<Rightarrow> False
        | Some (iface, version) \<Rightarrow> if_name iface = ''fake_child'' \<and> version = 3)"

definition resolve_child_interface_falls_back_to_dynamic_name :: "static_table \<Rightarrow> bool" where
  "resolve_child_interface_falls_back_to_dynamic_name sts \<longleftrightarrow>
    (let desc = bind_desc
     in case resolve_child_interface sts desc (Some ''wl_shm'') of
          None \<Rightarrow> False
        | Some (iface, _) \<Rightarrow> if_name iface = ''wl_shm'')"

definition resolve_child_interface_returns_none_for_unknown_dynamic_name :: "static_table \<Rightarrow> bool" where
  "resolve_child_interface_returns_none_for_unknown_dynamic_name sts \<longleftrightarrow>
    (let desc = bind_desc
     in resolve_child_interface sts desc (Some ''not_a_real_interface'') = None)"

section \<open>The interface table\<close>

definition resolves_to_its_name :: "static_table \<Rightarrow> string \<Rightarrow> bool" where
  "resolves_to_its_name sts name \<longleftrightarrow>
    (case lookup_interface sts name of None \<Rightarrow> False | Some iface \<Rightarrow> if_name iface = name)"

definition known_core_interfaces_resolve :: "static_table \<Rightarrow> bool" where
  "known_core_interfaces_resolve sts \<longleftrightarrow>
    list_all (resolves_to_its_name sts)
      [''wl_display'', ''wl_registry'', ''wl_callback'', ''wl_compositor'', ''wl_surface'', ''wl_shm'', ''wl_seat'']"

definition known_xdg_shell_interfaces_resolve :: "static_table \<Rightarrow> bool" where
  "known_xdg_shell_interfaces_resolve sts \<longleftrightarrow>
    list_all (resolves_to_its_name sts)
      [''xdg_wm_base'', ''xdg_surface'', ''xdg_toplevel'', ''xdg_popup'', ''xdg_positioner'']"

definition unknown_interface_returns_none :: "static_table \<Rightarrow> bool" where
  "unknown_interface_returns_none sts \<longleftrightarrow>
    lookup_interface sts ''not_a_real_interface'' = None \<and>
    lookup_interface sts ''not_a_real_but_zwlr_shaped_v1'' = None"

definition resolves_every_global_observed_from_real_labwc :: "static_table \<Rightarrow> bool" where
  "resolves_every_global_observed_from_real_labwc sts \<longleftrightarrow>
    list_all (\<lambda>name. lookup_interface sts name \<noteq> None) observed_globals"

definition resolves_every_global_observed_from_real_kwin :: "static_table \<Rightarrow> bool" where
  "resolves_every_global_observed_from_real_kwin sts \<longleftrightarrow>
    list_all (\<lambda>name. lookup_interface sts name \<noteq> None) kwin_observed_globals"

definition resolves_every_global_observed_from_real_mutter :: "static_table \<Rightarrow> bool" where
  "resolves_every_global_observed_from_real_mutter sts \<longleftrightarrow>
    list_all (\<lambda>name. lookup_interface sts name \<noteq> None) mutter_observed_globals"

text \<open>The names the tests expect are listed, the others are not; the rest is that of the statics.\<close>

lemma listed_names:
  "list_all (\<lambda>n. List.member (map fst interface_table) n)
     [''wl_display'', ''wl_registry'', ''wl_callback'', ''wl_compositor'', ''wl_surface'', ''wl_shm'', ''wl_seat'',
      ''xdg_wm_base'', ''xdg_surface'', ''xdg_toplevel'', ''xdg_popup'', ''xdg_positioner'']"
  by code_simp

lemma unlisted_names:
  "map_of interface_table ''not_a_real_interface'' = None"
  "map_of interface_table ''not_a_real_but_zwlr_shaped_v1'' = None"
  by code_simp+

lemma listed_resolves:
  assumes "statics_named sts" "name \<in> set (map fst interface_table)"
  shows "resolves_to_its_name sts name"
proof -
  obtain path where "map_of interface_table name = Some path"
    using assms(2) by (cases "map_of interface_table name") (auto simp: map_of_eq_None_iff)
  then have "lookup_interface sts name = Some (sts path)" by (simp add: lookup_interface_def)
  with lookup_interface_name [OF assms(1) this] show ?thesis by (simp add: resolves_to_its_name_def)
qed

lemma interface_tests:
  assumes "statics_named sts"
  shows "known_core_interfaces_resolve sts" "known_xdg_shell_interfaces_resolve sts"
    and "resolves_every_global_observed_from_real_labwc sts"
    and "resolves_every_global_observed_from_real_kwin sts"
    and "resolves_every_global_observed_from_real_mutter sts"
    and "unknown_interface_returns_none sts"
  using listed_resolves [OF assms] listed_names observed_in_table
  by (auto simp: known_core_interfaces_resolve_def known_xdg_shell_interfaces_resolve_def
      resolves_every_global_observed_from_real_labwc_def resolves_every_global_observed_from_real_kwin_def
      resolves_every_global_observed_from_real_mutter_def unknown_interface_returns_none_def
      unlisted_names lookup_interface_def list_all_iff resolves_to_its_name_def map_of_eq_None_iff)

lemma resolve_tests:
  assumes "statics_named sts"
  shows "resolve_child_interface_prefers_static_declaration sts"
    and "resolve_child_interface_falls_back_to_dynamic_name sts"
    and "resolve_child_interface_returns_none_for_unknown_dynamic_name sts"
  using listed_resolves [OF assms, of "''wl_shm''"] listed_names
  by (auto simp: resolve_child_interface_prefers_static_declaration_def
      resolve_child_interface_falls_back_to_dynamic_name_def
      resolve_child_interface_returns_none_for_unknown_dynamic_name_def
      resolve_child_interface_def FAKE_CHILD_INTERFACE_def bind_desc_def Let_def resolves_to_its_name_def
      lookup_interface_def unlisted_names split: option.splits)

section \<open>Desktop files\<close>

type_synonym scratch_dir = "(string \<times> byte list option) list"

definition scratch_new :: scratch_dir where
  "scratch_new = []"

definition scratch_write :: "string \<Rightarrow> string \<Rightarrow> scratch_dir \<Rightarrow> scratch_dir" where
  "scratch_write filename content dir = hm_insert filename (Some (bytes_of content)) dir"

text \<open>Lines joined with the newline each of them ends in.\<close>

definition text_of :: "string list \<Rightarrow> string" where
  "text_of ls = concat (map (\<lambda>l. l @ [CHR 0x0A]) ls)"

definition resolves_a_plain_exec_by_binary_name :: bool where
  "resolves_a_plain_exec_by_binary_name \<longleftrightarrow>
    (let dir = scratch_new;
         dir = scratch_write ''com.gexperts.Tilix.desktop''
           (text_of [''[Desktop Entry]'', ''Name=Tilix'', ''Exec=tilix'', ''Type=Application'']) dir;
         index = build_from_dirs [Some dir]
     in resolve_by_binary index ''tilix'' = Some ''com.gexperts.Tilix'' \<and>
        has_id index ''com.gexperts.Tilix'' \<and> \<not> has_id index ''tilix'')"

definition ignores_exec_under_a_desktop_action_group :: bool where
  "ignores_exec_under_a_desktop_action_group \<longleftrightarrow>
    (let dir = scratch_new;
         dir = scratch_write ''org.gnome.Nautilus.desktop''
           (text_of [''[Desktop Entry]'', ''Name=Files'', ''Exec=nautilus --new-window %U'', ''Type=Application'', '''',
             ''[Desktop Action new-window]'', ''Name=New Window'', ''Exec=nautilus --new-window'']) dir;
         index = build_from_dirs [Some dir]
     in resolve_by_binary index ''nautilus'' = Some ''org.gnome.Nautilus'')"

definition strips_path_and_arguments_from_exec :: bool where
  "strips_path_and_arguments_from_exec \<longleftrightarrow>
    (let dir = scratch_new;
         dir = scratch_write ''org.example.Foo.desktop''
           (text_of [''[Desktop Entry]'', ''Exec=/usr/bin/foo --flag arg'', ''Type=Application'']) dir;
         index = build_from_dirs [Some dir]
     in resolve_by_binary index ''foo'' = Some ''org.example.Foo'')"

definition unknown_binary_and_unknown_id_both_resolve_to_nothing :: bool where
  "unknown_binary_and_unknown_id_both_resolve_to_nothing \<longleftrightarrow>
    (let dir = scratch_new;
         dir = scratch_write ''org.example.Foo.desktop'' (text_of [''[Desktop Entry]'', ''Exec=foo'']) dir;
         index = build_from_dirs [Some dir]
     in resolve_by_binary index ''not-installed'' = None \<and> \<not> has_id index ''not.installed'')"

definition first_directory_wins_on_a_binary_name_collision :: bool where
  "first_directory_wins_on_a_binary_name_collision \<longleftrightarrow>
    (let dir1 = scratch_new;
         dir2 = scratch_new;
         dir1 = scratch_write ''first.desktop'' (text_of [''[Desktop Entry]'', ''Exec=shared-binary'']) dir1;
         dir2 = scratch_write ''second.desktop'' (text_of [''[Desktop Entry]'', ''Exec=shared-binary'']) dir2;
         index = build_from_dirs [Some dir1, Some dir2]
     in resolve_by_binary index ''shared-binary'' = Some ''first'')"

definition non_desktop_files_are_ignored :: bool where
  "non_desktop_files_are_ignored \<longleftrightarrow>
    (let dir = scratch_new;
         dir = scratch_write ''not-a-desktop-file.txt'' (text_of [''[Desktop Entry]'', ''Exec=should-not-appear'']) dir;
         index = build_from_dirs [Some dir]
     in resolve_by_binary index ''should-not-appear'' = None)"

text \<open>Decoding plain ASCII changes nothing, so the tests are decided without a single byte operation.\<close>

definition ascii :: "string \<Rightarrow> bool" where
  "ascii s \<longleftrightarrow> list_all (\<lambda>c. \<not> digit7 c) s"

lemma from_utf8_ascii: "ascii s \<Longrightarrow> from_utf8 (bytes_of s) = Some s"
proof -
  assume "ascii s"
  moreover have "(word_of_nat (of_char c) :: byte) < 0x80" if "\<not> digit7 c" for c
  proof -
    have "(of_char c :: nat) < 128" using that by (cases c) (auto simp: of_char_def split: if_splits)
    then show ?thesis by (simp add: word_less_nat_alt unat_of_nat)
  qed
  ultimately show ?thesis
    by (intro from_utf8_bytes_of valid_utf8_ascii) (auto simp: ascii_def bytes_of_def list_all_iff)
qed

text \<open>A file that declares a program for a desktop id.\<close>

definition declares :: "string \<Rightarrow> string \<Rightarrow> string \<Rightarrow> string \<Rightarrow> bool" where
  "declares name content app binary \<longleftrightarrow>
    split_extension name = (app, Some ''desktop'') \<and>
    Option.bind (Option.bind (main_entry_exec content) first_token) file_name = Some binary \<and>
    ascii app \<and> ascii content \<and> ascii binary"

lemma add_declared:
  assumes "declares name content app binary"
  shows "add_entry (name, Some (bytes_of content)) idx =
    \<lparr>app_ids = List.insert app (app_ids idx),
     by_binary = (case hm_get (by_binary idx) binary of None \<Rightarrow> hm_insert binary app (by_binary idx) | Some _ \<Rightarrow> by_binary idx)\<rparr>"
proof -
  have "Option.bind (Option.bind (Option.bind (Some (bytes_of content)) from_utf8) main_entry_exec) exec_binary_name = Some binary"
    using assms by (auto simp: declares_def from_utf8_ascii exec_binary_name_def to_str_def split: bind_splits)
  then show ?thesis using assms
    by (simp add: add_entry_def declares_def from_utf8_ascii to_str_def Let_def del: Option.bind.bind_lunit split: option.split)
qed

lemma index_of_one:
  "declares name content app binary \<Longrightarrow>
   build_from_dirs [Some (scratch_write name content scratch_new)] = \<lparr>app_ids = [app], by_binary = [(binary, app)]\<rparr>"
  by (simp add: build_from_dirs_def scratch_write_def scratch_new_def hm_insert_def add_declared)

lemma sample_files:
  "declares ''com.gexperts.Tilix.desktop''
     (text_of [''[Desktop Entry]'', ''Name=Tilix'', ''Exec=tilix'', ''Type=Application'']) ''com.gexperts.Tilix'' ''tilix''"
  "declares ''org.gnome.Nautilus.desktop''
     (text_of [''[Desktop Entry]'', ''Name=Files'', ''Exec=nautilus --new-window %U'', ''Type=Application'', '''',
       ''[Desktop Action new-window]'', ''Name=New Window'', ''Exec=nautilus --new-window'']) ''org.gnome.Nautilus'' ''nautilus''"
  "declares ''org.example.Foo.desktop''
     (text_of [''[Desktop Entry]'', ''Exec=/usr/bin/foo --flag arg'', ''Type=Application'']) ''org.example.Foo'' ''foo''"
  "declares ''org.example.Foo.desktop'' (text_of [''[Desktop Entry]'', ''Exec=foo'']) ''org.example.Foo'' ''foo''"
  "declares ''first.desktop'' (text_of [''[Desktop Entry]'', ''Exec=shared-binary'']) ''first'' ''shared-binary''"
  "declares ''second.desktop'' (text_of [''[Desktop Entry]'', ''Exec=shared-binary'']) ''second'' ''shared-binary''"
  by code_simp+

lemma desktop_tests:
  "resolves_a_plain_exec_by_binary_name" "ignores_exec_under_a_desktop_action_group"
  "strips_path_and_arguments_from_exec" "unknown_binary_and_unknown_id_both_resolve_to_nothing"
  by (simp_all add: resolves_a_plain_exec_by_binary_name_def ignores_exec_under_a_desktop_action_group_def
      strips_path_and_arguments_from_exec_def unknown_binary_and_unknown_id_both_resolve_to_nothing_def
      index_of_one [OF sample_files(1)] index_of_one [OF sample_files(2)] index_of_one [OF sample_files(3)]
      index_of_one [OF sample_files(4)] Let_def resolve_by_binary_def has_id_def hm_get_def)

lemma collision_test: "first_directory_wins_on_a_binary_name_collision"
  by (simp add: first_directory_wins_on_a_binary_name_collision_def build_from_dirs_def scratch_write_def scratch_new_def
      hm_insert_def hm_get_def add_declared [OF sample_files(5)] add_declared [OF sample_files(6)] resolve_by_binary_def)

lemma other_files_test: "non_desktop_files_are_ignored"
proof -
  have "split_extension ''not-a-desktop-file.txt'' = (''not-a-desktop-file'', Some ''txt'')" by code_simp
  then show ?thesis
    by (simp add: non_desktop_files_are_ignored_def build_from_dirs_def scratch_write_def scratch_new_def hm_insert_def
        hm_get_def add_entry_def resolve_by_binary_def)
qed

text \<open>\<open>/proc/<pid>/exe\<close> of the running process is the link that \<open>current_exe\<close> reads.\<close>

definition binary_name_for_pid_resolves_this_own_test_process ::
    "(int \<Rightarrow> string option) \<Rightarrow> int \<Rightarrow> string option \<Rightarrow> bool" where
  "binary_name_for_pid_resolves_this_own_test_process link pid current_exe \<longleftrightarrow>
    (case current_exe of
       None \<Rightarrow> False
     | Some expected \<Rightarrow>
        (case Option.bind (file_name expected) to_str of
           None \<Rightarrow> False
         | Some expected_name \<Rightarrow> binary_name_for_pid link pid = Some expected_name))"

lemma own_process_test:
  "current_exe = link pid \<Longrightarrow> Option.bind current_exe file_name = Some name \<Longrightarrow> to_str name \<noteq> None \<Longrightarrow>
   binary_name_for_pid_resolves_this_own_test_process link pid current_exe"
  by (auto simp: binary_name_for_pid_resolves_this_own_test_process_def binary_name_for_pid_def
      split: option.splits bind_splits)

section \<open>Settings\<close>

definition defaults_with_no_args :: bool where
  "defaults_with_no_args \<longleftrightarrow>
    (let c = cli_parse (\<lambda>_. None) (\<lambda>_. None)
     in cli_display c = ''wayland-1'' \<and> cli_record c = None \<and> cli_log_level c = ''info'' \<and>
        cli_listen c = ''wayland-proxy-0'')"

definition flags_override_defaults :: "(string \<Rightarrow> string option) \<Rightarrow> bool" where
  "flags_override_defaults var \<longleftrightarrow>
    (let c = cli_parse [''display'' \<mapsto> ''wayland-2'', ''record'' \<mapsto> ''/tmp/rec.log'',
           ''log-level'' \<mapsto> ''wayland_proxy=debug'', ''listen'' \<mapsto> ''wayland-proxy-1''] var
     in cli_display c = ''wayland-2'' \<and> cli_record c = Some ''/tmp/rec.log'' \<and>
        cli_log_level c = ''wayland_proxy=debug'' \<and> cli_listen c = ''wayland-proxy-1'')"

lemma cli_tests: "defaults_with_no_args" "flags_override_defaults var"
  by (simp_all add: defaults_with_no_args_def flags_override_defaults_def cli_defaults cli_flags_win)

end
