(* ===== verification/Spec2Isabelle.thy ===== *)
theory Spec2Isabelle
  imports Samples Chunks Isolation Recorder Startup ProbeCuts ProbePass ProbeSamples StateTests CodecTests
begin

text \<open>
  wl-resprox is a Wayland proxy that outlives its compositor. A client (the sources call it GTK)
  talks to the proxy, the proxy to the compositor (the host). When the host dies the connection
  freezes; when it is back the proxy rebuilds, on the new host, the objects the client still
  believes in, and relays on. This library models the proxy's own code as HOL functions.

  Parts and theories. \<open>Protocol\<close>: the shapes of protocol descriptions and the opcode lookups of
  \<open>src/lib.rs\<close>. \<open>Wire\<close>: \<open>src/wire.rs\<close>, framing, argument encoder, readers. \<open>Interfaces\<close>:
  \<open>src/interfaces.rs\<close>, the table of interface names. \<open>Bimap\<close>: the contract of the bimap crate.
  \<open>ShadowTable\<close>: \<open>src/shadow_table.rs\<close>, client ids to host ids, per generation. \<open>Trackers\<close>:
  \<open>src/grab_state.rs\<close>, \<open>src/buffer_flow.rs\<close>, \<open>src/pending_frames.rs\<close>. \<open>Recreation\<close>:
  \<open>src/recreation.rs\<close>, the recipes. \<open>Clipboard\<close>: \<open>src/clipboard.rs\<close>. \<open>DesktopApps\<close>:
  \<open>src/desktop_apps.rs\<close>. \<open>Connection\<close>: \<open>src/fdsocket.rs\<close> and \<open>Conn\<close>. \<open>Signature\<close>:
  \<open>walk_signature\<close>. \<open>Phases\<close>: the shape of a handler that may stop early, with the rules that carry
  frame conditions through it. \<open>RelayState\<close> and \<open>Relay\<close>: \<open>relay_ready_messages\<close>, one definition
  for each stretch of its body, composed in the order of the source (\<open>relay_message\<close>). \<open>Recovery\<close>:
  \<open>recover_state_after_reconnect\<close> and \<open>synthesize_grab_releases\<close>, one definition for each arm of
  the match over the recipes. \<open>Session\<close>: \<open>run_connection\<close> as a step relation. \<open>Server\<close>:
  \<open>src/main.rs\<close>, the process with its listener, its clients and their shared clipboard, as a step
  relation over sessions. \<open>Handoff\<close>: \<open>src/bin/socket-handoff.rs\<close>, the helper that renames the
  compositor's socket while the compositor is halted. \<open>Recorder\<close>: \<open>src/recorder.rs\<close>. \<open>Startup\<close>:
  \<open>src/cli.rs\<close>, the start of the process and \<open>src/notify.rs\<close>.
  \<open>RelayFacts\<close>, \<open>RelayShape\<close>, \<open>Isolation\<close>, \<open>Recording\<close>, \<open>Chunks\<close>, \<open>RecoveryFacts\<close>, \<open>Rebuild\<close>, \<open>SessionFacts\<close> and \<open>SpliceFacts\<close>
  hold the lemmas of these; \<open>Samples\<close> the concrete connection the properties are applied to. \<open>StateTests\<close> and
  \<open>CodecTests\<close> are the unit tests of the sources, as predicates, with the proofs that the model passes them.

  The diagnostic clients under \<open>examples/\<close> are small programs on the same wire, one blocking socket each.
  \<open>ProbeClient\<close>: what they share, reading, writing, the waits. \<open>ProbeBind\<close>: \<open>probe_bind.rs\<close> and
  \<open>probe_create_pool_resize.rs\<close>. \<open>ProbeReconnect\<close>: \<open>probe_reconnect_resize.rs\<close>,
  \<open>probe_reconnect_resize_with_surface.rs\<close> and \<open>probe_dmabuf_reconnect.rs\<close>, which kill the compositor
  half way. \<open>ProbeClipboard\<close>: \<open>probe_clipboard_serial.rs\<close> and \<open>probe_clipboard_real_serial.rs\<close>.
  \<open>ProbeTools\<close>: \<open>probe_dmabuf.rs\<close> and \<open>src/bin/test-fixture-bind-and-check.rs\<close>, whose answer is
  composed with the log of the helper. A function that several of them repeat is defined once. \<open>ProbeRules\<close> has
  the rules for their phases, \<open>ProbeCuts\<close> what becomes of bytes that come behind the first answer, \<open>ProbePass\<close> what
  a PASS rests on, \<open>ProbeRetry\<close> the retries, \<open>ProbePaste\<close> who is given which descriptor, \<open>ProbeSamples\<close> the
  connections the properties are applied to.

  State. The record \<open>session\<close> is what \<open>run_connection\<close> owns: shadow table, recreation graph,
  trackers, pending dmabuf planes, reclaim state, with the shared clipboard cache, the detached
  tasks and the recorder's lines. \<open>relay_state\<close> adds the two connections of one pass (\<open>dst\<close> is
  \<open>None\<close> while frozen, as in the source), \<open>proxy\<close> both connections, the frozen flag and a count of
  notifications. \<open>env\<close> is what a connection only reads. Hash maps and sets are lists behind the
  operations of \<open>Prelude\<close>; an iteration order is a parameter wherever the code iterates one.

  The operating system is an explicit script. What \<open>recvmsg\<close> and \<open>sendmsg\<close> will answer is a list
  kept in the connection (\<open>conn\<close>), every accepted write is logged with its descriptors, and the
  steps of \<open>session_step\<close> let the environment append to the scripts, so every interleaving is a
  path. A timed wait ends at \<open>RecvStall\<close>. Loops over a script end because they consume it, the
  relay loop because every message has at least eight bytes: nothing needs fuel. The polling loops
  of the helper are partial functions over an infinite sequence of rounds; that they return by the
  deadline is a theorem. So is \<open>reconnect_with_backoff\<close>, which returns exactly when some attempt succeeds. A relay pass is one step of a connection: another connection's write to the
  shared clipboard comes between passes, not within one.

  Interfaces. Locales state what one part relies on: \<open>bimap\<close> (interpreted by a term model; the
  crate itself is a parameter of every theorem), \<open>id_translation\<close> (discharged for the shadow table
  by a sublocale), \<open>promise_tracker\<close> (interpreted by both trackers), \<open>framing\<close> (interpreted by each
  frame relation), \<open>relay_frame\<close> (what a relation needs to hold across a relay pass; generations and
  the clipboard), \<open>host_frame\<close> (the same for recovery; generations and, in \<open>Rebuild\<close>, the table),
  \<open>polling\<close> (a loop that stops at its deadline; both methods of the helper), \<open>trail\<close> (a list that the
  phases of a client add to; what it writes, what it takes off the stream, which descriptors it uses).

  What the properties show. C1 to C12: what one message does, on the forwarding path, on every
  dropping path, to the descriptors, to the allocator, to other objects, to the trackers and to the
  recipes, and that the cutting of the stream into reads does not matter. C13 to C18: a connection over
  its lifetime, by induction over its reachable states, and that a recovery on a willing compositor
  restores exactly the recorded objects that can be (\<open>rebuildable\<close> is the typing of a recipe against the interfaces of the new world, the
  proof a progress argument over the recorded order; C12 shows that what a request records has this type).
  C19 and C20: what recovery sends to the client.
  C21 to C23: the process. C24 to C26: the helper. C27 to C30: the wire. C31 to C33: the trackers, the
  tee and the recorder (the trackers against the flow of events that reaches them, \<open>flow_event\<close> and \<open>promise_event\<close>).
  C34 to C40: the diagnostic clients, what their verdicts rest on (\<open>earned\<close>, every wait between its
  request and the next step), that they end, and where they go wrong.

  Not modelled: log lines and the diagnostic decoding of \<open>wl_display.error\<close>; the recorder's
  file; a write cancelled by the five-second timeout; how the words of a command line become flags (generated by
  clap); of the diagnostic
  clients the text they print, beyond the reports, and a deadline so far away that it overflows the clock. Generated
  protocol tables, the bimap crate, GBM, the session bus and the kernel are parameters. The integration tests
  under \<open>tests/\<close>, which drive the proxy from a client and a fake compositor of the wayland-backend crate, have no
  counterpart.
\<close>

section \<open>Relaying one message\<close>

text \<open>C1: A forwarded message is translated, word by word. Its sender resolves to an object the proxy
  knows, and what is written to the other side, once, has the sender's counterpart as its sender,
  the translation of every object argument, the freshly allocated id in place of a new id, and
  every other byte unchanged. (The two messages whose plain bytes change, \<open>wl_display.delete_id\<close>
  and a client's \<open>xdg_toplevel.set_app_id\<close>, are exempt from the last part.)\<close>

theorem forwarded_message_translated:
  assumes "process_message env dir msg s = (d, s')" "d = Relayed \<or> d = DroppedFrozen"
  shows "\<exists>h ctx walk other fds msg'. parse_header (endian env) msg = Some h \<and>
    resolve_context env dir (objects s) h = Some ctx \<and>
    walk_signature (endian env) (drop HEADER_LEN msg) (signature (mc_desc ctx)) = Inr walk \<and>
    other_side_sender env dir (objects s') (mc_sender ctx) = Some other \<and>
    dst s' = map_option (\<lambda>c. snd (write_message msg' fds c)) (dst s) \<and> (d = Relayed \<longleftrightarrow> dst s \<noteq> None) \<and>
    (ordinary dir ctx \<longrightarrow> translated_message (endian env) (translate_id env dir (objects s)) walk other
       (fresh_id dir (objects s)) msg msg')"
  using assms(1)
proof (rule process_message_cases)
  fix h assume h: "parse_header (endian env) msg = Some h" and r: "relay_message env dir h msg s = (Inr d, s')"
  from h have "HEADER_LEN \<le> length msg" using parse_header_None_iff [of "endian env" msg] by (metis not_le option.distinct(1))
  with r show ?thesis
    by (rule relayed_shape) (use h in \<open>(intro exI conjI; assumption?)\<close>, auto)
next
  fix h assume "relay_message env dir h msg s = (Inl d, s')"
  then show ?thesis using relay_message_stopped(1) assms(2) by (fastforce simp: drop_outcomes_def)
qed (use assms(2) in auto)

lemma forwarded_message_translated_witness:
  "\<exists>msg' fds. dst (snd (process_message sample_env ClientToHost attach_message (sample_state []))) =
     map_option (\<lambda>c. snd (write_message msg' fds c)) (dst (sample_state []))"
  using forwarded_message_translated [OF run_attach [THEN pairI]] by blast

text \<open>C2: A message that is not relayed leaves the other side's connection alone: dropped, intercepted
  or frozen, not a byte and not a descriptor of it goes out.\<close>

theorem unrelayed_message_silent:
  assumes "process_message env dir msg s = (d, s')" "d \<noteq> Relayed"
  shows "dst s' = dst s"
  using assms(1)
proof (rule process_message_cases)
  fix h assume h: "parse_header (endian env) msg = Some h" and r: "relay_message env dir h msg s = (Inr d, s')"
  from h have "HEADER_LEN \<le> length msg" using parse_header_None_iff [of "endian env" msg] by (metis not_le option.distinct(1))
  with r show ?thesis by (rule relayed_shape) (use assms(2) in \<open>auto split: if_splits\<close>)
qed (auto dest: relay_message_stopped(2))

lemma unrelayed_message_silent_witness:
  "dst (snd (process_message sample_env ClientToHost create_pool_message (stale_state [3]))) = dst (stale_state [3])"
  by (rule unrelayed_message_silent [OF run_stale_pool [THEN pairI]]) simp

text \<open>C3: Host ids are handed out without a gap: a client's request uses up the next host id exactly when
  it creates an object and is passed on, to the host or, while the host is away, to nobody. One that is dropped
  uses up none, even when its new id had been mapped already, with a single exception: the
  roll-back misses the id of a malformed request that names its new object with the null id and comes from a
  sender the host does not know. (No request is called \<open>wl_display.delete_id\<close>.)\<close>

theorem requests_allocate_without_gaps:
  assumes "bimap (bim env)" "process_message env ClientToHost msg s = (d, s')"
    and "parse_header (endian env) msg = Some h" "resolve_context env ClientToHost (objects s) h = Some ctx"
    and "walk_signature (endian env) (drop HEADER_LEN msg) (signature (mc_desc ctx)) = Inr walk"
    and "\<not> is_message ctx ''wl_display'' ''delete_id''"
  shows "next_host_id (objects s') = next_host_id (objects s) +
    (if (d = Relayed \<or> d = DroppedFrozen) \<and> new_id_offset walk \<noteq> None \<or>
        d = DroppedNoSender \<and> null_new_id (endian env) walk msg \<and> next_host_id (objects s) \<noteq> 0 then 1 else 0)"
  using assms(2)
proof (rule process_message_cases)
  have l: "HEADER_LEN \<le> length msg"
    using assms(3) parse_header_None_iff [of "endian env" msg] by (metis not_le option.distinct(1))
  fix h' assume "parse_header (endian env) msg = Some h'"
  then have [simp]: "h' = h" using assms(3) by simp
  {
    assume r: "relay_message env ClientToHost h' msg s = (Inl d, s')"
    then have "drop_outcomes d" by (rule relay_message_stopped)
    with request_drop_keeps_allocator [OF assms(1) r l, of ctx walk] assms(4-6) show ?thesis
      by (auto simp: drop_outcomes_def)
  next
    assume r: "relay_message env ClientToHost h' msg s = (Inr d, s')"
    then have "d = Relayed \<or> d = DroppedFrozen" using l by (rule relayed_shape) auto
    then show ?thesis using relayed_request_allocates [OF _ assms(4,5) l] r by auto
  }
qed (use assms(3) in simp_all)

lemma requests_allocate_without_gaps_witness:
  "next_host_id (objects (snd (process_message sample_env ClientToHost create_pool_message (stale_state [3])))) =
     next_host_id (objects (stale_state [3]))"
  using requests_allocate_without_gaps [OF term_bimap_sample run_stale_pool [THEN pairI] pool_header_parsed pool_resolved(2) pool_walked]
  by (simp add: pool_not_delete pool_new_id null_new_id_def walk_pool_def)

text \<open>C4: A client's request disturbs no object it does not name. As long as the host ids in use are below the
  allocator (or in the range the host hands out), whether the request goes through, is dropped, or is rolled back and
  answered by the proxy, every id but the one it creates translates as before, every object but that and the sender
  keeps its interface, and the host ids in use are below the allocator again.\<close>

theorem requests_disturb_nothing_else:
  assumes "bimap (bim env)" "process_message env ClientToHost msg s = (d, s')"
    and "parse_header (endian env) msg = Some h" "resolve_context env ClientToHost (objects s) h = Some ctx"
    and "\<not> is_message ctx ''wl_display'' ''delete_id''"
    and "fresh_ids (bim env) (objects s)" "next_host_id (objects s) < 0xff000000"
  shows "fresh_ids (bim env) (objects s') \<and>
    (\<forall>g. created_id env msg ctx \<noteq> Some g \<longrightarrow>
       host_id (bim env) (objects s') g = host_id (bim env) (objects s) g \<and>
       (g \<noteq> sender_id h \<longrightarrow> st_interface (objects s') g = st_interface (objects s) g))"
proof -
  have l: "HEADER_LEN \<le> length msg"
    using assms(3) parse_header_None_iff [of "endian env" msg] by (metis not_le option.distinct(1))
  note hyps = assms(1,6,7) l assms(4,5)
  have "fresh_ids (bim env) (objects s') \<and>
      undisturbed (bim env) (created_id env msg ctx) (mc_sender ctx) (objects s) (objects s')"
    using assms(2)
    by (rule process_message_cases)
      (use assms(3) relayed_request_undisturbed [OF hyps] dropped_request_undisturbed [OF hyps] in auto)
  then show ?thesis using resolve_contextD(2) [OF assms(4)] by (simp add: undisturbed_def guest_sender_def)
qed

lemma requests_disturb_nothing_else_witness:
  "host_id term_bimap (objects (snd (process_message sample_env ClientToHost create_pool_message (stale_state [3])))) 1 =
     host_id term_bimap (objects (stale_state [3])) 1"
proof -
  have f: "fresh_ids (bim sample_env) (objects (stale_state [3]))"
    using bimap.fresh_ids_bump [OF term_bimap_sample, of sample_objects] sample_gens by simp
  have c: "created_id sample_env create_pool_message pool_ctx \<noteq> Some 1"
    unfolding created_id_def pool_walked by (simp add: pool_new_id)
  show ?thesis
    using requests_disturb_nothing_else [OF term_bimap_sample run_stale_pool [THEN pairI] pool_header_parsed pool_resolved(2)
        pool_not_delete f] c by simp
qed

text \<open>C5: A relayed message takes its own descriptors off the front of the queue, in order, and no others, and
  these go out with it. Of a \<open>wl_data_source.send\<close> to the client the descriptor of a transfer in a cacheable
  type is replaced by the one of the tee, or lost when the tee cannot be set up; the descriptors of
  every other type go out as they came.\<close>

theorem forwarded_descriptors:
  assumes "process_message env dir msg s = (Relayed, s')" "parse_header (endian env) msg = Some h"
    and "resolve_context env dir (objects s) h = Some ctx"
    and "walk_signature (endian env) (drop HEADER_LEN msg) (signature (mc_desc ctx)) = Inr walk"
    and "taken = take (fd_count walk) (read_fds (src s))"
  shows "read_fds (src s') = drop (fd_count walk) (read_fds (src s)) \<and>
    (\<exists>c msg' fds. dst s = Some c \<and> dst s' = Some (snd (write_message msg' fds c)) \<and>
      (\<not> (dir = HostToClient \<and> is_message ctx ''wl_data_source'' ''send'' \<and> taken \<noteq> [] \<and>
         (\<exists>mime k. read_str (endian env) (drop HEADER_LEN msg') 0 = Some (mime, k) \<and> is_cacheable_mime mime)) \<longrightarrow> fds = taken) \<and>
      (\<forall>mime k. dir = HostToClient \<and> is_message ctx ''wl_data_source'' ''send'' \<and> taken \<noteq> [] \<and>
         read_str (endian env) (drop HEADER_LEN msg') 0 = Some (mime, k) \<and> is_cacheable_mime mime \<longrightarrow>
         fds = butlast taken @ (case start_tee (pipes env) (last taken) mime of Some (client_fd, _) \<Rightarrow> [client_fd] | None \<Rightarrow> [])))"
  using assms(1)
proof (rule process_message_cases)
  have l: "HEADER_LEN \<le> length msg"
    using assms(2) parse_header_None_iff [of "endian env" msg] by (metis not_le option.distinct(1))
  fix h' assume "parse_header (endian env) msg = Some h'" and r: "relay_message env dir h' msg s = (Inr Relayed, s')"
  then have "h' = h" using assms(2) by simp
  from relayed_shape [OF r l] this obtain walk' ctx' fds msg' where
    x: "resolve_context env dir (objects s) h = Some ctx'"
      "walk_signature (endian env) (drop HEADER_LEN msg) (signature (mc_desc ctx')) = Inr walk'"
      "Relayed = (if dst s = None then DroppedFrozen else Relayed)"
      "dst s' = map_option (\<lambda>c. snd (write_message msg' fds c)) (dst s)"
      "read_fds (src s') = drop (fd_count walk') (read_fds (src s))"
      "outgoing_fds env dir ctx' msg' (take (fd_count walk') (read_fds (src s))) fds"
    by metis
  then have e: "ctx' = ctx" "walk' = walk" using assms(3,4) by auto
  obtain c where c: "dst s = Some c" using x(3) by (auto split: if_splits)
  have o: "outgoing_fds env dir ctx msg' taken fds" using x(6) e assms(5) by simp
  show ?thesis using x(4,5) e c
    by (intro conjI exI [of _ c] exI [of _ msg'] exI [of _ fds])
      (use o in \<open>auto simp: outgoing_fds_def\<close>)
next
  fix h' assume "relay_message env dir h' msg s = (Inl Relayed, s')"
  then show ?thesis using relay_message_stopped(1) by (fastforce simp: drop_outcomes_def)
qed auto

lemma forwarded_descriptors_witness:
  "read_fds (src (snd (process_message sample_env ClientToHost create_pool_message (sample_state [3, 4])))) = [4]"
  using forwarded_descriptors [OF run_pool [THEN pairI] pool_header_parsed pool_resolved(1) pool_walked refl] by simp

text \<open>C6: A dropped message leaves its descriptors in the queue: even when its signature declares some, the
  next message that carries a descriptor will be given them.\<close>

theorem dropped_descriptors_stay:
  assumes "process_message env dir msg s = (d, s')" "d \<notin> {Relayed, DroppedFrozen, Intercepted}"
  shows "read_fds (src s') = read_fds (src s)"
  using assms(1)
proof (rule process_message_cases)
  fix h assume h: "parse_header (endian env) msg = Some h" and r: "relay_message env dir h msg s = (Inr d, s')"
  from h have "HEADER_LEN \<le> length msg" using parse_header_None_iff [of "endian env" msg] by (metis not_le option.distinct(1))
  with r show ?thesis by (rule relayed_shape) (use assms(2) in \<open>auto split: if_splits\<close>)
qed (use assms(2) in \<open>auto dest: stopped_keeps_fds\<close>)

lemma dropped_descriptors_stay_witness:
  "read_fds (src (snd (process_message sample_env ClientToHost create_pool_message (stale_state [3])))) = [3]"
  using dropped_descriptors_stay [OF run_stale_pool [THEN pairI]] by simp

text \<open>C7: The loop processes every complete message in the buffer, in order and one at a time, and leaves only
  a rest that no message can be taken from (an incomplete message, or one whose header declares less than a header, see
  C29); it always ends.\<close>

theorem relay_consumes_complete_messages:
  "take_message (endian env) (read_buf (src (relay_ready_messages env dir s))) = None \<and>
   (\<exists>msgs. relays env dir s msgs (relay_ready_messages env dir s) \<and>
      read_buf (src s) = concat msgs @ read_buf (src (relay_ready_messages env dir s)))"
  using relay_loop_relays relay_loop_done [of env dir s]
  by (auto simp: relay_step_def split: option.splits prod.splits)

text \<open>C8: How the stream is cut into reads does not matter: whatever the pieces in which bytes arrive, a pass after
  each of them comes to the same state, with the same bytes written, as one pass over all of them.
  (Descriptors that are in the queue stay as they are; only bytes arrive.)\<close>

theorem reads_can_be_cut_anywhere:
  "relay_pieces env dir pieces (relay_ready_messages env dir s) =
   relay_ready_messages env dir (s\<lparr>src := (src s)\<lparr>read_buf := read_buf (src s) @ concat pieces\<rparr>\<rparr>)"
  by (simp add: relay_pieces_all more_input_def with_more_def)

text \<open>C9: \<open>wl_display.delete_id\<close> of a live object reaches the client with the client's own id, and the proxy
  forgets the object and its recipes at the same moment.\<close>

theorem delete_id_translated:
  assumes "resolve_context env HostToClient (objects s) h = Some ctx"
    and "is_message ctx ''wl_display'' ''delete_id''" "signature (mc_desc ctx) = [ATUint]"
    and "HEADER_LEN + 4 \<le> length msg"
    and "guest_id (bim env) (objects s) (word_at (endian env) msg HEADER_LEN) = Some g" "dst s = Some c"
  shows "\<exists>s'. relay_message env HostToClient h msg s = (Inr Relayed, s') \<and>
    objects s' = remove_guest (bim env) g (objects s) \<and> graph s' = remove_recipes g (graph s) \<and>
    dst s' = Some (snd (write_message (to_ne_bytes (endian env) (mc_sender ctx) @ take 4 (drop 4 msg) @
      to_ne_bytes (endian env) g @ drop (HEADER_LEN + 4) msg) [] c))"
proof -
  from delete_id_event [OF assms] obtain s' msg' where
    "relay_message env HostToClient h msg s = (Inr Relayed, s')"
    "objects s' = remove_guest (bim env) g (objects s)" "graph s' = remove_recipes g (graph s)"
    "msg' = to_ne_bytes (endian env) (mc_sender ctx) @ take 4 (drop 4 msg) @ to_ne_bytes (endian env) g
       @ drop (HEADER_LEN + 4) msg" "dst s' = Some (snd (write_message msg' [] c))" .
  then show ?thesis by auto
qed

lemma delete_id_translated_witness:
  "\<exists>s'. relay_message sample_env HostToClient \<lparr>sender_id = 1, opcode = 1, msg_length = 12\<rparr> delete_id_event_message
      (sample_state []) = (Inr Relayed, s') \<and> objects s' = remove_guest term_bimap 4 sample_objects"
  using delete_id_translated [OF sample_delete_context sample_delete_facts, of "conn_new [] []"]
  by auto

text \<open>C10: A destructor on an object the host has lost with a reconnect is answered by the proxy: one message is
  written to the client, the \<open>delete_id\<close> event of \<open>wl_display\<close> with the object's id, the proxy forgets the
  object, and the host hears nothing.\<close>

theorem stale_destructor_answered:
  assumes "resolve_context env ClientToHost (objects s) h = Some ctx"
    and "walk_signature (endian env) (drop HEADER_LEN msg) (signature (mc_desc ctx)) = Inr walk"
    and "object_offsets walk = []" "new_id_offset walk = None" "is_destructor (mc_desc ctx)"
    and "\<not> is_message ctx ''wl_display'' ''delete_id''" "\<not> is_message ctx ''wl_surface'' ''frame''"
    and "host_id (bim env) (objects s) (mc_sender ctx) = None"
    and "st_interface (objects s) 1 = Some display" "event_opcode display ''delete_id'' = Some opc"
  shows "\<exists>s'. relay_message env ClientToHost h msg s = (Inl DroppedNoSender, s') \<and> dst s' = dst s \<and>
    src s' = snd (write_message (build_message (endian env) 1 opc (put_u32 (endian env) [] (mc_sender ctx))) [] (src s)) \<and>
    objects s' = remove_guest (bim env) (mc_sender ctx) (objects s) \<and> recipe_for (graph s') (mc_sender ctx) = None"
proof -
  have t: "translate_objects (endian env) (translate_id env ClientToHost (objects s)) (object_offsets walk) msg = Inr msg"
    using assms(3) by simp
  from stale_request [OF assms(1,2) t assms(4,6,8,7)] obtain s4 where "quiet s s4"
    "relay_message env ClientToHost h msg s = (Inl DroppedNoSender,
      s4\<lparr>src := synthesize_delete_id env (objects s) (mc_sender ctx) (src s),
         objects := remove_guest (bim env) (mc_sender ctx) (objects s), graph := remove_recipes (mc_sender ctx) (graph s4)\<rparr>)"
    using assms(5) by auto
  then show ?thesis using assms(9,10)
    by (auto simp: quiet_def synthesize_delete_id_def delete_id_opcode_def delete_id_message_def)
qed

lemma stale_destructor_answered_witness:
  "\<exists>s'. relay_message sample_env ClientToHost \<lparr>sender_id = 4, opcode = 0, msg_length = 8\<rparr> destroy_message
      (stale_state []) = (Inl DroppedNoSender, s')"
  using stale_destructor_answered [OF stale_destroy_context stale_destroy_walk _ _ _ _ _ _ stale_display] stale_destroy_facts
  by (auto simp: walk_init_def)

text \<open>C11: A frame request on a surface that has not been recreated yet is answered at once, with the callback's
  \<open>done\<close> event and then the display's \<open>delete_id\<close> for it, its callback is unmapped and its host id given back. The tracker of pending callbacks
  nevertheless keeps the callback, although the source's comment says it was never inserted.\<close>

theorem stale_frame_answered:
  assumes "bimap (bim env)" "resolve_context env ClientToHost (objects s) h = Some ctx"
    and "walk_signature (endian env) (drop HEADER_LEN msg) (signature (mc_desc ctx)) = Inr walk"
    and "new_id_offset walk = Some off" "object_offsets walk = []"
    and "resolve_child_interface (statics env) (mc_desc ctx) (dynamic_interface_name walk) = Some (child, v)"
    and "is_message ctx ''wl_surface'' ''frame''" "\<not> is_destructor (mc_desc ctx)"
    and "host_id (bim env) (objects s) (mc_sender ctx) = None"
    and "g = word_at (endian env) msg (HEADER_LEN + off)" "g \<noteq> 0" "g \<noteq> mc_sender ctx" "g \<noteq> 1"
    and "st_interface (objects s) 1 = Some display" "event_opcode display ''delete_id'' = Some del_opc"
    and "event_opcode child ''done'' = Some done_opc"
  shows "\<exists>s'. relay_message env ClientToHost h msg s = (Inl DroppedNoSender, s') \<and>
    host_id (bim env) (objects s') g = None \<and> next_host_id (objects s') = next_host_id (objects s) \<and>
    src s' = snd (write_message (build_message (endian env) 1 del_opc (put_u32 (endian env) [] g)) []
      (snd (write_message (build_message (endian env) g done_opc (put_u32 (endian env) [] 0)) [] (src s)))) \<and>
    g \<in> set (awaiting_done (pending_frames s'))"
proof -
  have i: "st_interface ((objects s)\<lparr>next_host_id := n\<rparr>) 1 = Some display" for n
    using assms(14) by (simp add: st_interface_def)
  from stale_frame_request [OF assms(1-12)] show ?thesis
    by (rule exE) (use i assms(13-16) in \<open>auto simp: synthesize_frame_done_def synthesize_delete_id_def
      delete_id_opcode_def delete_id_message_def Let_def\<close>)
qed

lemma stale_frame_answered_witness:
  "\<exists>s'. relay_message sample_env ClientToHost \<lparr>sender_id = 4, opcode = 2, msg_length = 12\<rparr> frame_message
      (stale_state []) = (Inl DroppedNoSender, s') \<and> (9 :: u32) \<in> set (awaiting_done (pending_frames s'))"
  using stale_frame_answered [OF term_bimap_sample stale_frame_context stale_frame_walk _ _ stale_frame_child _ _ _ _ _ _ _
      stale_display stale_done, where g = 9 and off = 0] stale_frame_facts by auto

text \<open>C12: What the client creates is written down, compositor or no compositor. A request for an object of a
  recreatable kind (binds and dmabuf buffers apart) that goes through, or would if the host were there, leaves one recipe at
  the end of the graph; it names the sender and the objects the request named, it is typed so that a recovery can
  replay it, and the object is restored exactly when those are. A request that is dropped leaves no recipe, and one
  whose sender is stale is always dropped: what a client creates between a failed recovery and the next is lost. (The
  request is well formed: its new id is not its sender's, and the descriptor of a \<open>create_pool\<close> has arrived.)\<close>

theorem creations_are_recorded:
  assumes "bimap (bim env)" "process_message env ClientToHost msg s = (d, s')"
    and "parse_header (endian env) msg = Some h" "resolve_context env ClientToHost (objects s) h = Some ctx"
    and "((i_name ctx, d_name ctx), tys) \<in> set recreated_requests" "takes_args (mc_desc ctx) tys"
    and "child_interface (mc_desc ctx) = Some child" "request_opcode (mc_iface ctx) (d_name ctx) = Some (opcode h)"
    and "g = word_at (endian env) msg HEADER_LEN" "g \<noteq> sender_id h"
    and "d_name ctx = ''create_pool'' \<longrightarrow> read_fds (src s) \<noteq> []"
  shows "(if d = Relayed \<or> d = DroppedFrozen
      then \<exists>r. graph s' = graph s @ [(g, r)] \<and> parents r = sender_id h # named_objects (endian env) msg tys \<and>
        rebuildable (st_interface (objects s')) globals ri g r \<and>
        (\<forall>K. restored K (graph s') = restored K (graph s) \<union> (if set (parents r) \<subseteq> restored K (graph s) then {g} else {}))
      else set (graph s') \<subseteq> set (graph s)) \<and>
    (host_id (bim env) (objects s) (sender_id h) = None \<longrightarrow> d \<noteq> Relayed \<and> d \<noteq> DroppedFrozen)"
  using assms(2)
proof (rule process_message_cases)
  have l: "HEADER_LEN \<le> length msg"
    using assms(3) parse_header_None_iff [of "endian env" msg] by (metis not_le option.distinct(1))
  have snd: "mc_sender ctx = sender_id h" using resolve_contextD(2) [OF assms(4)] by (simp add: guest_sender_def)
  note special = recreated_not_special [OF assms(5)]
  {
    fix h' assume "parse_header (endian env) msg = Some h'" and r: "relay_message env ClientToHost h' msg s = (Inl d, s')"
    then have "h' = h" using assms(3) by simp
    then show ?thesis
      using dropped_creation [OF r [unfolded \<open>h' = h\<close>] assms(4) special(1,2)] relay_message_stopped(1) [OF r]
      by (auto simp: drop_outcomes_def)
  next
    fix h' assume "parse_header (endian env) msg = Some h'" and r: "relay_message env ClientToHost h' msg s = (Inr d, s')"
    then have "h' = h" using assms(3) by simp
    note r = r [unfolded this]
    obtain rec where "graph s' = graph s @ [(g, rec)]" "parents rec = mc_sender ctx # named_objects (endian env) msg tys"
      "rebuildable (st_interface (objects s')) globals ri g rec"
      using recorded_creation [OF r l assms(4-9)] assms(10,11) snd by auto
    moreover have "host_id (bim env) (objects s) (sender_id h) \<noteq> None"
      using stale_creation_stops [OF assms(1) r l assms(4-6)] assms(9,10) snd by auto
    moreover have "d = Relayed \<or> d = DroppedFrozen" using r l by (rule relayed_shape) auto
    ultimately show ?thesis using snd by (auto simp: restored_append)
  }
qed (use assms(3) in simp_all)

lemma creations_are_recorded_witness:
  "\<exists>r. graph (snd (process_message sample_env ClientToHost create_pool_message ((sample_state [3])\<lparr>dst := None\<rparr>))) =
     graph (sample_state [3]) @ [(9, r)] \<and> parents r = [5]"
  using creations_are_recorded [OF term_bimap_sample run_frozen_pool [THEN pairI] pool_header_parsed _ pool_recreated refl,
      where globals = "[]" and ri = sample_registry] pool_resolved(1) pool_new_id
  by (simp add: named_objects_def) blast

section \<open>A connection over its lifetime\<close>

text \<open>C13: In every reachable state of a connection the generation is the number of reconnects so far, and no
  entry of the table is from a later one.\<close>

theorem generation_counts_reconnects:
  assumes "reachable env n s" "n < 2 ^ 64"
  shows "generation (objects (proxy_of s)) = word_of_nat n \<and> gens_ok (objects (proxy_of s))"
  using assms by (rule reachable_generation)

text \<open>A connection that lost its compositor once and recovered.\<close>

lemma generation_counts_reconnects_witness:
  "generation (objects (finish_recovery sample_env (begin_recovery sample_env (conn_new [] []) fresh_frozen))) = 1"
  using generation_counts_reconnects [OF fresh_reachable] by simp

text \<open>C14: So whatever happened before, when a recovery begins nothing but null and \<open>wl_display\<close> translates, in
  either direction: no id the client still holds is sent to the new compositor as one of the dead
  one's, and no id of the dead compositor is taken for an object of the client.\<close>

theorem recovery_starts_clean:
  assumes "bimap (bim env)" "reachable env n (Running p)" "n < 2 ^ 64 - 1"
  shows "host_id (bim env) (objects (begin_recovery env c p)) g =
      (if g = 0 then Some 0 else if g = 1 then Some 1 else None) \<and>
    guest_id (bim env) (objects (begin_recovery env c p)) h =
      (if h = 0 then Some 0 else if h = 1 then Some 1 else None)"
proof -
  have r: "generation (objects p) = word_of_nat n" "gens_ok (objects p)"
    using reachable_generation [OF assms(2)] assms(3) by simp_all
  have "word_of_nat n \<noteq> (- 1 :: u64)" using assms(3) by (intro word_of_nat_not_max) simp
  then show ?thesis using bimap.host_id_bump [OF assms(1) r(2)] bimap.guest_id_bump [OF assms(1) r(2)] r(1)
    by (simp add: begin_recovery_def)
qed

text \<open>The surface of a connection that has been served is forgotten, both ways.\<close>

lemma recovery_starts_clean_witness:
  "host_id term_bimap (objects newcomer_served) 4 = Some 4 \<and>
   host_id term_bimap (objects (begin_recovery sample_env (conn_new [] []) newcomer_served)) 4 = None \<and>
   guest_id term_bimap (objects (begin_recovery sample_env (conn_new [] []) newcomer_served)) 4 = None"
  using recovery_starts_clean [OF term_bimap_sample newcomer_reachable, of "conn_new [] []" 4 4] newcomer_mapped by simp

text \<open>C15: No recipe without its object: in every reachable state, whatever was relayed, dropped, rolled back or
  recovered, every recorded id still has an interface in the table. And each of the three places
  that delete an object, the \<open>delete_id\<close> event, a destructor on a stale object and the roll-back of a new object,
  takes both away, the object and its recipe.\<close>

theorem recipes_have_objects:
  assumes "reachable env n s"
  shows "(\<forall>g r. (g, r) \<in> set (graph (proxy_of s)) \<longrightarrow> st_interface (objects (proxy_of s)) g \<noteq> None) \<and>
    (\<forall>bs. is_message ctx ''wl_display'' ''delete_id'' \<and> get_range msg HEADER_LEN (HEADER_LEN + 4) = Some bs \<and>
       guest_id (bim env) (objects st) (from_ne_bytes (endian env) bs) = Some g \<longrightarrow>
       st_interface (objects (snd (apply_delete_id env dir ctx msg st))) g = None \<and>
       recipe_for (graph (snd (apply_delete_id env dir ctx msg st))) g = None) \<and>
    (is_destructor (mc_desc ctx) \<longrightarrow>
       st_interface (objects (answer_stale_sender env ClientToHost ctx new st)) (mc_sender ctx) = None \<and>
       recipe_for (graph (answer_stale_sender env ClientToHost ctx new st)) (mc_sender ctx) = None) \<and>
    st_interface (objects (roll_back_new_id env dir (Some g) st)) g = None \<and>
    recipe_for (graph (roll_back_new_id env dir (Some g) st)) g = None"
proof (intro conjI allI impI)
  fix g r assume "(g, r) \<in> set (graph (proxy_of s))"
  then show "st_interface (objects (proxy_of s)) g \<noteq> None"
    using reachable_known [OF assms] unfolding recipes_known_def by blast
qed (simp_all add: apply_delete_id_def answer_stale_sender_def roll_back_new_id_def Let_def)

lemma recipes_have_objects_witness: "st_interface (objects newcomer_served) 4 \<noteq> None"
proof -
  have "(4, RSurface 3) \<in> set (graph (proxy_of (Running newcomer_served)))" by (simp add: newcomer_recorded)
  then show ?thesis using recipes_have_objects [OF newcomer_reachable] by fastforce
qed

text \<open>C16: While the compositor is gone, nothing the client sends reaches the compositor connection, and the
  client's data does not unfreeze it.\<close>

theorem frozen_host_untouched:
  assumes "frozen p"
  shows "host (relay_from_client env p) = host p \<and> frozen (relay_from_client env p)"
  using assms by (rule frozen_silent)

lemma frozen_host_untouched_witness:
  "host (relay_from_client sample_env (sample_proxy\<lparr>frozen := True\<rparr>)) = conn_new [] []"
  using frozen_host_untouched [of "sample_proxy\<lparr>frozen := True\<rparr>" sample_env]
  by (simp add: sample_proxy_def session_new_def)

text \<open>C17: Recovery restores exactly what can be restored. On a compositor that takes every request and answers the
  registry, the connection runs again, and the client's ids that translate are the registry, the
  display and the recorded objects whose parents are restored, in the order of recording: no such
  object is missing and nothing else is alive. No object changes its interface. (Restorable recipes
  must be globals still advertised or children whose interfaces still offer the request.)\<close>

theorem recovery_restores:
  assumes "bimap (bim env)" "gens_ok (objects p)" "generation (objects p) \<noteq> - 1" "willing c"
    and "find_guest_id_by_interface_name (ord_ids env) (objects (begin_recovery env c p)) ''wl_registry'' = Some rg" "rg \<noteq> 0"
    and "st_interface (objects (begin_recovery env c p)) rg = Some ri"
    and "recover_registry env rg ri ((begin_recovery env c p)\<lparr>reclaim := (reclaim p)\<lparr>active_source_host_id := None\<rparr>\<rparr>) =
      (Inr (rh, globals), s1)"
    and "\<forall>(g, r) \<in> set (graph p). g \<noteq> 0 \<and> (set (parents r) \<subseteq> restored {0, 1, rg} (graph p) \<longrightarrow>
      rebuildable (st_interface (objects (begin_recovery env c p))) globals ri g r)"
    and "4 + sum_list (map (host_ids \<circ> snd) (graph p)) < 2 ^ 32"
  shows "\<exists>p'. reconnect env c p = Running p' \<and> \<not> frozen p' \<and>
    (\<forall>g. host_id (bim env) (objects p') g \<noteq> None \<longleftrightarrow> g \<in> restored {0, 1, rg} (graph p)) \<and>
    (\<forall>g. g \<noteq> 1 \<longrightarrow> st_interface (objects p') g = st_interface (objects p) g)"
proof -
  obtain q where "recover_state_after_reconnect env (begin_recovery env c p) = (Inr (), q)"
    "\<forall>g. alive env q g \<longleftrightarrow> g \<in> restored {0, 1, rg} (graph p)"
    "\<forall>g. st_interface (objects q) g = st_interface (objects (begin_recovery env c p)) g"
    using assms by (rule reconnect_rebuilds)
  then show ?thesis by (simp add: reconnect_def alive_def begin_recovery_def)
qed

lemma recovery_restores_witness:
  "\<exists>p'. reconnect sample_env new_compositor lost = Running p' \<and> \<not> frozen p' \<and>
     (\<forall>g. host_id term_bimap (objects p') g \<noteq> None \<longleftrightarrow> g \<in> {0, 1, 2, 3, 4})"
  using recovery_restores [OF term_bimap_sample lost_facts(1-3) lost_registry_guest _ _ lost_registry [THEN pairI] lost_rebuildable
      lost_facts(5)]
  by (simp add: lost_interfaces lost_restored) blast

text \<open>C18: Only a completed recovery ends a freeze. Then no grab is left, and every id the host can be asked for was
  recreated by this very recovery: it is \<open>wl_display\<close>, the registry, or has a recipe.\<close>

theorem unfreezing_is_complete:
  assumes "frozen p" "reconnect env c p = Running p'" "\<not> frozen p'"
    and "gens_ok (objects p)" "generation (objects p) \<noteq> - 1"
  shows "(\<exists>p1. recover_state_after_reconnect env (begin_recovery env c p) = (Inr (), p1) \<and> p' = finish_recovery env p1) \<and>
    (\<forall>d. pointer_focus (grabs p') d = None \<and> held_buttons (grabs p') d = [] \<and> keyboard_focus (grabs p') d = None) \<and>
    (\<forall>g h. g \<noteq> 0 \<longrightarrow> host_id (bim env) (objects p') g = Some h \<longrightarrow>
       g = 1 \<or> g \<in> recreated_ids env (begin_recovery env c p))"
  using reconnect_unfrozen [OF assms] host_id_current by blast

lemma unfreezing_is_complete_witness:
  "\<exists>p1. recover_state_after_reconnect sample_env (begin_recovery sample_env (conn_new [] []) fresh_frozen) = (Inr (), p1)"
  using unfreezing_is_complete [OF fresh_facts(1) fresh_reconnect _ fresh_facts(2,3)] by (auto simp: finish_recovery_fields)

section \<open>What recovery sends\<close>

text \<open>C19: After a recovery, a client that takes everything is sent exactly one \<open>leave\<close> for the focus of each pointer
  and one for that of each keyboard, and one \<open>button\<close> release for every entry of the list of
  held buttons, in which the tracker lists a button once however often it is pressed; all this for devices whose interface has
  the event. No other event is sent, the serials count from one and no grab is left.\<close>

theorem grabs_are_released:
  assumes "willing (gtk s)" "permutes_keys (ord_ids env)"
  shows "\<exists>evs. synthesize_grab_releases env s =
      s\<lparr>gtk := post (without_fds (numbered (endian env) 1 evs)) (gtk s), grabs := clear_grabs (grabs s)\<rparr> \<and>
    (\<forall>d opc x. count_list evs (LeaveEvent d opc x) =
      (if Option.bind (st_interface (objects s) d) (\<lambda>i. event_opcode i ''leave'') = Some opc
       then (if pointer_focus (grabs s) d = Some x then 1 else 0) + (if keyboard_focus (grabs s) d = Some x then 1 else 0)
       else 0)) \<and>
    (\<forall>d opc b. count_list evs (ReleaseEvent d opc b) =
      (if Option.bind (st_interface (objects s) d) (\<lambda>i. event_opcode i ''button'') = Some opc
       then count_list (held_buttons (grabs s) d) b else 0)) \<and>
    (\<forall>d p b st. distinct (held_buttons (grabs s) d) \<longrightarrow> distinct (held_buttons (on_pointer_button p b st (grabs s)) d))"
  using synthesize_grab_releases_willing [OF assms(1), of env] grab_events_count [OF assms(2), of s]
  by (intro exI [of _ "grab_events env s"]) (simp del: held_buttons_steps, blast intro: held_buttons_distinct)

lemma grabs_are_released_witness:
  "\<exists>evs. count_list evs (LeaveEvent 6 1 4) = 1 \<and> count_list evs (ReleaseEvent 6 3 272) = 1 \<and> synthesize_grab_releases sample_env grabbed =
     grabbed\<lparr>gtk := post (without_fds (numbered LittleEndian 1 evs)) (gtk grabbed), grabs := clear_grabs (grabs grabbed)\<rparr>"
proof -
  have h: "held_buttons (grabs grabbed) 6 = [272]" "keyboard_focus (grabs grabbed) 6 = None"
    by (simp_all add: grabbed_def BUTTON_STATE_PRESSED_def)
  from grabs_are_released [OF grabbed_facts(1) sample_order] show ?thesis
    by (elim exE conjE) (use h grabbed_facts(2-5) in \<open>auto intro!: exI\<close>)
qed

text \<open>C20: What the lost compositor still owed is paid. A buffer that it held and that lives again is released to the
  client, and every callback still waiting is answered with \<open>done\<close> and \<open>delete_id\<close>, each once; then
  no buffer is in flight and no callback waits.\<close>

theorem overdue_answers_given:
  assumes "willing (gtk s)" "permutes_keys (ord_ids env)"
  shows "(\<exists>bs. distinct bs \<and> set bs = set (in_flight (buffer_flow s)) \<and>
      gtk (release_in_flight env s) = post (without_fds (concat (map (release_message env s) bs))) (gtk s) \<and>
      in_flight (buffer_flow (release_in_flight env s)) = []) \<and>
    (\<exists>cs. distinct cs \<and> set cs = set (awaiting_done (pending_frames s)) \<and>
      gtk (answer_awaiting env s) = post (without_fds (concat (map (done_messages env (objects s)) cs))) (gtk s) \<and>
      awaiting_done (pending_frames (answer_awaiting env s)) = [])"
  using release_in_flight_willing [OF assms(1), of env] answer_awaiting_willing [OF assms(1), of env]
    permutes_keys_set [OF assms(2)] permutes_keys_distinct [OF assms(2)]
  by (intro conjI exI [of _ "ord_ids env (hs_elems (in_flight (buffer_flow s)))"]
      exI [of _ "ord_ids env (hs_elems (awaiting_done (pending_frames s)))"]) simp_all

lemma overdue_answers_given_witness:
  "in_flight (buffer_flow (release_in_flight sample_env (sample_proxy\<lparr>buffer_flow := \<lparr>pending_attach = [], in_flight = [7]\<rparr>\<rparr>))) = []"
  using overdue_answers_given [OF _ sample_order, of "sample_proxy\<lparr>buffer_flow := \<lparr>pending_attach = [], in_flight = [7]\<rparr>\<rparr>"]
    sample_willing(1) by auto

section \<open>The process\<close>

text \<open>C21: Every client of the process has a connection of its own kind: whatever other clients do, however often
  the listener is rebound and the clipboard is written, a client's status is one its own session
  can reach, so everything shown of sessions holds for it.\<close>

theorem clients_have_sessions:
  assumes "server_run env sv" "cl \<in> set (clients sv)" "client_task cl = Serving s"
  shows "\<exists>n. reachable (env_of env (peer_pid cl)) n s"
  using serves_sessions_run [OF assms(1)] assms(2,3) by (fastforce simp: serves_sessions_def)

lemma clients_have_sessions_witness:
  "\<exists>n. reachable (env_of sample_env (Some 7)) n
     (Running (session_new (env_of sample_env (Some 7)) cache_new (conn_new [] []) (conn_new [] [])))"
  using clients_have_sessions [OF sample_server_runs, of "hd (clients sample_server)"] by (simp add: sample_server_def)

text \<open>C22: Reclaiming the public name never costs a client its connection. When the bind succeeds the name leads to
  the new listener; when it fails the old listener stays in use; and in no reachable state does the
  name lead to a listener that is gone.\<close>

theorem rebind_keeps_clients:
  assumes "server_run env sv"
  shows "clients (rebind removes binds sv) = clients sv \<and> clipboard (rebind removes binds sv) = clipboard sv \<and>
    (\<forall>l. public_name (rebind removes binds sv) = Ours l \<longrightarrow> l = listener (rebind removes binds sv)) \<and>
    (if (public_name sv \<noteq> Nobody \<longrightarrow> removes) \<and> binds
     then public_name (rebind removes binds sv) = Ours (listener (rebind removes binds sv)) \<and>
       listener (rebind removes binds sv) \<noteq> listener sv
     else listener (rebind removes binds sv) = listener sv)"
  using name_ok_run [OF assms] by (auto simp: name_ok_def rebind_def bind_listener_def)

lemma rebind_keeps_clients_witness:
  "clients (rebind True True sample_server) = clients sample_server \<and> public_name (rebind True True sample_server) = Ours 1"
  using rebind_keeps_clients [OF sample_server_runs, of True True]
  by (simp add: rebind_def bind_listener_def sample_server_def quiet_server_def)

text \<open>C23: The clipboard outlives its owner: once the shared cache holds a type, no client that quits, no lost
  compositor and no rebinding of the listener makes it lose it.\<close>

theorem clipboard_survives:
  assumes "server_steps env sv sv'" "cache_get (clipboard sv) mime \<noteq> None"
  shows "cache_get (clipboard sv') mime \<noteq> None"
  using assms by (rule clipboard_keeps)

lemma clipboard_survives_witness:
  "cache_get (clipboard (rebind True True (sample_server\<lparr>clipboard := [(''TEXT'', [65])]\<rparr>))) ''TEXT'' \<noteq> None"
  by (rule clipboard_survives [OF server_steps.more [OF server_steps.none server_step.rebound [where env = sample_env]]])
    (simp add: cache_get_def hm_get_def)

section \<open>The handoff of the socket\<close>

text \<open>C24: The socket is renamed at one moment only: the target is halted by the tracer, at the exit of a \<open>bind\<close> that
  succeeded, and nothing but the detach comes after; the helper succeeds exactly when both calls did.\<close>

theorem handoff_is_atomic:
  assumes "run_ptrace deadline st rounds = Some (res, t)" "trace_log t = pre @ Rename ok # rest"
  shows "tracee_after pre = Halted \<and>
    (\<exists>es0 rax. pre = es0 @ [Waited (Status PtraceSyscall), Getregs (Some (SYS_bind, rax))] \<and> 0 \<le> sint rax) \<and>
    even (length (filter is_syscall_stop pre)) \<and> (\<exists>d. rest = [Detach d] \<and> (res = Inr () \<longleftrightarrow> ok \<and> d))"
  using trace_end_rename [OF run_ptrace_ends [OF assms(1)] assms(2)] by (metis handoff_result_Inr(1))

lemma handoff_is_atomic_witness:
  "tracee_after (butlast (butlast (trace_log sample_trace))) = Halted"
  using handoff_is_atomic [OF sample_handoff, of "butlast (butlast (trace_log sample_trace))" True "[Detach True]"]
  by (simp add: sample_trace_def SYS_bind_def)

text \<open>C25: The target is never left stopped: every way out of the tracer, errors and the timeout included, asks
  for a detach, once and last, unless the target is dead or was never seized; and every signal that
  stopped it on the way, the tracer's own \<open>SIGTRAP\<close> and \<open>SIGSTOP\<close> apart, has been offered back to it, in order, by
  the calls that resume it. All of these calls went through, unless the tracer ends with the error of
  one: then that one was the last thing it did before the detach (and the signal it carried is lost).\<close>

theorem handoff_releases:
  assumes "run_ptrace deadline st rounds = Some (res, t)"
  shows "(Seize True \<in> set (trace_log t) \<longrightarrow> tracee_after (trace_log t) = Dead \<and> filter is_detach (trace_log t) = [] \<or>
      (\<exists>pre d. trace_log t = pre @ [Detach d] \<and> filter is_detach pre = [])) \<and>
    List.map_filter received (trace_log t) = List.map_filter injected (trace_log t) \<and>
    (if res = Inl ResumeFailed then \<exists>pre sig d. trace_log t = pre @ [Syscall sig False, Detach d] \<and> \<not> refused pre
     else \<not> refused (trace_log t))"
  using trace_end_released [OF run_ptrace_ends [OF assms]] trace_end_signals [OF run_ptrace_ends [OF assms]]
    run_ptrace_resumes [OF assms, unfolded resumes_end_def] by blast

lemma handoff_releases_witness:
  "\<exists>pre d. trace_log sample_trace = pre @ [Detach d] \<and> filter is_detach pre = []"
  using handoff_releases [OF sample_handoff] by (simp add: sample_trace_def tracee_after_def)

text \<open>C26: The helper always ends: with either method, as soon as the clock reaches the deadline.\<close>

theorem handoff_returns:
  assumes "deadline \<le> now (trace_rounds m)" "deadline \<le> watch_now (watch_rounds k)"
  shows "\<exists>res. run_handoff meth watch_name deadline present removes st trace_rounds inotify_ok watch_ok watch_rounds = Some res"
  using assms by (rule run_handoff_returns)

lemma handoff_returns_witness:
  "\<exists>res. run_handoff Sigstop ''wayland-0'' 10 True True sample_start sample_rounds True True sample_watch = Some res"
  by (rule handoff_returns [of _ _ 10 _ 10]) (simp_all add: sample_rounds_def sample_watch_def)

section \<open>Messages\<close>

text \<open>C27: The signature walk reads what the encoder wrote: on an encoded payload it succeeds, counts the
  descriptors, and its offsets are those of the object arguments, in order, and of the new id.\<close>

theorem walk_reads_encoded:
  assumes "encode_arguments en sig vals = Inr (payload, fds)" "\<forall>v \<in> set vals. fits v" "length payload < 2 ^ 62"
  shows "\<exists>w. walk_signature en payload sig = Inr w \<and> fd_count w = length fds \<and>
    map (read_u32 en payload) (object_offsets w) = map Some (object_values vals) \<and>
    Option.bind (new_id_offset w) (read_u32 en payload) = new_id_value None vals"
  using walk_encoded [OF assms] by metis

lemma walk_reads_encoded_witness:
  "\<exists>w. walk_signature LittleEndian (put_u32 LittleEndian [] 9) [ATNewId, ATFd] = Inr w \<and> fd_count w = 1"
  using walk_reads_encoded [of LittleEndian "[ATNewId, ATFd]" "[VNewId 9, VFd 3]" "put_u32 LittleEndian [] 9" "[3]"]
  by (auto simp: encode_arguments_def)

text \<open>C28: A walk never points outside the payload: every offset it reports leaves room for its word, two words
  never overlap, and the offset arithmetic never overflows a 64-bit size.\<close>

theorem walk_is_safe:
  assumes "length payload < 2 ^ 62"
  shows "walk_signature en payload sig \<noteq> Inl OffsetOverflow \<and>
    (\<forall>w. walk_signature en payload sig = Inr w \<longrightarrow>
       fd_count w = length (filter (\<lambda>t. t = ATFd) sig) \<and>
       sorted_wrt (\<lambda>a b. a + 4 \<le> b) (object_offsets w) \<and> (\<forall>o1 \<in> set (object_offsets w). o1 + 4 \<le> length payload) \<and>
       (\<forall>n. new_id_offset w = Some n \<longrightarrow> n + 4 \<le> length payload \<and>
          (\<forall>o1 \<in> set (object_offsets w). o1 + 4 \<le> n \<or> n + 4 \<le> o1)))"
proof (intro conjI allI impI)
  show "walk_signature en payload sig \<noteq> Inl OffsetOverflow"
    unfolding walk_signature_def using walk_loop_no_overflow [OF assms] by simp
next
  fix w assume w: "walk_signature en payload sig = Inr w"
  then show "fd_count w = length (filter (\<lambda>t. t = ATFd) sig)"
    by (auto simp: walk_signature_def walk_init_def dest: walk_loop_fd)
qed (auto dest!: walk_signature_within simp: walk_within_def)

lemma walk_is_safe_witness:
  "walk_signature LittleEndian [] [ATUint] \<noteq> Inl OffsetOverflow"
  using walk_is_safe [of "[]" LittleEndian "[ATUint]"] by simp

text \<open>C29: Framing. A message that was built, and whose size fits the 16 bits of its length field, is taken back from the
  front of the stream, whatever follows it. A
  header that declares fewer bytes than a header has is never taken: no later data unblocks the
  stream, although the function documents \<open>None\<close> as a reason to read more.\<close>

theorem framing_of_the_stream:
  "(HEADER_LEN + length payload < 2 ^ 16 \<longrightarrow>
     take_message en (build_message en sender opc payload @ rest) =
       Some (build_message en sender opc payload, HEADER_LEN + length payload) \<and>
     parse_header en (build_message en sender opc payload) =
       Some \<lparr>sender_id = sender, opcode = opc, msg_length = word_of_nat (HEADER_LEN + length payload)\<rparr>) \<and>
   (\<forall>h. parse_header en buf = Some h \<and> message_len h < HEADER_LEN \<longrightarrow> take_message en (buf @ rest) = None)"
  using take_message_build [where en = en and s = sender and opc = opc and p = payload and rest = rest]
    parse_build_message [of en sender opc payload "[]"] take_message_short_length [of en buf _ rest] by auto

lemma framing_of_the_stream_witness:
  "take_message BigEndian (build_message BigEndian 3 1 [1, 2, 3, 4] @ [5]) = Some (build_message BigEndian 3 1 [1, 2, 3, 4], 12) \<and>
   take_message LittleEndian ([1, 0, 0, 0, 0, 0, 4, 0] @ [1, 2, 3]) = None"
proof
  show "take_message BigEndian (build_message BigEndian 3 1 [1, 2, 3, 4] @ [5]) = Some (build_message BigEndian 3 1 [1, 2, 3, 4], 12)"
    using framing_of_the_stream [of "[1, 2, 3, 4]" BigEndian 3 1 "[5]"] by (simp add: HEADER_LEN_def)
  have "parse_header LittleEndian [1, 0, 0, 0, 0, 0, 4, 0] = Some \<lparr>sender_id = 1, opcode = 0, msg_length = 4\<rparr>"
    "message_len \<lparr>sender_id = 1, opcode = 0, msg_length = 4\<rparr> < HEADER_LEN" by code_simp+
  then show "take_message LittleEndian ([1, 0, 0, 0, 0, 0, 4, 0] @ [1, 2, 3]) = None"
    using framing_of_the_stream [of "[]" LittleEndian 0 0 "[1, 2, 3]" "[1, 0, 0, 0, 0, 0, 4, 0]"] by blast
qed

text \<open>C30: The encoder accepts exactly the values that match the signature, and otherwise reports the first one
  that does not, or the two counts when they differ.\<close>

theorem encoder_checks_signature:
  "case encode_arguments en sig vals of
     Inr (payload, fds) \<Rightarrow> list_all2 value_matches sig vals \<and>
       payload = concat (map (value_bytes en) vals) \<and> fds = concat (map value_fds vals)
   | Inl (CountMismatch n m) \<Rightarrow> n = length sig \<and> m = length vals \<and> n \<noteq> m
   | Inl (TypeMismatch j t v) \<Rightarrow> j < length sig \<and> length vals = length sig \<and> t = sig ! j \<and> v = vals ! j \<and>
       \<not> value_matches t v \<and> (\<forall>k < j. value_matches (sig ! k) (vals ! k))"
proof (cases "encode_arguments en sig vals")
  case (Inl e)
  show ?thesis
  proof (cases "length vals = length sig")
    case True
    then have "encode_loop en 0 (zip sig vals) ([], []) = Inl e" using Inl by (simp add: encode_arguments_def)
    from encode_loop_InlD [OF this] show ?thesis using True Inl by auto
  qed (use Inl in \<open>auto simp: encode_arguments_def\<close>)
qed (auto simp: encode_arguments_Inr_iff)

lemma encoder_checks_signature_witness:
  "\<not> value_matches ATUint (VInt 1)"
proof -
  have "encode_arguments LittleEndian [ATNewId, ATUint] [VNewId 3, VInt 1] = Inl (TypeMismatch 1 ATUint (VInt 1))" by code_simp
  then show ?thesis using encoder_checks_signature [where en = LittleEndian and sig = "[ATNewId, ATUint]" and vals = "[VNewId 3, VInt 1]"] by simp
qed

section \<open>Tables and trackers\<close>

text \<open>C31: A drain of either tracker reports exactly what is owed, each id once. Of the callbacks these are the ones
  requested, by a frame request or by a sync, and neither answered nor drained since. Of the buffers
  they are those that a commit put in flight, the commit of any surface that had the buffer
  attached last, and that were neither released nor drained after that commit; so a commit that comes again
  without an attach puts the buffer in flight again, and the surfaces do not disturb each other.\<close>

theorem promises_exact:
  assumes "permutes_keys ord"
  shows "(k \<in> set (fst (drain_awaiting_done ord (frames.track evs pending_frames_new))) \<longleftrightarrow>
      (\<exists>pre post. evs = pre @ Asked k # post \<and> Answered k \<notin> set post \<and> (\<forall>r. Drained r \<notin> set post))) \<and>
    on_sync_requested = on_frame_requested \<and>
    (b \<in> set (fst (drain_in_flight ord (play_flow flow buffer_flow_new))) \<longleftrightarrow> b \<noteq> 0 \<and>
      (\<exists>pre s post. flow = pre @ Commit s # post \<and> last_attached s b pre \<and> Release b \<notin> set post \<and>
        (\<forall>r. DrainFlow r \<notin> set post))) \<and>
    distinct (fst (drain_awaiting_done ord (frames.track evs pending_frames_new))) \<and>
    distinct (fst (drain_in_flight ord (play_flow flow buffer_flow_new)))"
proof (intro conjI)
  show "k \<in> set (fst (drain_awaiting_done ord (frames.track evs pending_frames_new))) \<longleftrightarrow>
      (\<exists>pre post. evs = pre @ Asked k # post \<and> Answered k \<notin> set post \<and> (\<forall>r. Drained r \<notin> set post))"
    by (rule frames.drain_track [OF assms]) (simp_all add: pending_frames_new_def)
qed (rule on_sync_requested_frame drain_play [OF assms] frames.drain_once [OF assms] buffers.drain_once [OF assms])+

text \<open>Two surfaces; the first commits its buffer again after it was released.\<close>

lemma promises_exact_witness:
  "(58 :: u32) \<in> set (fst (drain_in_flight (\<lambda>ks. ks)
     (play_flow [Attach 6 58, Commit 6, Attach 7 99, Release 58, Commit 6, Commit 7, Release 99] buffer_flow_new)))"
proof -
  let ?pre = "[Attach 6 58, Commit 6, Attach 7 99, Release 58]"
  have "last_attached 6 58 ?pre" unfolding last_attached_def by (rule exI [of _ "[]"]) simp
  then have "\<exists>pre s post. ?pre @ Commit 6 # [Commit 7, Release 99] = pre @ Commit s # post \<and> last_attached s 58 pre \<and>
    Release 58 \<notin> set post \<and> (\<forall>r. DrainFlow r \<notin> set post)"
    by (intro exI [of _ ?pre] exI [of _ 6] exI [of _ "[Commit 7, Release 99]"]) simp
  then have "58 \<in> set (fst (drain_in_flight (\<lambda>ks. ks) (play_flow (?pre @ Commit 6 # [Commit 7, Release 99]) buffer_flow_new)))"
    using promises_exact [of "\<lambda>ks. ks" 58 "[]" 58 "?pre @ Commit 6 # [Commit 7, Release 99]"]
    by (simp only: permutes_keys_def simp_thms) simp
  then show ?thesis by simp
qed

text \<open>C32: A transfer that is copied into the clipboard is not disturbed by it. However it ends, the host has received a
  prefix of what the client wrote and the cache only holds bytes that were forwarded; a complete
  transfer reaches the host whole, and is cached whole exactly when it is not empty and not larger
  than the limit.\<close>

theorem tee_is_transparent:
  "(\<exists>rest. script_bytes script = pump_forwarded (run_pump script) @ rest) \<and>
   (\<forall>bs f. run_pump script = PumpStored bs f \<longrightarrow> bs = f) \<and>
   ((\<forall>bs \<in> set chunks. bs \<noteq> []) \<longrightarrow>
     run_pump (map (\<lambda>bs. (PumpBytes bs, True)) chunks @ (PumpBytes [], w) # after) =
       (if concat chunks \<noteq> [] \<and> length (concat chunks) \<le> MAX_CACHED_BYTES
        then PumpStored (concat chunks) (concat chunks) else PumpNotStored (concat chunks)))"
  using pump_forwarded_prefix [of "[]" script "Some []"] pump_stored_forwarded [of script "[]"] run_pump_complete [of chunks w after]
  by (auto simp: run_pump_def)

lemma tee_is_transparent_witness:
  "run_pump [(PumpBytes [104, 105], True), (PumpBytes [33], True), (PumpBytes [], True)] = PumpStored [104, 105, 33] [104, 105, 33]"
  using tee_is_transparent [of "[]" "[[104, 105], [33]]" True "[]"] by (simp add: MAX_CACHED_BYTES_def)

text \<open>C33: A recorded line can be parsed back by splitting it at its tabs: direction, outcome, interface and method,
  sender, opcode, number of descriptors and every byte of the message are what was recorded.\<close>

theorem recorded_line_parses:
  assumes "outcome_text (rl_outcome l) = Some outcome" "plain (rl_interface l)" "plain (rl_method l)"
  shows "parse_line (line_text secs micros outcome l) = Some (direction_text (rl_direction l), outcome,
    rl_interface l @ ''.'' @ rl_method l, unat (rl_sender l), unat (rl_opcode l), rl_fds l, rl_bytes l)"
  using assms by (rule parse_line_text)

lemma recorded_line_parses_witness:
  "parse_line (line_text 1754800000 42 ''RELAYED'' \<lparr>rl_direction = ClientToHost, rl_outcome = Relayed, rl_interface = ''wl_surface'',
     rl_method = ''commit'', rl_sender = 4, rl_opcode = 6, rl_fds = 0, rl_bytes = [4, 0, 0, 0, 6, 0, 8, 0]\<rparr>) =
   Some (''ClientToHost'', ''RELAYED'', ''wl_surface.commit'', 4, 6, 0, [4, 0, 0, 0, 6, 0, 8, 0])"
  by (subst recorded_line_parses) (simp_all add: TAB_def)

section \<open>The diagnostic clients\<close>

text \<open>C34: A wait of the probes decides by the first message of the stream that is an error of the display or the
  one waited for, and otherwise by how the stream ends. Into what reads the stream is cut, and when they come,
  makes no difference. (For a blocking connection without a watchdog.)\<close>

theorem wait_verdict_any_cut:
  assumes "untimed p"
  shows "fst (read_until en sender opc p) =
    wait_outcome (verdict en sender opc (frames_of en (stream_of p))) (stream_end (incoming p))"
  using assms by (rule read_until_decides)

lemma wait_verdict_any_cut_witness:
  "fst (read_until LittleEndian 3 0
     (probe_connected [PeerSends 7 (take 5 (done_event 3)) [], PeerSends 9 (drop 5 (done_event 3)) []] [])) = Inr Matched"
proof -
  let ?p = "probe_connected [PeerSends 7 (take 5 (done_event 3)) [], PeerSends 9 (drop 5 (done_event 3)) []] []"
  have "verdict LittleEndian 3 0 (frames_of LittleEndian (stream_of ?p)) = Some Matched" by code_simp
  then show ?thesis using wait_verdict_any_cut [of ?p LittleEndian 3 0] by (simp add: untimed_def probe_connected_def)
qed

text \<open>C35: The probes that clear their receive buffer between the two waits lose the framing of the stream. Whatever
  bytes came behind the answer to the first callback, in the read that brought it, make no difference to
  how \<open>probe_bind\<close> or \<open>probe_create_pool_resize\<close> ends: were they part of a message, the rest of it
  is taken for the beginning of one; and were they the verdict itself, with nothing to follow, the probe never succeeds.\<close>

theorem cleared_buffer_loses_framing:
  assumes "incoming p = pre @ PeerSends d bs cs # evs" "bs \<noteq> []"
    and "\<not> occurs first_answer (frames_of en (inbox p @ stream_bytes pre))"
    and "occurs first_answer (frames_of en (inbox p @ stream_bytes (pre @ [PeerSends d bs cs])))"
    and "q = p\<lparr>incoming := pre @ PeerSends d (bs @ behind) cs # evs\<rparr>"
  shows "fst (probe_bind en os args q) = fst (probe_bind en os args p) \<and>
    fst (probe_create_pool_resize en os q) = fst (probe_create_pool_resize en os p) \<and>
    (evs = [] \<longrightarrow> fst (probe_bind en os args q) \<noteq> Inl ExitSuccess \<and> fst (probe_create_pool_resize en os q) \<noteq> Inl ExitSuccess)"
proof -
  have c: "collected_in en (inbox p) pre d bs cs" using assms(2-4) by (simp add: collected_in_def)
  show ?thesis
    using probe_bind_rest [OF c assms(1), of os args behind] resize_rest [OF c assms(1), of os behind]
    unfolding assms(5) [symmetric] by metis
qed

text \<open>The same three messages: in one read the probe waits for ever, cut behind a message it succeeds, and cut
  within the second it waits for ever again.\<close>

lemma cleared_buffer_loses_framing_witness:
  "fst (probe_bind LittleEndian quiet_os [''SKIP''] ((probe_connected [] [])\<lparr>incoming := [PeerSends 1
     (build_message LittleEndian 3 0 (u32s LittleEndian [0]) @
      (build_message LittleEndian 1 1 (u32s LittleEndian [3]) @ build_message LittleEndian 5 0 (u32s LittleEndian [0]))) []]\<rparr>))
     \<noteq> Inl ExitSuccess \<and>
   fst (probe_bind LittleEndian quiet_os [''SKIP''] (answers_cut 12)) = Inl ExitSuccess \<and>
   fst (probe_bind LittleEndian quiet_os [''SKIP''] (answers_cut 4)) = Inl NeverReturns"
proof -
  let ?first = "build_message LittleEndian 3 0 (u32s LittleEndian [0])"
  let ?behind = "build_message LittleEndian 1 1 (u32s LittleEndian [3]) @ build_message LittleEndian 5 0 (u32s LittleEndian [0])"
  let ?p = "probe_connected [PeerSends 1 ?first []] []"
  have inc: "incoming ?p = [] @ PeerSends 1 ?first [] # []" by (simp add: probe_connected_def)
  have none: "\<not> occurs first_answer (frames_of LittleEndian (inbox ?p @ stream_bytes []))" by (simp add: probe_connected_def)
  have one: "occurs first_answer (frames_of LittleEndian (inbox ?p @ stream_bytes ([] @ [PeerSends 1 ?first []])))"
    using frames_of_u32s [of "[0]" LittleEndian 3 0 "[]"] by (simp add: first_answer_def frame_of_def probe_connected_def)
  note starved = cleared_buffer_loses_framing [OF inc build_message_nonempty none one refl, THEN conjunct2, THEN conjunct2,
      THEN mp, OF refl, THEN conjunct1]
  have "fst (probe_bind LittleEndian quiet_os [''SKIP''] (?p\<lparr>incoming := [] @ PeerSends 1 (?first @ ?behind) [] # []\<rparr>))
      \<noteq> Inl ExitSuccess" by (rule starved)
  moreover have "?p\<lparr>incoming := [] @ PeerSends 1 (?first @ ?behind) [] # []\<rparr> =
      (probe_connected [] [])\<lparr>incoming := [PeerSends 1 (?first @ ?behind) []]\<rparr>" by (simp add: probe_connected_def)
  ultimately show ?thesis using probe_bind_cuts by simp
qed

text \<open>C36: The reconnect probes come back. Once the handshake before the crash has come back, so does the whole program,
  whatever the compositor does or does not do afterwards, within the time of its watchdog.\<close>

theorem reconnect_probes_end:
  "ends_after (and_then (open_display ''wayland-0'' os) (\<lambda>_. resize_before_crash en os)) (probe_reconnect_resize en os) 20000 \<and>
   ends_after (and_then (open_display ''wayland-0'' os) (\<lambda>_. window_before_crash en os)) (probe_reconnect_resize_with_surface en os) 25000 \<and>
   ends_after (and_then (open_display ''wayland-0'' os) (\<lambda>_. dmabuf_before_crash en g)) (probe_dmabuf_reconnect en os g) 30000"
  unfolding probe_reconnect_resize_def probe_reconnect_resize_with_surface_def probe_dmabuf_reconnect_def
  by (intro conjI ends_after_crash watch_rules watched_after_crash)

lemma reconnect_probes_end_witness:
  "fst (probe_dmabuf_reconnect LittleEndian quiet_os sample_gbm (probe_connected (settled @ []) [])) \<noteq> Inl NeverReturns \<and>
   clock (snd (probe_dmabuf_reconnect LittleEndian quiet_os sample_gbm (probe_connected (settled @ []) []))) \<le> 31505"
proof -
  obtain r p where h: "handshake (probe_connected (settled @ []) []) = (r, p)" by fastforce
  with handshake_settles [of "[]"] have "r = Inr ()" "clock p = 1505" by auto
  with h reconnect_probes_end [of quiet_os LittleEndian sample_gbm] show ?thesis unfolding ends_after_def by fastforce
qed

text \<open>C37: A PASS is earned. A reconnect probe that ends with success set its objects up; requested a callback and heard
  its answer; had the compositor killed; requested callbacks under consecutive new ids, hearing neither an answer nor an error
  before it gave one up, and heard the answer of the last; sent its second part; and requested
  the last callbacks and heard their answers. Each wait is stated between the state in which its
  request goes out and that in which the next step begins, and none of the messages it took off the stream in
  between is an error of the display. (An answer is recognised by its id alone, and in
  \<open>probe_reconnect_resize\<close> the last id may be one it has given up on before, see C38.)\<close>

theorem pass_is_earned:
  assumes "one_ending p"
  shows "(probe_reconnect_resize en os p = (Inl ExitSuccess, p') \<longrightarrow>
      earned en (and_then (open_display ''wayland-0'' os) (\<lambda>_. resize_setup en os)) 7 (crash_and_watch os 20000 (Some 400)) 8
        (resize_second_buffer en os) (\<lambda>_. settled_by en 11) p p') \<and>
    (probe_reconnect_resize_with_surface en os p = (Inl ExitSuccess, p') \<longrightarrow>
      earned en (and_then (open_display ''wayland-0'' os) (\<lambda>_. window_setup en os)) 12 (crash_and_watch os 25000 None) 13
        (window_second_buffer en os) (\<lambda>_. settled_by en 16) p p') \<and>
    (probe_dmabuf_reconnect en os g p = (Inl ExitSuccess, p') \<longrightarrow>
      earned en (and_then (open_display ''wayland-0'' os) (\<lambda>_. dmabuf_setup en g)) 12 (crash_and_watch os 30000 None) 13
        (settle_again en) (shown_again en) p p')"
  using probes_earn [OF assms] by blast

lemma pass_is_earned_witness:
  "earned LittleEndian (and_then (open_display ''wayland-0'' quiet_os) (\<lambda>_. dmabuf_setup LittleEndian sample_gbm)) 12
     (crash_and_watch quiet_os 30000 None) 13 (settle_again LittleEndian) (shown_again LittleEndian) coming_back
     (snd (probe_dmabuf_reconnect LittleEndian quiet_os sample_gbm coming_back))"
  using pass_is_earned [OF coming_back_once, of LittleEndian quiet_os _ sample_gbm] coming_back_passes by (metis prod.collapse)

text \<open>C38: The retries of \<open>probe_reconnect_resize\<close> collide with its fixed ids. From the crash to a PASS it writes one
  request for a callback per try, under the ids 8, 9, 10 and so on, and then the burst that creates
  pool 9, buffer 10 and callback 11; so after a single retry the id 9 has been requested twice.\<close>

theorem retries_reuse_ids:
  assumes "obliging p"
    and "and_then (crash_and_reconnect en os 20000 (Some 400) 8) (\<lambda>_. resize_after_crash en os) p = (Inl ExitSuccess, p')"
  shows "\<exists>n f. os_file os ''pool_b'' 1056096 = Some f \<and>
    wire_log (desk p') = wire_log (desk p) @ tried en 8 n @ second_buffer en f \<and>
    (1 \<le> n \<longrightarrow> (sync_message en 9, []) \<in> set (tried en 8 n)) \<and>
    (build_message en 4 0 (u32s en [9, 1056096]), [ScmRights [f]]) \<in> set (second_buffer en f)"
  using writesD [OF reconnect_log assms(2,1)] retried_id_clashes by (auto simp: second_buffer_def)

lemma retries_reuse_ids_witness:
  "\<exists>n. wire_log (desk (snd (from_crash one_retry))) = tried LittleEndian 8 n @ second_buffer LittleEndian 7"
proof -
  have "from_crash one_retry = (Inl ExitSuccess, snd (from_crash one_retry))"
    using one_retry_passes(2) by (metis prod.collapse)
  from retries_reuse_ids [OF one_retry_passes(1) this] show ?thesis
    by (auto simp: quiet_os_def one_retry_def with_fds_def probe_connected_def)
qed

text \<open>C39: The ten-second deadline of the dmabuf probe cannot fire while nothing arrives: its reads are blocking by then.
  A compositor that stays silent after the reconnect is not reported as an answer that did not come in time; the watchdog
  ends the process.\<close>

theorem silent_compositor_trips_watchdog:
  assumes "incoming p = []" "watchdog p = Some w" "clock p \<le> w" "obliging p"
  shows "fst (dmabuf_after_crash en sync_id p) = Inl KilledByWatchdog"
  using assms by (rule dmabuf_silence)

lemma silent_compositor_trips_watchdog_witness:
  "fst (dmabuf_after_crash LittleEndian 13 ((probe_connected [] [])\<lparr>watchdog := Some 30000\<rparr>)) = Inl KilledByWatchdog"
  by (rule silent_compositor_trips_watchdog [of _ 30000]) (simp_all add: probe_connected_def)



end
